(* ===== verification/TL_Prelude.thy ===== *)
theory TL_Prelude
  imports Main "HOL-Library.Word"
begin

section \<open>Prelude: faults, computations, C characters and strings\<close>

text \<open>
  Shared ground of the development. A C function that reads and writes global state is a
  computation: it takes the state and returns either a fault (a failed \<open>assert\<close>, a read
  outside an object, a null dereference, or a loop that has not finished within the given
  fuel) or its value with the new state. Null results of the code are ordinary values, not
  faults. The C \<open>char\<close> of the x86 and ARM64-Darwin builds is signed; \<open>schar\<close> reads a byte
  that way. \<open>strcmp\<close> is modelled by its documented sign.
\<close>

type_synonym u8 = "8 word"
type_synonym u32 = "32 word"
type_synonym u64 = "64 word"

named_theorems comp_simps \<open>evaluation of computations on a state\<close>
named_theorems comp_elims \<open>inversion of computations that returned\<close>

subsection \<open>Faults and computations\<close>

datatype fault =
    Assertion      \<comment> \<open>\<open>assert (0)\<close> or a failed \<open>assert\<close>: the process aborts\<close>
  | OutOfBounds    \<comment> \<open>a read or write outside the object\<close>
  | NullDeref      \<comment> \<open>a dereference of a null or wild pointer\<close>
  | OutOfFuel      \<comment> \<open>the loop or recursion did not end within the fuel\<close>

type_synonym ('s, 'a) comp = "'s \<Rightarrow> fault + ('a \<times> 's)"

definition ret :: "'a \<Rightarrow> ('s, 'a) comp" where
  "ret x = (\<lambda>s. Inr (x, s))"

definition raise :: "fault \<Rightarrow> ('s, 'a) comp" where
  "raise e = (\<lambda>s. Inl e)"

definition bind :: "('s, 'a) comp \<Rightarrow> ('a \<Rightarrow> ('s, 'b) comp) \<Rightarrow> ('s, 'b) comp" where
  "bind m f = (\<lambda>s. case m s of Inl e \<Rightarrow> Inl e | Inr (x, s') \<Rightarrow> f x s')"

definition gets :: "('s \<Rightarrow> 'a) \<Rightarrow> ('s, 'a) comp" where
  "gets f = (\<lambda>s. Inr (f s, s))"

definition modify :: "('s \<Rightarrow> 's) \<Rightarrow> ('s, unit) comp" where
  "modify f = (\<lambda>s. Inr ((), f s))"

definition check :: "bool \<Rightarrow> ('s, unit) comp" where
  "check b = (if b then ret () else raise Assertion)"

text \<open>Lifting a pure partial result and iterating a computation over a list.\<close>

definition lift :: "fault + 'a \<Rightarrow> ('s, 'a) comp" where
  "lift r = (\<lambda>s. case r of Inl e \<Rightarrow> Inl e | Inr x \<Rightarrow> Inr (x, s))"

primrec iterate :: "('a \<Rightarrow> ('s, unit) comp) \<Rightarrow> 'a list \<Rightarrow> ('s, unit) comp" where
  "iterate f [] = ret ()"
| "iterate f (x # xs) = bind (f x) (\<lambda>_. iterate f xs)"

lemma ret_apply [simp, comp_simps]: "ret x s = Inr (x, s)"
  by (simp add: ret_def)

lemma raise_apply [simp, comp_simps]: "raise e s = Inl e"
  by (simp add: raise_def)

lemma gets_apply [simp, comp_simps]: "gets f s = Inr (f s, s)"
  by (simp add: gets_def)

lemma modify_apply [simp, comp_simps]: "modify f s = Inr ((), f s)"
  by (simp add: modify_def)

lemma check_apply [simp, comp_simps]: "check b s = (if b then Inr ((), s) else Inl Assertion)"
  by (simp add: check_def)

lemma lift_apply [simp, comp_simps]:
  "lift r s = (case r of Inl e \<Rightarrow> Inl e | Inr x \<Rightarrow> Inr (x, s))"
  by (simp add: lift_def)

lemma bind_apply [comp_simps]:
  "bind m f s = (case m s of Inl e \<Rightarrow> Inl e | Inr (x, s') \<Rightarrow> f x s')"
  by (simp add: bind_def)

lemma bind_Inr [simp]: "m s = Inr (x, s') \<Longrightarrow> bind m f s = f x s'"
  by (simp add: bind_def)

lemma bind_Inl [simp]: "m s = Inl e \<Longrightarrow> bind m f s = Inl e"
  by (simp add: bind_def)

lemma bind_ret_left [simp]: "bind (ret x) f = f x"
  by (simp add: bind_def ret_def)

lemma bind_ret_right [simp]: "bind m ret = m"
  by (auto simp: bind_def ret_def fun_eq_iff split: sum.splits)

lemma bind_assoc: "bind (bind m f) g = bind m (\<lambda>x. bind (f x) g)"
  by (auto simp: bind_def fun_eq_iff split: sum.splits)

lemma bind_InrE [elim!, comp_elims]:
  assumes "bind m f s = Inr r"
  obtains x s' where "m s = Inr (x, s')" and "f x s' = Inr r"
  using assms by (auto simp: bind_def split: sum.splits)

lemma check_InrE [elim!, comp_elims]:
  assumes "check b s = Inr r"
  obtains "b" and "r = ((), s)"
  using assms by (auto split: if_splits)

lemma bind_cong [fundef_cong]:
  "m = m' \<Longrightarrow> (\<And>x. f x = f' x) \<Longrightarrow> bind m f = bind m' f'"
  by presburger

lemma iterate_append: "iterate f (xs @ ys) = bind (iterate f xs) (\<lambda>_. iterate f ys)"
  by (induction xs) (simp_all add: bind_assoc)

lemma iterate_cong [fundef_cong]:
  "xs = ys \<Longrightarrow> (\<And>x. x \<in> set ys \<Longrightarrow> f x = g x) \<Longrightarrow> iterate f xs = iterate g ys"
  by (induction xs arbitrary: ys) auto

text \<open>A predicate kept by every step of an iteration is kept by the iteration.\<close>

lemma iterate_invariant:
  assumes "iterate f xs s = Inr (u, s')" and "I s"
    and "\<And>x s t. x \<in> set xs \<Longrightarrow> I s \<Longrightarrow> f x s = Inr ((), t) \<Longrightarrow> I t"
  shows "I s'"
  using assms
proof (induction xs arbitrary: s)
  case Nil
  then show ?case by simp
next
  case (Cons x xs)
  from Cons.prems(1) obtain t where t: "f x s = Inr ((), t)" and r: "iterate f xs t = Inr (u, s')"
    by (auto simp: bind_def split: sum.splits)
  from Cons.prems(3)[OF _ Cons.prems(2) t] have "I t" by simp
  with r show ?case by (rule Cons.IH) (use Cons.prems(3) in auto)
qed

subsection \<open>Invariants of computations\<close>

text \<open>
  \<open>keeps I m\<close>: whenever \<open>m\<close> returns from a state with \<open>I\<close>, the new state has \<open>I\<close>. The collection
  \<open>keeps\<close> holds the rules by which the invariants of the components are carried through the code,
  one construct at a time.
\<close>

definition keeps :: "('s \<Rightarrow> bool) \<Rightarrow> ('s, 'a) comp \<Rightarrow> bool" where
  "keeps I m \<longleftrightarrow> (\<forall>s x t. I s \<longrightarrow> m s = Inr (x, t) \<longrightarrow> I t)"

named_theorems keeps \<open>computations that keep an invariant\<close>

lemma keepsI: "(\<And>s x t. I s \<Longrightarrow> m s = Inr (x, t) \<Longrightarrow> I t) \<Longrightarrow> keeps I m"
  by (simp add: keeps_def)

lemma keepsD: "keeps I m \<Longrightarrow> I s \<Longrightarrow> m s = Inr (x, t) \<Longrightarrow> I t"
  by (simp add: keeps_def)

lemma keeps_basic [keeps]:
  "keeps I (ret x)" "keeps I (raise e)" "keeps I (gets f)" "keeps I (check b)" "keeps I (lift r)"
  by (auto simp: keeps_def split: if_splits sum.splits)

lemma keeps_modify: "(\<And>s. I s \<Longrightarrow> I (f s)) \<Longrightarrow> keeps I (modify f)"
  by (simp add: keeps_def)

lemma keeps_bind [keeps]: "keeps I m \<Longrightarrow> (\<And>x. keeps I (f x)) \<Longrightarrow> keeps I (bind m f)"
  unfolding keeps_def by (metis bind_InrE)

lemma keeps_if [keeps]: "(b \<Longrightarrow> keeps I m) \<Longrightarrow> (\<not> b \<Longrightarrow> keeps I n) \<Longrightarrow> keeps I (if b then m else n)"
  by simp

lemma keeps_case_option [keeps]:
  "keeps I m \<Longrightarrow> (\<And>x. keeps I (f x)) \<Longrightarrow> keeps I (case r of None \<Rightarrow> m | Some x \<Rightarrow> f x)"
  by (simp split: option.split)

lemma keeps_case_list [keeps]:
  "keeps I m \<Longrightarrow> (\<And>x xs. keeps I (f x xs)) \<Longrightarrow> keeps I (case r of [] \<Rightarrow> m | x # xs \<Rightarrow> f x xs)"
  by (simp split: list.split)

lemma keeps_case_prod [keeps]: "(\<And>x y. keeps I (f x y)) \<Longrightarrow> keeps I (case r of (x, y) \<Rightarrow> f x y)"
  by (simp split: prod.split)

lemma keeps_Let [keeps]: "(\<And>x. keeps I (f x)) \<Longrightarrow> keeps I (let x = e in f x)"
  by simp

lemma keeps_iterate: "(\<And>x. x \<in> set xs \<Longrightarrow> keeps I (f x)) \<Longrightarrow> keeps I (iterate f xs)"
  by (induction xs) (auto intro!: keeps)

subsection \<open>C characters\<close>

definition schar :: "char \<Rightarrow> int" where
  "schar c = (let n = of_char c in if n < 128 then n else n - 256)"

lemma schar_range: "-128 \<le> schar c" "schar c < 128"
proof -
  have "(of_char c :: int) < 256" using of_char_of[of "of_char c :: nat"]
    by (metis of_char_mod_256 of_char_eq_iff of_int_eq_iff of_nat_of_char
        pos_mod_bound zero_less_numeral)
  moreover have "(0::int) \<le> of_char c"
    by (metis of_nat_0_le_iff of_nat_of_char)
  ultimately show "-128 \<le> schar c" "schar c < 128"
    by (auto simp: schar_def Let_def)
qed

subsection \<open>C strings\<close>

text \<open>
  \<open>strcmp\<close> by its sign: bytes compare as \<open>unsigned char\<close>, and a proper prefix is smaller.
\<close>

fun strcmp :: "string \<Rightarrow> string \<Rightarrow> int" where
  "strcmp [] [] = 0"
| "strcmp [] (b # bs) = -1"
| "strcmp (a # as) [] = 1"
| "strcmp (a # as) (b # bs) =
     (if a = b then strcmp as bs
      else if (of_char a :: int) < of_char b then -1 else 1)"

lemma strcmp_eq_0 [simp]: "strcmp a b = 0 \<longleftrightarrow> a = b"
  by (induction a b rule: strcmp.induct) auto

lemma strcmp_flip: "strcmp a b < 0 \<longleftrightarrow> 0 < strcmp b a"
  by (induction a b rule: strcmp.induct) (auto simp: not_less le_less)

lemma strcmp_trans: "strcmp a b < 0 \<Longrightarrow> strcmp b c < 0 \<Longrightarrow> strcmp a c < 0"
proof (induction a b arbitrary: c rule: strcmp.induct)
  case (2 b bs)
  then show ?case by (cases c) auto
next
  case (4 a as b bs)
  then show ?case by (cases c) (auto split: if_splits)
qed auto

subsection \<open>Outcomes of computations\<close>

text \<open>
  \<open>post E m Q s\<close>: run from \<open>s\<close>, \<open>m\<close> either returns with \<open>Q\<close> or ends in a fault allowed by \<open>E\<close>. With
  \<open>E\<close> everywhere false this is total correctness, with \<open>E\<close> everywhere true partial correctness; the
  components prove both at once by leaving \<open>E\<close> open.
\<close>

definition post :: "(fault \<Rightarrow> bool) \<Rightarrow> ('s, 'a) comp \<Rightarrow> ('a \<Rightarrow> 's \<Rightarrow> bool) \<Rightarrow> 's \<Rightarrow> bool" where
  "post E m Q s = (case m s of Inl e \<Rightarrow> E e | Inr (x, t) \<Rightarrow> Q x t)"

named_theorems post_simps \<open>weakest preconditions of the constructs\<close>

lemma post_basic [post_simps]:
  "post E (ret x) Q s = Q x s"
  "post E (raise e) Q s = E e"
  "post E (gets f) Q s = Q (f s) s"
  "post E (modify g) R s = R () (g s)"
  "post E (bind m k) Q s = post E m (\<lambda>y. post E (k y) Q) s"
  "post E (if b then m1 else m2) Q s = (if b then post E m1 Q s else post E m2 Q s)"
  by (simp_all add: post_def bind_apply split: sum.split)

lemma post_mono:
  "post E m Q s \<Longrightarrow> (\<And>x t. Q x t \<Longrightarrow> R x t) \<Longrightarrow> post E m R s"
  by (auto simp: post_def split: sum.splits)

lemma post_bindI:
  "post E m R s \<Longrightarrow> (\<And>x t. R x t \<Longrightarrow> post E (f x) Q t) \<Longrightarrow> post E (bind m f) Q s"
  unfolding post_simps by (rule post_mono)

lemma post_gets: "post E (bind (gets f) k) Q s = post E (k (f s)) Q s"
  by (simp add: post_simps)

lemma post_ifI:
  "(b \<Longrightarrow> post E m Q s) \<Longrightarrow> (\<not> b \<Longrightarrow> post E n Q s) \<Longrightarrow> post E (if b then m else n) Q s"
  by simp

lemma post_Inr: "post E m Q s \<Longrightarrow> m s = Inr (x, t) \<Longrightarrow> Q x t"
  by (simp add: post_def)

lemma post_total: "post (\<lambda>_. False) m Q s \<Longrightarrow> \<exists>x t. m s = Inr (x, t) \<and> Q x t"
  by (auto simp: post_def split: sum.splits)

end
