(* ===== verification/TL_Treap.thy ===== *)
theory TL_Treap
  imports TL_Prelude
begin

section \<open>The ordered container of tl-parser-tree.h\<close>

text \<open>
  The macro \<open>DEFINE_TREE\<close> generates a treap for an element type and a comparison: search
  order by \<open>X_CMP\<close>, heap order by a priority that callers draw from \<open>lrand48\<close>. Every
  operation uses the comparison only as \<open>X_CMP (x, T->x)\<close> for the probe \<open>x\<close>, so the
  definitions take the function \<open>c = X_CMP (x, \<cdot>)\<close>. \<open>assert\<close> failures are faults.

  The locale \<open>tree_order\<close> states what a comparison must satisfy on the keys in use; inside
  it every operation is characterised on the in-order sequence of the elements. The theories
  of the registries and of the variable bindings interpret it on their own comparisons.
\<close>

datatype 'x treap =
    TNil
  | TNode (tleft: "'x treap") (tx: 'x) (ty: int) (tright: "'x treap")

definition new_tree_node :: "'x \<Rightarrow> int \<Rightarrow> 'x treap" where
  "new_tree_node x y = TNode TNil x y TNil"

fun tree_split :: "('x \<Rightarrow> int) \<Rightarrow> 'x treap \<Rightarrow> 'x treap \<times> 'x treap" where
  "tree_split c TNil = (TNil, TNil)"
| "tree_split c (TNode l z y r) =
     (if c z < 0 then (let (a, b) = tree_split c l in (a, TNode b z y r))
      else (let (a, b) = tree_split c r in (TNode l z y a, b)))"

fun tree_insert :: "('x \<Rightarrow> int) \<Rightarrow> 'x treap \<Rightarrow> 'x \<Rightarrow> int \<Rightarrow> fault + 'x treap" where
  "tree_insert c TNil x y = Inr (new_tree_node x y)"
| "tree_insert c (TNode l z w r) x y =
     (if w < y then (let (a, b) = tree_split c (TNode l z w r) in Inr (TNode a x y b))
      else if c z = 0 then Inl Assertion
      else if c z < 0 then
        (case tree_insert c l x y of Inl e \<Rightarrow> Inl e | Inr l' \<Rightarrow> Inr (TNode l' z w r))
      else
        (case tree_insert c r x y of Inl e \<Rightarrow> Inl e | Inr r' \<Rightarrow> Inr (TNode l z w r')))"

fun tree_merge :: "'x treap \<Rightarrow> 'x treap \<Rightarrow> 'x treap" where
  "tree_merge TNil R = R"
| "tree_merge L TNil = L"
| "tree_merge (TNode l1 x1 y1 r1) (TNode l2 x2 y2 r2) =
     (if y2 < y1 then TNode l1 x1 y1 (tree_merge r1 (TNode l2 x2 y2 r2))
      else TNode (tree_merge (TNode l1 x1 y1 r1) l2) x2 y2 r2)"

fun tree_delete :: "('x \<Rightarrow> int) \<Rightarrow> 'x treap \<Rightarrow> fault + 'x treap" where
  "tree_delete c TNil = Inl Assertion"
| "tree_delete c (TNode l z w r) =
     (if c z = 0 then Inr (tree_merge l r)
      else if c z < 0 then
        (case tree_delete c l of Inl e \<Rightarrow> Inl e | Inr l' \<Rightarrow> Inr (TNode l' z w r))
      else
        (case tree_delete c r of Inl e \<Rightarrow> Inl e | Inr r' \<Rightarrow> Inr (TNode l z w r')))"

fun tree_get_min :: "'x treap \<Rightarrow> 'x option" where
  "tree_get_min TNil = None"
| "tree_get_min (TNode TNil x y r) = Some x"
| "tree_get_min (TNode (TNode ll lx ly lr) x y r) = tree_get_min (TNode ll lx ly lr)"

fun tree_lookup :: "('x \<Rightarrow> int) \<Rightarrow> 'x treap \<Rightarrow> 'x option" where
  "tree_lookup c TNil = None"
| "tree_lookup c (TNode l z w r) =
     (if c z = 0 then Some z
      else if c z < 0 then tree_lookup c l else tree_lookup c r)"

fun tree_act :: "'x treap \<Rightarrow> ('x \<Rightarrow> ('s, unit) comp) \<Rightarrow> ('s, unit) comp" where
  "tree_act TNil act = ret ()"
| "tree_act (TNode l x y r) act =
     bind (tree_act l act) (\<lambda>_. bind (act x) (\<lambda>_. tree_act r act))"

fun tree_act_ex :: "'x treap \<Rightarrow> ('x \<Rightarrow> 'e \<Rightarrow> ('s, unit) comp) \<Rightarrow> 'e \<Rightarrow> ('s, unit) comp" where
  "tree_act_ex TNil act extra = ret ()"
| "tree_act_ex (TNode l x y r) act extra =
     bind (tree_act_ex l act extra) (\<lambda>_. bind (act x extra) (\<lambda>_. tree_act_ex r act extra))"

fun tree_count :: "'x treap \<Rightarrow> int" where
  "tree_count TNil = 0"
| "tree_count (TNode l x y r) = 1 + tree_count l + tree_count r"

fun tree_check :: "('x \<Rightarrow> 'x \<Rightarrow> int) \<Rightarrow> 'x treap \<Rightarrow> bool" where
  "tree_check cmp TNil = True"
| "tree_check cmp (TNode l x y r) =
     ((l \<noteq> TNil \<longrightarrow> ty l \<le> y \<and> cmp (tx l) x < 0) \<and>
      (r \<noteq> TNil \<longrightarrow> ty r \<le> y \<and> 0 < cmp (tx r) x) \<and>
      tree_check cmp l \<and> tree_check cmp r)"

fun tree_clear :: "'x treap \<Rightarrow> 'x treap" where
  "tree_clear TNil = TNil"
| "tree_clear (TNode l x y r) = (let _ = tree_clear l; _ = tree_clear r in TNil)"

subsection \<open>Generic facts: in-order sequence, traversal, priorities\<close>

fun inorder :: "'x treap \<Rightarrow> 'x list" where
  "inorder TNil = []"
| "inorder (TNode l x y r) = inorder l @ x # inorder r"

fun heap_ok :: "'x treap \<Rightarrow> bool" where
  "heap_ok TNil = True"
| "heap_ok (TNode l x y r) =
     ((l \<noteq> TNil \<longrightarrow> ty l \<le> y) \<and> (r \<noteq> TNil \<longrightarrow> ty r \<le> y) \<and> heap_ok l \<and> heap_ok r)"

lemma tree_clear_eq [simp]: "tree_clear T = TNil"
  by (cases T) auto

lemma tree_count_inorder: "tree_count T = int (length (inorder T))"
  by (induction T) auto

lemma tree_act_inorder: "tree_act T act = iterate act (inorder T)"
  by (induction T) (simp_all add: iterate_append)

lemma tree_act_ex_inorder: "tree_act_ex T act e = iterate (\<lambda>x. act x e) (inorder T)"
  by (induction T) (simp_all add: iterate_append)

lemma tree_get_min_inorder:
  "tree_get_min T = (case inorder T of [] \<Rightarrow> None | x # _ \<Rightarrow> Some x)"
  by (induction T rule: tree_get_min.induct)
     (auto simp: Cons_eq_append_conv append_eq_Cons_conv split: list.splits)

lemma inorder_merge [simp]: "inorder (tree_merge L R) = inorder L @ inorder R"
  by (induction L R rule: tree_merge.induct) auto

lemma inorder_split: "tree_split c T = (a, b) \<Longrightarrow> inorder a @ inorder b = inorder T"
  by (induction T arbitrary: a b) (auto split: if_splits prod.splits)

text \<open>The root priority of a part never exceeds that of the whole.\<close>

lemma heap_ok_split:
  "tree_split c T = (a, b) \<Longrightarrow> heap_ok T \<Longrightarrow>
     heap_ok a \<and> heap_ok b \<and>
     (a \<noteq> TNil \<longrightarrow> T \<noteq> TNil \<and> ty a \<le> ty T) \<and> (b \<noteq> TNil \<longrightarrow> T \<noteq> TNil \<and> ty b \<le> ty T)"
proof (induction T arbitrary: a b)
  case TNil
  then show ?case by auto
next
  case (TNode l z y r)
  then show ?case
    by (cases "tree_split c l"; cases "tree_split c r") (force split: if_splits)
qed

lemma heap_ok_insert:
  "tree_insert c T x y = Inr T' \<Longrightarrow> heap_ok T \<Longrightarrow>
     heap_ok T' \<and> T' \<noteq> TNil \<and> ty T' = (if T = TNil then y else max y (ty T))"
proof (induction c T x y arbitrary: T' rule: tree_insert.induct)
  case (1 c x y)
  then show ?case by (auto simp: new_tree_node_def)
next
  case (2 c l z w r x y)
  show ?case
  proof (cases "w < y")
    case True
    obtain a b where ab: "tree_split c (TNode l z w r) = (a, b)" by fastforce
    with "2.prems" True have "T' = TNode a x y b" by (simp del: tree_split.simps)
    with heap_ok_split[OF ab "2.prems"(2)] True show ?thesis by auto
  next
    case False
    with "2.prems" "2.IH" show ?thesis
      by (auto split: if_splits sum.splits)
  qed
qed

lemma heap_ok_merge:
  "heap_ok L \<Longrightarrow> heap_ok R \<Longrightarrow>
     heap_ok (tree_merge L R) \<and>
     (\<forall>m. (L \<noteq> TNil \<longrightarrow> ty L \<le> m) \<longrightarrow> (R \<noteq> TNil \<longrightarrow> ty R \<le> m) \<longrightarrow>
          tree_merge L R \<noteq> TNil \<longrightarrow> ty (tree_merge L R) \<le> m)"
  by (induction L R rule: tree_merge.induct) auto

lemma heap_ok_delete:
  "tree_delete c T = Inr T' \<Longrightarrow> heap_ok T \<Longrightarrow>
     heap_ok T' \<and> (T' \<noteq> TNil \<longrightarrow> T \<noteq> TNil \<and> ty T' \<le> ty T)"
  by (induction T arbitrary: T')
     (auto split: if_splits sum.splits dest: heap_ok_merge)

subsection \<open>Search order\<close>

definition ordered :: "('k \<Rightarrow> 'k \<Rightarrow> int) \<Rightarrow> ('x \<Rightarrow> 'k) \<Rightarrow> 'x list \<Rightarrow> bool" where
  "ordered cmp key xs = sorted_wrt (\<lambda>a b. cmp (key a) (key b) < 0) xs"

definition bst :: "('k \<Rightarrow> 'k \<Rightarrow> int) \<Rightarrow> 'k set \<Rightarrow> ('x \<Rightarrow> 'k) \<Rightarrow> 'x treap \<Rightarrow> bool" where
  "bst cmp K key T \<longleftrightarrow> ordered cmp key (inorder T) \<and> key ` set (inorder T) \<subseteq> K"

definition probe :: "('k \<Rightarrow> 'k \<Rightarrow> int) \<Rightarrow> ('x \<Rightarrow> 'k) \<Rightarrow> 'k \<Rightarrow> 'x \<Rightarrow> int" where
  "probe cmp key k = (\<lambda>z. cmp k (key z))"

text \<open>The reference insertion into an ordered sequence.\<close>

fun ins_ordered :: "('k \<Rightarrow> 'k \<Rightarrow> int) \<Rightarrow> ('x \<Rightarrow> 'k) \<Rightarrow> 'x \<Rightarrow> 'x list \<Rightarrow> 'x list" where
  "ins_ordered cmp key x [] = [x]"
| "ins_ordered cmp key x (z # zs) =
     (if cmp (key x) (key z) < 0 then x # z # zs else z # ins_ordered cmp key x zs)"

lemma set_ins_ordered [simp]: "set (ins_ordered cmp key x xs) = insert x (set xs)"
  by (induction xs) auto

lemma length_ins_ordered [simp]: "length (ins_ordered cmp key x xs) = Suc (length xs)"
  by (induction xs) auto

lemma bst_TNil [simp]: "bst cmp K key TNil"
  by (simp add: bst_def ordered_def)

lemma ordered_append:
  "ordered cmp key (xs @ ys) \<longleftrightarrow> ordered cmp key xs \<and> ordered cmp key ys \<and>
     (\<forall>a \<in> set xs. \<forall>b \<in> set ys. cmp (key a) (key b) < 0)"
  by (simp add: ordered_def sorted_wrt_append)

lemma ordered_Cons:
  "ordered cmp key (x # ys) \<longleftrightarrow> (\<forall>b \<in> set ys. cmp (key x) (key b) < 0) \<and> ordered cmp key ys"
  by (simp add: ordered_def)

lemma bst_TNode:
  "bst cmp K key (TNode l x y r) \<longleftrightarrow>
     bst cmp K key l \<and> bst cmp K key r \<and> key x \<in> K \<and>
     (\<forall>a \<in> set (inorder l). cmp (key a) (key x) < 0) \<and>
     (\<forall>b \<in> set (inorder r). cmp (key x) (key b) < 0) \<and>
     (\<forall>a \<in> set (inorder l). \<forall>b \<in> set (inorder r). cmp (key a) (key b) < 0)"
  by (auto simp: bst_def ordered_append ordered_Cons)

locale tree_order =
  fixes cmp :: "'k \<Rightarrow> 'k \<Rightarrow> int" and K :: "'k set" and key :: "'x \<Rightarrow> 'k"
  assumes cmp_eq: "a \<in> K \<Longrightarrow> b \<in> K \<Longrightarrow> cmp a b = 0 \<longleftrightarrow> a = b"
    and cmp_flip: "a \<in> K \<Longrightarrow> b \<in> K \<Longrightarrow> cmp a b < 0 \<longleftrightarrow> 0 < cmp b a"
    and cmp_trans: "a \<in> K \<Longrightarrow> b \<in> K \<Longrightarrow> c \<in> K \<Longrightarrow> cmp a b < 0 \<Longrightarrow> cmp b c < 0 \<Longrightarrow> cmp a c < 0"
begin

lemma keys_in: "bst cmp K key T \<Longrightarrow> z \<in> set (inorder T) \<Longrightarrow> key z \<in> K"
  by (auto simp: bst_def)

lemma not_less: "a \<in> K \<Longrightarrow> b \<in> K \<Longrightarrow> cmp a b \<noteq> 0 \<Longrightarrow> \<not> cmp a b < 0 \<Longrightarrow> cmp b a < 0"
  using cmp_flip[of b a] by linarith

lemma find_before:
  assumes "k \<in> K" and "\<And>z. z \<in> set xs \<Longrightarrow> key z \<in> K \<and> cmp k (key z) < 0"
  shows "find (\<lambda>z. key z = k) xs = None"
  using assms(2) cmp_eq[OF assms(1,1)] by (fastforce simp: find_None_iff)

lemma find_append: "find P (xs @ ys) = (case find P xs of None \<Rightarrow> find P ys | Some z \<Rightarrow> Some z)"
  by (induction xs) auto

lemma lookup_find:
  assumes "bst cmp K key T" and "k \<in> K"
  shows "tree_lookup (probe cmp key k) T = find (\<lambda>z. key z = k) (inorder T)"
  using assms
proof (induction T)
  case TNil
  then show ?case by simp
next
  case (TNode l x y r)
  have IH: "tree_lookup (probe cmp key k) l = find (\<lambda>z. key z = k) (inorder l)"
    "tree_lookup (probe cmp key k) r = find (\<lambda>z. key z = k) (inorder r)"
    using TNode by (auto simp: bst_TNode)
  have kx: "key x \<in> K" using TNode.prems by (simp add: bst_TNode)
  have less: "find (\<lambda>z. key z = k) (inorder r) = None" if "cmp k (key x) < 0"
    using that TNode.prems kx
    by (intro find_before) (auto simp: bst_TNode dest: keys_in intro: cmp_trans)
  have grt: "find (\<lambda>z. key z = k) (inorder l) = None" if "\<not> cmp k (key x) < 0"
  proof -
    have "key z \<noteq> k" if "z \<in> set (inorder l)" for z
      using that TNode.prems \<open>\<not> cmp k (key x) < 0\<close> by (auto simp: bst_TNode)
    then show ?thesis by (auto simp: find_None_iff)
  qed
  show ?case
  proof (cases "cmp k (key x) = 0")
    case True
    then have "key x = k" using cmp_eq kx TNode.prems(2) by auto
    then show ?thesis using True grt by (simp add: probe_def find_append)
  next
    case False
    then have "key x \<noteq> k" using cmp_eq kx TNode.prems(2) by auto
    then show ?thesis using False less grt IH
      by (auto simp: probe_def[of cmp key k] find_append split: option.splits)
  qed
qed

lemma split_bst:
  assumes "tree_split (probe cmp key k) T = (a, b)" and "bst cmp K key T" and "k \<in> K"
    and "k \<notin> key ` set (inorder T)"
  shows "(\<forall>z \<in> set (inorder a). cmp (key z) k < 0) \<and> (\<forall>z \<in> set (inorder b). cmp k (key z) < 0)"
  using assms
proof (induction T arbitrary: a b)
  case TNil
  then show ?case by auto
next
  case (TNode l x y r)
  note b = TNode.prems(2)[unfolded bst_TNode]
  have ne: "cmp k (key x) \<noteq> 0" using b TNode.prems(3,4) cmp_eq by auto
  show ?case
  proof (cases "cmp k (key x) < 0")
    case True
    obtain a' b' where ab: "tree_split (probe cmp key k) l = (a', b')" by fastforce
    have "cmp k (key z) < 0" if "z \<in> set (inorder r)" for z
      using that b True TNode.prems(3) by (meson cmp_trans keys_in)
    then show ?thesis using TNode.IH(1)[OF ab] TNode.prems ab True b
      by (auto simp: probe_def image_Un)
  next
    case False
    then have gx: "cmp (key x) k < 0" using ne not_less b TNode.prems(3) by blast
    obtain a' b' where ab: "tree_split (probe cmp key k) r = (a', b')" by fastforce
    have "cmp (key z) k < 0" if "z \<in> set (inorder l)" for z
      using that b gx TNode.prems(3) by (meson cmp_trans keys_in)
    then show ?thesis using TNode.IH(2)[OF ab] TNode.prems ab False gx b
      by (auto simp: probe_def image_Un)
  qed
qed

lemma ins_ordered_between:
  assumes "ordered cmp key (xs @ ys)" and "\<And>z. z \<in> set xs \<Longrightarrow> \<not> cmp (key x) (key z) < 0"
    and "\<And>z. z \<in> set ys \<Longrightarrow> cmp (key x) (key z) < 0"
  shows "ins_ordered cmp key x (xs @ ys) = xs @ x # ys"
  using assms
proof (induction xs)
  case Nil
  then show ?case by (cases ys) auto
next
  case (Cons z zs)
  then show ?case by (auto simp: ordered_Cons)
qed

lemma ins_ordered_left:
  assumes "cmp (key x) (key z) < 0"
  shows "ins_ordered cmp key x (xs @ z # ys) = ins_ordered cmp key x xs @ z # ys"
  using assms by (induction xs) auto

lemma ins_ordered_right:
  assumes "\<And>a. a \<in> set xs \<Longrightarrow> \<not> cmp (key x) (key a) < 0"
  shows "ins_ordered cmp key x (xs @ ys) = xs @ ins_ordered cmp key x ys"
  using assms by (induction xs) auto

lemma ordered_ins:
  assumes "ordered cmp key xs" and "key ` set xs \<subseteq> K" and "key x \<in> K" and "key x \<notin> key ` set xs"
  shows "ordered cmp key (ins_ordered cmp key x xs)"
  using assms
proof (induction xs)
  case Nil
  then show ?case by (simp add: ordered_def)
next
  case (Cons z zs)
  have nz: "cmp (key x) (key z) \<noteq> 0" using Cons.prems cmp_eq by auto
  then have "\<not> cmp (key x) (key z) < 0 \<Longrightarrow> cmp (key z) (key x) < 0"
    using Cons.prems not_less by simp
  moreover have "cmp (key x) (key z) < 0 \<Longrightarrow> b \<in> set zs \<Longrightarrow> cmp (key x) (key b) < 0" for b
    using Cons.prems cmp_trans[of "key x" "key z" "key b"] by (auto simp: ordered_Cons)
  ultimately show ?case using Cons by (auto simp: ordered_Cons)
qed

lemma less_not_flip: "a \<in> K \<Longrightarrow> b \<in> K \<Longrightarrow> cmp a b < 0 \<Longrightarrow> \<not> cmp b a < 0"
  using cmp_flip by force

lemma insert_inorder:
  assumes "bst cmp K key T" and "key x \<in> K" and "key x \<notin> key ` set (inorder T)"
  shows "\<exists>T'. tree_insert (probe cmp key (key x)) T x y = Inr T' \<and>
     inorder T' = ins_ordered cmp key x (inorder T)"
  using assms
proof (induction T)
  case TNil
  then show ?case by (simp add: new_tree_node_def)
next
  case (TNode l z w r)
  note b = TNode.prems(1)[unfolded bst_TNode]
  let ?c = "probe cmp key (key x)"
  have ne: "cmp (key x) (key z) \<noteq> 0" using b TNode.prems(2,3) cmp_eq by auto
  show ?case
  proof (cases "w < y")
    case True
    obtain p q where pq: "tree_split ?c (TNode l z w r) = (p, q)" by fastforce
    have so: "ordered cmp key (inorder p @ inorder q)"
      using inorder_split[OF pq] TNode.prems(1) by (simp add: bst_def)
    have "ins_ordered cmp key x (inorder p @ inorder q) = inorder p @ x # inorder q"
    proof (rule ins_ordered_between[OF so])
      fix u assume u: "u \<in> set (inorder p)"
      then have "u \<in> set (inorder (TNode l z w r))" using inorder_split[OF pq] by (metis Un_iff set_append)
      then have "key u \<in> K" using keys_in TNode.prems(1) by blast
      then show "\<not> cmp (key x) (key u) < 0"
        using split_bst[OF pq TNode.prems] u less_not_flip TNode.prems(2) by blast
    next
      fix u assume "u \<in> set (inorder q)"
      then show "cmp (key x) (key u) < 0" using split_bst[OF pq TNode.prems] by blast
    qed
    then show ?thesis using True pq inorder_split[OF pq] by (simp del: tree_split.simps)
  next
    case False
    show ?thesis
    proof (cases "cmp (key x) (key z) < 0")
      case True
      then have "\<exists>T'. tree_insert ?c l x y = Inr T' \<and> inorder T' = ins_ordered cmp key x (inorder l)"
        using TNode b by auto
      then show ?thesis using False True ne
        by (auto simp: probe_def ins_ordered_left split: sum.splits)
    next
      case ge: False
      then have gz: "cmp (key z) (key x) < 0" using ne not_less b TNode.prems(2) by blast
      have "\<not> cmp (key x) (key a) < 0" if "a \<in> set (inorder l)" for a
        using that b gz TNode.prems(2) by (meson cmp_trans keys_in less_not_flip)
      moreover have "\<exists>T'. tree_insert ?c r x y = Inr T' \<and> inorder T' = ins_ordered cmp key x (inorder r)"
        using TNode b by auto
      ultimately show ?thesis using False ge ne
        by (auto simp: probe_def ins_ordered_right split: sum.splits)
    qed
  qed
qed

lemma insert_bst:
  assumes "bst cmp K key T" and "key x \<in> K" and "key x \<notin> key ` set (inorder T)"
  obtains T' where "tree_insert (probe cmp key (key x)) T x y = Inr T'"
    and "inorder T' = ins_ordered cmp key x (inorder T)" and "bst cmp K key T'"
proof -
  obtain T' where T': "tree_insert (probe cmp key (key x)) T x y = Inr T'"
    "inorder T' = ins_ordered cmp key x (inorder T)" using insert_inorder[OF assms] by blast
  then have "bst cmp K key T'" using assms ordered_ins by (auto simp: bst_def)
  with T' show ?thesis by (rule that)
qed

lemma delete_inorder:
  assumes "bst cmp K key T" and "k \<in> K" and "k \<in> key ` set (inorder T)"
  shows "\<exists>T'. tree_delete (probe cmp key k) T = Inr T' \<and>
     inorder T' = filter (\<lambda>z. key z \<noteq> k) (inorder T)"
  using assms
proof (induction T)
  case TNil
  then show ?case by simp
next
  case (TNode l z w r)
  note b = TNode.prems(1)[unfolded bst_TNode]
  have notl: "\<forall>a \<in> set (inorder l). key a \<noteq> k" if "\<not> cmp k (key z) < 0"
    using that b by auto
  have notr: "\<forall>a \<in> set (inorder r). key a \<noteq> k" if "\<not> cmp (key z) k < 0"
    using that b by auto
  consider (eq) "cmp k (key z) = 0" | (lt) "cmp k (key z) < 0" | (gt) "0 < cmp k (key z)" by linarith
  then show ?case
  proof cases
    case eq
    then have "key z = k" using cmp_eq b TNode.prems(2) by auto
    with eq notl notr show ?thesis by (simp add: probe_def filter_id_conv)
  next
    case lt
    then have ne: "key z \<noteq> k" and nr: "\<not> cmp (key z) k < 0"
      using cmp_flip b TNode.prems(2) by fastforce+
    then have "k \<in> key ` set (inorder l)" using notr TNode.prems(3) by auto
    then show ?thesis using TNode.IH(1) b TNode.prems(2) lt ne notr[OF nr]
      by (auto simp: probe_def filter_id_conv split: sum.splits)
  next
    case gt
    then have ne: "key z \<noteq> k" and nl: "\<not> cmp k (key z) < 0"
      using cmp_eq b TNode.prems(2) by force+
    then have "k \<in> key ` set (inorder r)" using notl TNode.prems(3) by auto
    then show ?thesis using TNode.IH(2) b TNode.prems(2) gt ne notl[OF nl]
      by (auto simp: probe_def filter_id_conv split: sum.splits)
  qed
qed

lemma ordered_filter: "ordered cmp key xs \<Longrightarrow> ordered cmp key (filter P xs)"
  by (simp add: ordered_def sorted_wrt_filter)

lemma bst_filter:
  "bst cmp K key T \<Longrightarrow> inorder T' = filter P (inorder T) \<Longrightarrow> bst cmp K key T'"
  by (auto simp: bst_def ordered_filter)

lemma delete_missing:
  assumes "bst cmp K key T" and "k \<in> K" and "k \<notin> key ` set (inorder T)"
  shows "tree_delete (probe cmp key k) T = Inl Assertion"
  using assms
proof (induction T)
  case (TNode l z w r)
  then have "cmp k (key z) \<noteq> 0" using cmp_eq by (auto simp: bst_TNode)
  with TNode show ?case by (auto simp: bst_TNode probe_def image_Un)
qed simp

lemma ordered_unique:
  assumes "ordered cmp key xs" and "ordered cmp key ys" and "set xs = set ys" and "key ` set xs \<subseteq> K"
  shows "xs = ys"
  using assms
proof (induction xs arbitrary: ys)
  case Nil
  then show ?case by simp
next
  case (Cons x xs)
  then obtain y zs where ys: "ys = y # zs" by (cases ys) auto
  have inK: "key z \<in> K" if "z \<in> set (x # xs) \<union> set (y # zs)" for z
    using that Cons.prems(3,4) ys by blast
  then have K: "key x \<in> K" "key y \<in> K" "\<And>z. z \<in> set xs \<union> set zs \<Longrightarrow> key z \<in> K"
    by auto
  have irr: "a \<in> K \<Longrightarrow> \<not> cmp a a < 0" for a using cmp_eq[of a a] by simp
  have xy: "x = y"
  proof (rule ccontr)
    assume "x \<noteq> y"
    then have "x \<in> set zs" "y \<in> set xs" using Cons.prems(3) ys by auto
    then have "cmp (key x) (key y) < 0" "cmp (key y) (key x) < 0"
      using Cons.prems(1,2) ys by (auto simp: ordered_Cons)
    with less_not_flip K show False by blast
  qed
  have "x \<notin> set xs" "y \<notin> set zs"
    using Cons.prems(1,2)[unfolded ys ordered_Cons] irr[OF K(1)] irr[OF K(2)] by blast+
  then have "set xs = set zs" using Cons.prems(3) insert_ident[of x "set xs" "set zs"]
    unfolding ys xy by simp
  moreover have "ordered cmp key xs" "ordered cmp key zs"
    using Cons.prems(1,2)[unfolded ys ordered_Cons] by blast+
  moreover have "key ` set xs \<subseteq> K" using K(3) by blast
  ultimately have "xs = zs" by (intro Cons.IH)
  with xy ys show ?case by simp
qed

end

subsection \<open>Trees as finite maps\<close>

text \<open>The finite map a tree stands for.\<close>

definition tree_map :: "('x \<Rightarrow> 'k) \<Rightarrow> 'x treap \<Rightarrow> 'k \<Rightarrow> 'x option" where
  "tree_map key T = map_of (map (\<lambda>z. (key z, z)) (inorder T))"

lemma tree_map_TNil [simp]: "tree_map key TNil = Map.empty"
  by (simp add: tree_map_def)

lemma map_of_find: "map_of (map (\<lambda>z. (key z, z)) xs) k = find (\<lambda>z. key z = k) xs"
  by (induction xs) auto

lemma tree_map_None: "tree_map key T k = None \<longleftrightarrow> k \<notin> key ` set (inorder T)"
  by (auto simp: tree_map_def map_of_eq_None_iff image_image)

lemma tree_map_SomeD: "tree_map key T k = Some x \<Longrightarrow> x \<in> set (inorder T) \<and> key x = k"
  by (auto simp: tree_map_def dest: map_of_SomeD)

lemma tree_map_cong: "(\<And>x. x \<in> set (inorder T) \<Longrightarrow> key x = key' x) \<Longrightarrow> tree_map key T = tree_map key' T"
  unfolding tree_map_def by (metis (mono_tags, lifting) map_eq_conv)

lemma bst_key_cong:
  "(\<And>x. x \<in> set (inorder T) \<Longrightarrow> key x = key' x) \<Longrightarrow> bst cmp K key T = bst cmp K key' T"
  unfolding bst_def ordered_def by (metis (mono_tags, lifting) image_cong sorted_wrt_mono_rel)

context tree_order
begin

lemma lookup_map: "bst cmp K key T \<Longrightarrow> k \<in> K \<Longrightarrow> tree_lookup (probe cmp key k) T = tree_map key T k"
  by (simp add: lookup_find tree_map_def map_of_find)

lemma map_of_ins_ordered:
  "key x \<notin> key ` set xs \<Longrightarrow>
     map_of (map (\<lambda>z. (key z, z)) (ins_ordered cmp key x xs)) = (map_of (map (\<lambda>z. (key z, z)) xs))(key x \<mapsto> x)"
  by (induction xs) auto

lemma insert_map:
  assumes "bst cmp K key T" and "key x \<in> K" and "tree_map key T (key x) = None"
  shows "\<exists>T'. tree_insert (probe cmp key (key x)) T x y = Inr T' \<and> bst cmp K key T' \<and>
     tree_map key T' = (tree_map key T)(key x \<mapsto> x) \<and> set (inorder T') = insert x (set (inorder T)) \<and>
     tree_count T' = tree_count T + 1"
proof -
  have n: "key x \<notin> key ` set (inorder T)" using assms(3) by (simp add: tree_map_None)
  obtain T' where "tree_insert (probe cmp key (key x)) T x y = Inr T'"
    "inorder T' = ins_ordered cmp key x (inorder T)" "bst cmp K key T'"
    by (rule insert_bst[OF assms(1,2) n])
  then show ?thesis using map_of_ins_ordered[OF n] by (auto simp: tree_map_def tree_count_inorder)
qed

lemma map_of_filter_key:
  "map_of (map (\<lambda>z. (key z, z)) (filter (\<lambda>z. key z \<noteq> k) xs)) = (map_of (map (\<lambda>z. (key z, z)) xs))(k := None)"
  by (induction xs) (auto simp: fun_eq_iff)

lemma delete_map:
  assumes "bst cmp K key T" and "k \<in> K" and "tree_map key T k \<noteq> None"
  shows "\<exists>T'. tree_delete (probe cmp key k) T = Inr T' \<and> bst cmp K key T' \<and>
     tree_map key T' = (tree_map key T)(k := None)"
proof -
  have "k \<in> key ` set (inorder T)" using assms(3) by (simp add: tree_map_None)
  from delete_inorder[OF assms(1,2) this] obtain T' where
    "tree_delete (probe cmp key k) T = Inr T'" "inorder T' = filter (\<lambda>z. key z \<noteq> k) (inorder T)" by blast
  then show ?thesis using bst_filter[OF assms(1)] by (auto simp: tree_map_def map_of_filter_key)
qed

lemma bst_distinct: "bst cmp K key T \<Longrightarrow> distinct (inorder T)"
proof -
  have "ordered cmp key xs \<Longrightarrow> key ` set xs \<subseteq> K \<Longrightarrow> distinct xs" for xs
    using cmp_eq by (induction xs) (auto simp: ordered_Cons, metis less_irrefl)
  then show "bst cmp K key T \<Longrightarrow> distinct (inorder T)" by (simp add: bst_def)
qed

text \<open>
  Trees with the same elements list them in the same order, whatever their priorities and the
  order of insertion.
\<close>

lemma same_elements_same_order:
  "bst cmp K key T \<Longrightarrow> bst cmp K key T' \<Longrightarrow> set (inorder T) = set (inorder T') \<Longrightarrow> inorder T = inorder T'"
  by (rule ordered_unique) (auto simp: bst_def)

end

lemma keeps_tree_act [keeps]: "(\<And>x. keeps I (f x)) \<Longrightarrow> keeps I (tree_act T f)"
  by (simp add: tree_act_inorder keeps_iterate)

end
