(* ===== verification/TL_Lexer.thy ===== *)
theory TL_Lexer
  imports TL_Prelude
begin

section \<open>The lexer (tl-parser.c, lines 26-417)\<close>

text \<open>
  The globals \<open>parse\<close>, \<open>curch\<close> and \<open>last_error*\<close> form the state \<open>lexst\<close>. A \<open>char *\<close> into
  the file text is its offset. Reads outside the text are faults. The scanning loops take
  fuel; \<open>parse_lex\<close> gives them \<open>len + 2\<close> steps. By \<open>skip_while_scan\<close> and \<open>skip_blanks_strip\<close> that
  is enough for every scan that ends, and by \<open>skip_while_runs_on\<close> a scan it is not enough for does
  not end for any fuel, so \<open>OutOfFuel\<close> here means that the C loop runs forever. After the
  definitions come the invariant of the lexer, the behaviour of its loops and token classes, and
  the properties of \<open>parse_lex\<close>.
\<close>

unbundle bit_operations_syntax

datatype lex_type =
    lex_error | lex_char | lex_triple_minus | lex_uc_ident | lex_lc_ident | lex_eof
  | lex_final | lex_new | lex_none | lex_num | lex_empty

datatype lexptr = PNull | PBad | PText nat

record curlex =
  lptr :: lexptr
  llen :: nat
  ltype :: lex_type
  lflags :: int

record parse =
  ptext :: string
  ppos :: nat
  plen :: nat
  pline :: nat
  pline_pos :: nat
  plex :: curlex

record lexst =
  parse :: parse
  curch :: char
  last_error_pos :: nat
  last_error_line :: nat
  last_error_line_pos :: nat
  last_error :: "string option"

abbreviation NUL :: char where "NUL \<equiv> CHR 0x00"
abbreviation NL :: char where "NL \<equiv> CHR 0x0A"

subsection \<open>Reading characters\<close>

definition text_at :: "nat \<Rightarrow> (lexst, char) comp" where
  "text_at i = (\<lambda>s. if i < length (ptext (parse s)) then Inr (ptext (parse s) ! i, s)
                    else Inl OutOfBounds)"

definition nextch :: "(lexst, char) comp" where
  "nextch =
     bind (gets parse) (\<lambda>p.
     bind (if ppos p < plen p - 1
           then bind (text_at (Suc (ppos p))) (\<lambda>c.
                bind (modify (\<lambda>s. s\<lparr>parse := (parse s)\<lparr>ppos := Suc (ppos p)\<rparr>, curch := c\<rparr>)) (\<lambda>_.
                ret c))
           else bind (modify (\<lambda>s. s\<lparr>curch := NUL\<rparr>)) (\<lambda>_. ret NUL)) (\<lambda>c.
     bind (if c = NL
           then modify (\<lambda>s. s\<lparr>parse := (parse s)\<lparr>pline := Suc (pline (parse s)), pline_pos := 0\<rparr>\<rparr>)
           else if c \<noteq> NUL
           then modify (\<lambda>s. s\<lparr>parse := (parse s)\<lparr>pline_pos := Suc (pline_pos (parse s))\<rparr>\<rparr>)
           else ret ()) (\<lambda>_.
     ret c)))"

definition save_parse :: "(lexst, parse) comp" where
  "save_parse = gets parse"

definition load_parse :: "parse \<Rightarrow> (lexst, unit) comp" where
  "load_parse p =
     bind (modify (\<lambda>s. s\<lparr>parse := p\<rparr>)) (\<lambda>_.
     bind (if plen p < ppos p then ret NUL else text_at (ppos p)) (\<lambda>c.
     modify (\<lambda>s. s\<lparr>curch := c\<rparr>)))"

definition is_whitespace :: "char \<Rightarrow> bool" where
  "is_whitespace c \<longleftrightarrow> schar c \<le> 32"

definition is_uletter :: "char \<Rightarrow> bool" where
  "is_uletter c \<longleftrightarrow> schar (CHR ''A'') \<le> schar c \<and> schar c \<le> schar (CHR ''Z'')"

definition is_lletter :: "char \<Rightarrow> bool" where
  "is_lletter c \<longleftrightarrow> schar (CHR ''a'') \<le> schar c \<and> schar c \<le> schar (CHR ''z'')"

definition is_letter :: "char \<Rightarrow> bool" where
  "is_letter c \<longleftrightarrow> is_uletter c \<or> is_lletter c"

definition is_digit :: "char \<Rightarrow> bool" where
  "is_digit c \<longleftrightarrow> schar (CHR ''0'') \<le> schar c \<and> schar c \<le> schar (CHR ''9'')"

definition is_hexdigit :: "char \<Rightarrow> bool" where
  "is_hexdigit c \<longleftrightarrow> is_digit c \<or> (schar (CHR ''a'') \<le> schar c \<and> schar c \<le> schar (CHR ''f''))"

definition is_ident_char :: "char \<Rightarrow> bool" where
  "is_ident_char c \<longleftrightarrow> is_digit c \<or> is_letter c \<or> c = CHR ''_''"

subsection \<open>Errors\<close>

definition parse_error :: "string \<Rightarrow> (lexst, unit) comp" where
  "parse_error e = modify (\<lambda>s.
     if last_error_pos s < ppos (parse s)
     then s\<lparr>last_error_pos := ppos (parse s), last_error_line := pline (parse s),
            last_error_line_pos := pline_pos (parse s), last_error := Some e\<rparr>
     else s)"

subsection \<open>Tokens\<close>

definition set_lex :: "(curlex \<Rightarrow> curlex) \<Rightarrow> (lexst, unit) comp" where
  "set_lex f = modify (\<lambda>s. s\<lparr>parse := (parse s)\<lparr>plex := f (plex (parse s))\<rparr>\<rparr>)"

text \<open>\<open>while (P (nextch ()));\<close>\<close>

primrec skip_while :: "(char \<Rightarrow> bool) \<Rightarrow> nat \<Rightarrow> (lexst, unit) comp" where
  "skip_while P 0 = raise OutOfFuel"
| "skip_while P (Suc n) = bind nextch (\<lambda>c. if P c then skip_while P n else ret ())"

definition blank :: "char \<Rightarrow> bool" where
  "blank c \<longleftrightarrow> c \<noteq> NUL \<and> is_whitespace c"

text \<open>White space and comments: lines 188-196; \<open>f\<close> is the fuel of the inner loops.\<close>

primrec skip_blanks :: "nat \<Rightarrow> nat \<Rightarrow> (lexst, unit) comp" where
  "skip_blanks f 0 = raise OutOfFuel"
| "skip_blanks f (Suc n) =
     bind (gets curch) (\<lambda>c.
     bind (if blank c then skip_while blank f else ret ()) (\<lambda>_.
     bind (gets curch) (\<lambda>c.
     if c = CHR ''/'' then
       bind nextch (\<lambda>d.
       if d = CHR ''/'' then
         bind (skip_while (\<lambda>e. e \<noteq> NL) f) (\<lambda>_. bind nextch (\<lambda>_. skip_blanks f n))
       else ret ())
     else ret ())))"

definition lex_fail :: "string \<Rightarrow> (lexst, lexptr) comp" where
  "lex_fail e =
     bind (parse_error e) (\<lambda>_.
     bind (set_lex (\<lambda>l. l\<lparr>ltype := lex_error, lptr := PBad\<rparr>)) (\<lambda>_. ret PBad))"

text \<open>\<open>parse.lex.len = parse.text + parse.pos - p; parse.lex.type = t; return (parse.lex.ptr = p)\<close>\<close>

definition lex_token :: "nat \<Rightarrow> lex_type \<Rightarrow> (lexst, lexptr) comp" where
  "lex_token p t =
     bind (gets (\<lambda>s. ppos (parse s))) (\<lambda>q.
     bind (set_lex (\<lambda>l. l\<lparr>llen := q - p, ltype := t, lptr := PText p\<rparr>)) (\<lambda>_. ret (PText p)))"

definition lexeme :: "parse \<Rightarrow> nat \<Rightarrow> nat \<Rightarrow> string" where
  "lexeme P p n = take n (drop p (ptext P))"

definition uc_type :: "string \<Rightarrow> lex_type" where
  "uc_type w = (if w = ''Final'' then lex_final else if w = ''New'' then lex_new
                else if w = ''Empty'' then lex_empty else lex_uc_ident)"

definition lex_triple :: "nat \<Rightarrow> (lexst, lexptr) comp" where
  "lex_triple p =
     bind nextch (\<lambda>c1.
     bind (if c1 \<noteq> CHR ''-'' then ret c1 else nextch) (\<lambda>c2.
     if c1 \<noteq> CHR ''-'' \<or> c2 \<noteq> CHR ''-'' then lex_fail ''Can not parse triple minus''
     else bind (set_lex (\<lambda>l. l\<lparr>llen := 3, ltype := lex_triple_minus\<rparr>)) (\<lambda>_.
          bind nextch (\<lambda>_.
          bind (set_lex (\<lambda>l. l\<lparr>lptr := PText p\<rparr>)) (\<lambda>_. ret (PText p))))))"

definition lex_punct :: "nat \<Rightarrow> (lexst, lexptr) comp" where
  "lex_punct p =
     bind nextch (\<lambda>_.
     bind (set_lex (\<lambda>l. l\<lparr>llen := 1, ltype := lex_char, lptr := PText p\<rparr>)) (\<lambda>_. ret (PText p)))"

definition lex_upper :: "nat \<Rightarrow> nat \<Rightarrow> (lexst, lexptr) comp" where
  "lex_upper f p =
     bind (skip_while is_ident_char f) (\<lambda>_.
     bind (gets parse) (\<lambda>P. lex_token p (uc_type (lexeme P p (ppos P - p)))))"

text \<open>The loop over name parts, lines 314-330: \<open>Some\<close> when the function has returned.\<close>

primrec lex_dots :: "nat \<Rightarrow> nat \<Rightarrow> nat \<Rightarrow> (lexst, lexptr option) comp" where
  "lex_dots f p 0 = raise OutOfFuel"
| "lex_dots f p (Suc n) =
     bind (gets curch) (\<lambda>c.
     if c \<noteq> CHR ''.'' then ret None
     else
       bind (set_lex (\<lambda>l. l\<lparr>lflags := lflags l OR 1\<rparr>)) (\<lambda>_.
       bind nextch (\<lambda>d.
       if is_uletter d then
         bind (skip_while is_ident_char f) (\<lambda>_. bind (lex_token p lex_uc_ident) (\<lambda>r. ret (Some r)))
       else if is_lletter d then
         bind (skip_while is_ident_char f) (\<lambda>_. lex_dots f p n)
       else bind (lex_fail ''Expected letter'') (\<lambda>r. ret (Some r)))))"

text \<open>The tag digits, lines 335-346: \<open>Some ok\<close>, or \<open>None\<close> for the error return.\<close>

function lex_hex :: "nat \<Rightarrow> (lexst, nat option) comp" where
  "lex_hex i =
     (if 8 \<le> i then ret (Some 1)
      else bind nextch (\<lambda>c.
        if is_hexdigit c then lex_hex (Suc i)
        else if c = CHR '' '' \<and> 5 \<le> i then ret (Some 2)
        else ret None))"
  by pat_completeness auto
termination
  by (relation "measure (\<lambda>i. 8 - i)") auto

declare lex_hex.simps [simp del]

definition lex_lower :: "nat \<Rightarrow> nat \<Rightarrow> (lexst, lexptr) comp" where
  "lex_lower f p =
     bind (skip_while is_ident_char f) (\<lambda>_.
     bind (gets curch) (\<lambda>c.
     bind (gets (\<lambda>s. ppos (parse s))) (\<lambda>q.
     bind (if c = CHR ''.'' then bind (text_at (Suc q)) (\<lambda>d. ret (\<not> is_letter d)) else ret False) (\<lambda>stop.
     if stop then lex_token p lex_lc_ident
     else
       bind (lex_dots f p f) (\<lambda>r.
       case r of
         Some x \<Rightarrow> ret x
       | None \<Rightarrow>
           bind (gets curch) (\<lambda>c.
           if c = CHR ''#'' then
             bind (set_lex (\<lambda>l. l\<lparr>lflags := lflags l OR 2\<rparr>)) (\<lambda>_.
             bind (lex_hex 0) (\<lambda>ok.
             case ok of
               None \<Rightarrow> lex_fail ''Hex digit expected''
             | Some k \<Rightarrow> bind (if k = 1 then bind nextch (\<lambda>_. ret ()) else ret ()) (\<lambda>_.
                         lex_token p lex_lc_ident)))
           else lex_token p lex_lc_ident))))))"

definition lex_number :: "nat \<Rightarrow> nat \<Rightarrow> (lexst, lexptr) comp" where
  "lex_number f p = bind (skip_while is_digit f) (\<lambda>_. lex_token p lex_num)"

definition is_punct :: "char \<Rightarrow> bool" where
  "is_punct c \<longleftrightarrow> c \<in> set '':;()[]{}=#?%<>+,*_!.''"

definition parse_lex :: "(lexst, lexptr) comp" where
  "parse_lex =
     bind (gets (\<lambda>s. plen (parse s) + 2)) (\<lambda>f.
     bind (skip_blanks f f) (\<lambda>_.
     bind (gets curch) (\<lambda>c.
     if c = NUL then
       bind (set_lex (\<lambda>l. l\<lparr>llen := 0, ltype := lex_eof, lptr := PNull\<rparr>)) (\<lambda>_. ret PNull)
     else
       bind (gets (\<lambda>s. ppos (parse s))) (\<lambda>p.
       bind (set_lex (\<lambda>l. l\<lparr>lflags := 0\<rparr>)) (\<lambda>_.
       if c = CHR ''-'' then lex_triple p
       else if is_punct c then lex_punct p
       else if is_letter c then (if is_uletter c then lex_upper f p else lex_lower f p)
       else if is_digit c then lex_number f p
       else lex_fail ''Unknown lexem'')))))"

definition expect :: "string \<Rightarrow> (lexst, bool) comp" where
  "expect w =
     bind (gets parse) (\<lambda>P.
     let l = plex P in
     if (case lptr l of PText p \<Rightarrow> ltype l = lex_error \<or> ltype l = lex_none \<or>
            llen l \<noteq> length w \<or> lexeme P p (llen l) \<noteq> w
         | _ \<Rightarrow> True)
     then bind (parse_error (''Expected '' @ w)) (\<lambda>_. ret False)
     else bind parse_lex (\<lambda>_. ret True))"

text \<open>
  \<open>tl_init_parse_file\<close> on the file's contents; \<open>None\<close> for a file that cannot be opened or
  positioned.
\<close>

definition tl_init_parse_file :: "string option \<Rightarrow> parse option" where
  "tl_init_parse_file f =
     (case f of
        None \<Rightarrow> None
      | Some bytes \<Rightarrow>
          if length bytes = 0 \<or> 2147483647 < length bytes then None
          else Some \<lparr>ptext = bytes, ppos = 0, plen = length bytes, pline = 0, pline_pos = 0,
                     plex = \<lparr>lptr = PText 0, llen = 0, ltype = lex_none, lflags = 0\<rparr>\<rparr>)"

definition initial_lexst :: "parse \<Rightarrow> lexst" where
  "initial_lexst p = \<lparr>parse = p, curch = NUL, last_error_pos = 0, last_error_line = 0,
     last_error_line_pos = 0, last_error = None\<rparr>"

subsection \<open>The invariant of the lexer\<close>

text \<open>
  The line and the column of a position, by the text alone: the number of newlines up to it, and the
  number of characters after the last of them. (Position 0 itself is never counted, as in the code.)
\<close>

definition line_at :: "string \<Rightarrow> nat \<Rightarrow> nat" where
  "line_at str p = length (filter (\<lambda>c. c = NL) (take p (tl str)))"

definition col_at :: "string \<Rightarrow> nat \<Rightarrow> nat" where
  "col_at str p = length (filter (\<lambda>c. c \<noteq> NUL) (takeWhile (\<lambda>c. c \<noteq> NL) (rev (take p (tl str)))))"

lemma take_tl_Suc: "Suc p < length str \<Longrightarrow> take (Suc p) (tl str) = take p (tl str) @ [str ! Suc p]"
  by (cases str) (simp_all add: take_Suc_conv_app_nth)

lemma line_at_Suc:
  "Suc p < length str \<Longrightarrow> line_at str (Suc p) = (if str ! Suc p = NL then Suc (line_at str p) else line_at str p)"
  by (simp add: line_at_def take_tl_Suc)

lemma col_at_Suc:
  "Suc p < length str \<Longrightarrow> col_at str (Suc p) =
     (if str ! Suc p = NL then 0 else if str ! Suc p = NUL then col_at str p else Suc (col_at str p))"
  by (simp add: col_at_def take_tl_Suc)

text \<open>
  The current token lies in the text, and only the end of the file and an error have no text. The
  position is inside the text and the counters are those of the position; the current character is the
  one at the position, or null once the end has been reached; a recorded error carries the line and
  column of its position.
\<close>

definition token_ok :: "nat \<Rightarrow> curlex \<Rightarrow> bool" where
  "token_ok n l = (case lptr l of
      PNull \<Rightarrow> ltype l = lex_eof
    | PBad \<Rightarrow> ltype l = lex_error
    | PText p \<Rightarrow> p + llen l \<le> n \<and> ltype l \<noteq> lex_eof \<and> ltype l \<noteq> lex_error)"

definition place_ok :: "string \<Rightarrow> parse \<Rightarrow> bool" where
  "place_ok str P \<longleftrightarrow> ptext P = str \<and> plen P = length str \<and> ppos P < length str \<and>
     pline P = line_at str (ppos P) \<and> pline_pos P = col_at str (ppos P)"

definition char_ok :: "string \<Rightarrow> lexst \<Rightarrow> bool" where
  "char_ok str s \<longleftrightarrow> curch s = str ! ppos (parse s) \<or> curch s = NUL \<and> Suc (ppos (parse s)) = length str"

definition error_ok :: "string \<Rightarrow> lexst \<Rightarrow> bool" where
  "error_ok str s \<longleftrightarrow> last_error_pos s < length str \<and>
     (last_error s \<noteq> None \<longleftrightarrow> 0 < last_error_pos s) \<and>
     (last_error s \<noteq> None \<longrightarrow>
       last_error_line s = line_at str (last_error_pos s) \<and>
       last_error_line_pos s = col_at str (last_error_pos s))"

definition lex_ok :: "string \<Rightarrow> lexst \<Rightarrow> bool" where
  "lex_ok str s \<longleftrightarrow> place_ok str (parse s) \<and> char_ok str s \<and> error_ok str s"

lemmas lex_ok_defs = lex_ok_def place_ok_def char_ok_def error_ok_def

text \<open>Moving forward in the text.\<close>

definition lex_moves :: "string \<Rightarrow> lexst \<Rightarrow> lexst \<Rightarrow> bool" where
  "lex_moves str s t \<longleftrightarrow> lex_ok str t \<and> ppos (parse s) \<le> ppos (parse t) \<and>
     last_error_pos s \<le> last_error_pos t"

lemma moves_refl: "lex_ok str s \<Longrightarrow> lex_moves str s s"
  by (simp add: lex_moves_def)

lemma moves_trans: "lex_moves str s t \<Longrightarrow> lex_moves str t u \<Longrightarrow> lex_moves str s u"
  by (auto simp: lex_moves_def)

lemma nextch_step:
  assumes "lex_ok str s"
  shows "post E nextch (\<lambda>c t. c = curch t \<and> lex_moves str s t \<and> plex (parse t) = plex (parse s) \<and>
     (if Suc (ppos (parse s)) < length str
      then ppos (parse t) = Suc (ppos (parse s)) \<and> c = str ! ppos (parse t)
      else ppos (parse t) = ppos (parse s) \<and> c = NUL)) s"
  using assms
  by (auto simp: nextch_def post_simps text_at_def lex_ok_defs lex_moves_def line_at_Suc col_at_Suc
      bind_apply post_def less_diff_conv)

subsection \<open>Scanning loops\<close>

text \<open>Where a scanning loop that starts behind position \<open>p\<close> stops.\<close>

lemma takeWhile_drop_step:
  "Suc p < length str \<Longrightarrow> takeWhile P (drop (Suc p) str) =
     (if P (str ! Suc p) then str ! Suc p # takeWhile P (drop (Suc (Suc p)) str) else [])"
  by (subst Cons_nth_drop_Suc[symmetric]) simp_all

definition scan_end :: "(char \<Rightarrow> bool) \<Rightarrow> string \<Rightarrow> nat \<Rightarrow> nat" where
  "scan_end P str p = Suc p + length (takeWhile P (drop (Suc p) str))"

lemma scan_end_step:
  "Suc p < length str \<Longrightarrow> scan_end P str p = (if P (str ! Suc p) then scan_end P str (Suc p) else Suc p)"
  by (simp add: scan_end_def takeWhile_drop_step)

lemma scan_end_stop: "length str \<le> Suc p \<Longrightarrow> scan_end P str p = Suc p"
  by (simp add: scan_end_def)

lemma scan_end_ge: "Suc p \<le> scan_end P str p"
  by (simp add: scan_end_def)

definition scan_stops :: "(char \<Rightarrow> bool) \<Rightarrow> string \<Rightarrow> nat \<Rightarrow> lexst \<Rightarrow> bool" where
  "scan_stops P str p t \<longleftrightarrow> \<not> P (curch t) \<and>
     (let q = scan_end P str p in
      if q < length str then ppos (parse t) = q \<and> curch t = str ! q
      else Suc (ppos (parse t)) = length str \<and> curch t = NUL)"

lemma scanned_step:
  "Suc p < length str \<Longrightarrow> P (str ! Suc p) \<Longrightarrow> scan_stops P str (Suc p) t = scan_stops P str p t"
  by (simp add: scan_stops_def scan_end_step)

lemma scanned_here:
  "Suc p < length str \<Longrightarrow> \<not> P (str ! Suc p) \<Longrightarrow> ppos (parse t) = Suc p \<Longrightarrow> curch t = str ! Suc p \<Longrightarrow> scan_stops P str p t"
  by (simp add: scan_stops_def scan_end_step)

lemma scanned_end:
  "Suc p = length str \<Longrightarrow> \<not> P NUL \<Longrightarrow> ppos (parse t) = p \<Longrightarrow> curch t = NUL \<Longrightarrow> scan_stops P str p t"
  by (simp add: scan_stops_def scan_end_stop)

lemma skip_while_stuck:
  "lex_ok str s \<Longrightarrow> Suc (ppos (parse s)) = length str \<Longrightarrow> P NUL \<Longrightarrow> skip_while P n s = Inl OutOfFuel"
proof (induction n arbitrary: s)
  case (Suc n)
  from nextch_step[OF Suc.prems(1), of "\<lambda>_. False"] Suc.prems(2)
  obtain t where "nextch s = Inr (NUL, t)" "lex_ok str t" "ppos (parse t) = ppos (parse s)"
    by (auto dest!: post_total simp: lex_moves_def)
  with Suc show ?case by simp
qed simp

lemma skip_while_scan:
  assumes "lex_ok str s" and "length str \<le> n + ppos (parse s)"
    and "E OutOfFuel \<or> \<not> P NUL \<or> (\<exists>c \<in> set (drop (Suc (ppos (parse s))) str). \<not> P c)"
  shows "post E (skip_while P n) (\<lambda>_ t. lex_moves str s t \<and> scan_stops P str (ppos (parse s)) t) s"
  using assms
proof (induction n arbitrary: s)
  case 0
  then show ?case by (simp add: lex_ok_defs)
next
  case (Suc n)
  let ?p = "ppos (parse s)"
  note step = post_mono[OF nextch_step[OF Suc.prems(1)]]
  show ?case
  proof (cases "Suc ?p < length str")
    case True
    have "post E (skip_while P n) (\<lambda>_ u. lex_moves str s u \<and> scan_stops P str ?p u) t"
      if t: "lex_moves str s t" "ppos (parse t) = Suc ?p" and P: "P (str ! Suc ?p)" for t
    proof (rule post_mono[OF Suc.IH[of t]])
      show "lex_ok str t" using t(1) by (simp add: lex_moves_def)
      show "length str \<le> n + ppos (parse t)" using Suc.prems(2) t(2) by simp
      show "E OutOfFuel \<or> \<not> P NUL \<or> (\<exists>c\<in>set (drop (Suc (ppos (parse t))) str). \<not> P c)"
        using Suc.prems(3) P t(2) True by (auto simp: Cons_nth_drop_Suc[symmetric])
    qed (use t P True in \<open>auto simp: scanned_step intro: moves_trans\<close>)
    with True show ?thesis
      by (auto simp: post_simps scanned_here intro!: step)
  next
    case False
    then have fin: "Suc ?p = length str" using Suc.prems(1) by (auto simp: lex_ok_defs)
    have "skip_while P n t = Inl OutOfFuel" "E OutOfFuel"
      if "P NUL" "lex_moves str s t" "ppos (parse t) = ppos (parse s)" for t
      using that fin Suc.prems(3) by (auto simp: lex_moves_def skip_while_stuck)
    then show ?thesis using fin
      by (auto simp: post_simps scanned_end post_def[where m = "skip_while P n"] intro!: step)
  qed
qed

subsection \<open>White space and comments\<close>

text \<open>
  \<open>rest_text\<close> is what is still to be read. A text that ends with a newline is what every loop of the
  lexer needs to end.
\<close>

definition ends_nl :: "string \<Rightarrow> bool" where
  "ends_nl str \<longleftrightarrow> str \<noteq> [] \<and> last str = NL"

definition rest_text :: "string \<Rightarrow> lexst \<Rightarrow> string" where
  "rest_text str s = (if curch s = NUL \<and> Suc (ppos (parse s)) = length str then [] else drop (ppos (parse s)) str)"

lemma ends_nl_nth: "ends_nl str \<Longrightarrow> Suc p = length str \<Longrightarrow> str ! p = NL"
  unfolding ends_nl_def by (metis diff_Suc_1 last_conv_nth)

lemma ends_nl_inside:
  assumes "ends_nl str" and "p < length str" and "str ! p \<noteq> NL"
  shows "Suc p < length str" and "NL \<in> set (drop (Suc p) str)"
proof -
  show *: "Suc p < length str" using assms ends_nl_nth[of str p] by (cases "Suc p = length str") auto
  then show "NL \<in> set (drop (Suc p) str)"
    using assms(1) unfolding ends_nl_def by (metis drop_eq_Nil last_drop last_in_set linorder_not_less)
qed

lemma rest_Cons:
  assumes "lex_ok str s" and "rest_text str s \<noteq> []"
  shows "rest_text str s = curch s # drop (Suc (ppos (parse s))) str"
  using assms by (auto simp: rest_text_def lex_ok_defs Cons_nth_drop_Suc split: if_splits)

lemma rest_Nil: "lex_ok str s \<Longrightarrow> rest_text str s = [] \<Longrightarrow> curch s = NUL"
  by (auto simp: rest_text_def lex_ok_defs split: if_splits)

lemma rest_scanned:
  assumes "ends_nl str" and "scan_stops P str p t"
  shows "rest_text str t = dropWhile P (drop (Suc p) str)"
proof -
  have "dropWhile P (drop (Suc p) str) = drop (scan_end P str p) str"
    by (simp add: dropWhile_eq_drop scan_end_def add.commute)
  then show ?thesis using assms ends_nl_nth[OF assms(1)]
    by (auto simp: scan_stops_def rest_text_def Let_def split: if_splits)
qed

lemma nextch_rest:
  assumes "lex_ok str s"
  shows "post E nextch (\<lambda>c t. c = curch t \<and> lex_moves str s t \<and> plex (parse t) = plex (parse s) \<and>
      (ends_nl str \<longrightarrow> rest_text str t = tl (rest_text str s)) \<and>
      (Suc (ppos (parse s)) < length str \<or> c \<noteq> NUL \<longrightarrow> ppos (parse s) < ppos (parse t))) s"
  using ends_nl_nth[of str] assms
  by (auto intro!: post_mono[OF nextch_step[OF assms]] simp: rest_text_def drop_Suc[symmetric] tl_drop lex_ok_defs split: if_splits)

lemma blank_simps [simp]: "\<not> blank NUL" "blank NL" "\<not> blank (CHR ''/'')"
  by (simp_all add: blank_def is_whitespace_def schar_def)

lemma skip_blank_run:
  assumes "lex_ok str s" and "length str \<le> f"
  shows "post E (bind (gets curch) (\<lambda>c. if blank c then skip_while blank f else ret ()))
     (\<lambda>_ t. lex_moves str s t \<and> (ends_nl str \<longrightarrow> rest_text str t = dropWhile blank (rest_text str s))) s"
proof (cases "rest_text str s")
  case Nil
  with rest_Nil[OF assms(1)] show ?thesis using assms by (simp add: post_simps moves_refl)
next
  case (Cons c r)
  with rest_Cons[OF assms(1)] have r: "rest_text str s = curch s # drop (Suc (ppos (parse s))) str" by simp
  show ?thesis
    using assms
    by (auto simp: post_simps moves_refl r rest_scanned intro!: post_mono[OF skip_while_scan[where P = blank]])
qed

text \<open>
  The reference for skipping: white space is dropped, a comment up to and with its newline; a slash that
  does not start a comment is dropped and what follows it is not looked at again.
\<close>

function strip_blanks :: "string \<Rightarrow> string" where
  "strip_blanks w =
     (let r = dropWhile blank w in
      if take 2 r = ''//'' then strip_blanks (drop 1 (dropWhile (\<lambda>c. c \<noteq> NL) (drop 2 r)))
      else if take 1 r = ''/'' then drop 1 r
      else r)"
  by pat_completeness auto
termination
proof (relation "measure length"; clarsimp)
  fix w assume "take 2 (dropWhile blank w) = ''//''"
  then have "2 \<le> length (dropWhile blank w)" by (metis length_take min.absorb_iff2 length_Cons list.size(3) numeral_2_eq_2 One_nat_def Suc_1)
  moreover have "length (dropWhile (\<lambda>c. c \<noteq> NL) (drop 2 (dropWhile blank w))) \<le> length (drop 2 (dropWhile blank w))"
    by (rule length_dropWhile_le)
  moreover have "length (dropWhile blank w) \<le> length w" by (rule length_dropWhile_le)
  ultimately show "length (dropWhile (\<lambda>c. c \<noteq> NL) (drop 2 (dropWhile blank w))) - Suc 0 < length w" by simp
qed

declare strip_blanks.simps [simp del]

lemma comment_skip:
  assumes "lex_ok str s" and "length str \<le> f" and "curch s = CHR ''/''" and "E OutOfFuel \<or> ends_nl str"
  shows "post E (bind (skip_while (\<lambda>e. e \<noteq> NL) f) (\<lambda>_. nextch))
     (\<lambda>_ t. lex_moves str s t \<and> (ends_nl str \<longrightarrow> rest_text str t = drop 1 (dropWhile (\<lambda>c. c \<noteq> NL) (tl (rest_text str s))))) s"
proof -
  let ?p = "ppos (parse s)"
  have p: "?p < length str" "str ! ?p = CHR ''/''" using assms(1,3) by (auto simp: lex_ok_defs)
  have r: "tl (rest_text str s) = drop (Suc ?p) str" using rest_Cons[OF assms(1)] assms(3) p
    by (auto simp: rest_text_def tl_drop drop_Suc)
  have e: "E OutOfFuel \<or> \<not> (NUL \<noteq> NL) \<or> (\<exists>c \<in> set (drop (Suc ?p) str). \<not> c \<noteq> NL)"
    using assms(4) ends_nl_inside(2)[of str ?p] p by auto
  have "post E nextch (\<lambda>_ u. lex_moves str s u \<and>
      (ends_nl str \<longrightarrow> rest_text str u = drop 1 (dropWhile (\<lambda>c. c \<noteq> NL) (tl (rest_text str s))))) t"
    if t: "lex_moves str s t" "scan_stops (\<lambda>e. e \<noteq> NL) str ?p t" for t
  proof (rule post_mono[OF nextch_rest])
    show "lex_ok str t" using t(1) by (simp add: lex_moves_def)
  qed (use t in \<open>auto simp: r rest_scanned drop_Suc lex_moves_def\<close>)
  then show ?thesis
    unfolding post_simps
    by (intro post_mono[OF skip_while_scan[where P = "\<lambda>e. e \<noteq> NL" and E = E, OF assms(1) _ e]]) (use assms(2) in auto)
qed

lemma strip_comment:
  "dropWhile blank w = CHR ''/'' # CHR ''/'' # q \<Longrightarrow> strip_blanks w = strip_blanks (drop 1 (dropWhile (\<lambda>c. c \<noteq> NL) q))"
  by (subst strip_blanks.simps) (simp add: Let_def)

lemma strip_slash: "dropWhile blank w = CHR ''/'' # q \<Longrightarrow> take 1 q \<noteq> ''/'' \<Longrightarrow> strip_blanks w = q"
  by (subst strip_blanks.simps) (simp add: Let_def numeral_2_eq_2)

lemma strip_other: "take 1 (dropWhile blank w) \<noteq> ''/'' \<Longrightarrow> strip_blanks w = dropWhile blank w"
  by (subst strip_blanks.simps) (auto simp: Let_def dest: arg_cong[where f = "take 1"])

lemma rest_take: "lex_ok str s \<Longrightarrow> c \<noteq> NUL \<Longrightarrow> take 1 (rest_text str s) = [c] \<longleftrightarrow> curch s = c"
  using rest_Cons[of str s] rest_Nil[of str s] by (cases "rest_text str s") auto

lemma slash_rest: "lex_ok str s \<Longrightarrow> curch s = CHR ''/'' \<Longrightarrow> rest_text str s = CHR ''/'' # tl (rest_text str s)"
  using rest_Cons[of str s] rest_take[of str s "CHR ''/''"] by (cases "rest_text str s") auto

lemma skip_blanks_strip:
  assumes "lex_ok str s" and "length str \<le> f" and "length str < n + ppos (parse s)" and "E OutOfFuel \<or> ends_nl str"
  shows "post E (skip_blanks f n) (\<lambda>_ t. lex_moves str s t \<and> (ends_nl str \<longrightarrow> rest_text str t = strip_blanks (rest_text str s))) s"
  using assms(1,3)
proof (induction n arbitrary: s)
  case 0
  then show ?case by (simp add: lex_ok_defs)
next
  case (Suc n)
  let ?Q = "\<lambda>_ t. lex_moves str s t \<and> (ends_nl str \<longrightarrow> rest_text str t = strip_blanks (rest_text str s))"
  have comment: "post E (bind (skip_while (\<lambda>e. e \<noteq> NL) f) (\<lambda>_. bind nextch (\<lambda>_. skip_blanks f n))) ?Q u"
    if u: "lex_moves str s u" "curch u = CHR ''/''" "ppos (parse s) < ppos (parse u)"
      and r: "ends_nl str \<longrightarrow> dropWhile blank (rest_text str s) = CHR ''/'' # rest_text str u" for u
  proof -
    have "post E (skip_blanks f n) ?Q v"
      if "lex_moves str u v" "ends_nl str \<longrightarrow> rest_text str v = drop 1 (dropWhile (\<lambda>c. c \<noteq> NL) (tl (rest_text str u)))" for v
    proof (rule post_mono[OF Suc.IH])
      show "lex_ok str v" "length str < n + ppos (parse v)" using that u Suc.prems(2) by (auto simp: lex_moves_def)
    qed (use that u r slash_rest[of str u] in \<open>auto simp: lex_moves_def strip_comment\<close>)
    moreover have "lex_ok str u" using u(1) by (simp add: lex_moves_def)
    ultimately show ?thesis
      unfolding bind_assoc[symmetric]
      by (intro post_bindI[OF comment_skip[where E = E, OF _ assms(2) u(2) assms(4)]]) auto
  qed
  have slash: "post E (bind nextch (\<lambda>d. if d = CHR ''/'' then
         bind (skip_while (\<lambda>e. e \<noteq> NL) f) (\<lambda>_. bind nextch (\<lambda>_. skip_blanks f n))
       else ret ())) ?Q t"
    if t: "lex_moves str s t" "ends_nl str \<longrightarrow> rest_text str t = dropWhile blank (rest_text str s)" "curch t = CHR ''/''" for t
  proof -
    have "lex_ok str t" using t(1) by (simp add: lex_moves_def)
    then show ?thesis
    proof (rule post_bindI[OF nextch_rest], elim conjE, goal_cases)
      case (1 d u)
      with t slash_rest[of str t] have r: "ends_nl str \<longrightarrow> dropWhile blank (rest_text str s) = CHR ''/'' # rest_text str u"
        by (metis lex_moves_def)
      have u: "lex_moves str s u" using t(1) 1 by (auto intro: moves_trans)
      show ?case
      proof (cases "d = CHR ''/''")
        case True
        with 1 t(1) have "ppos (parse s) < ppos (parse u)" by (auto simp: lex_moves_def)
        then show ?thesis using comment[OF u _ _ r] True 1(2) by simp
      next
        case False
        with u 1 r strip_slash[of "rest_text str s"] rest_take[of str u "CHR ''/''"] show ?thesis
          by (auto simp: post_simps lex_moves_def)
      qed
    qed
  qed
  let ?K = "bind (gets curch) (\<lambda>c. if c = CHR ''/'' then bind nextch (\<lambda>d. if d = CHR ''/'' then
         bind (skip_while (\<lambda>e. e \<noteq> NL) f) (\<lambda>_. bind nextch (\<lambda>_. skip_blanks f n))
       else ret ()) else ret ())"
  have K: "post E ?K ?Q t"
    if t: "lex_moves str s t" "ends_nl str \<longrightarrow> rest_text str t = dropWhile blank (rest_text str s)" for t
    using slash[OF t] t strip_other[of "rest_text str s"] rest_take[of str t "CHR ''/''"]
    by (auto simp: post_simps lex_moves_def)
  have "skip_blanks f (Suc n) = bind (bind (gets curch) (\<lambda>c. if blank c then skip_while blank f else ret ())) (\<lambda>_. ?K)"
    by (simp add: bind_assoc)
  then show ?case
    using post_bindI[OF skip_blank_run[OF Suc.prems(1) assms(2)] K] by simp
qed

subsection \<open>Token classes\<close>

lemma scanned_strict: "scan_stops P str p t \<Longrightarrow> Suc p < length str \<Longrightarrow> p < ppos (parse t)"
  using scan_end_ge[of p P str] by (auto simp: scan_stops_def Let_def split: if_splits)

lemma set_lex_moves: "lex_ok str s \<Longrightarrow> post E (set_lex f) (\<lambda>_ t. lex_moves str s t \<and> ppos (parse t) = ppos (parse s) \<and>
    curch t = curch s \<and> plex (parse t) = f (plex (parse s))) s"
  by (simp add: set_lex_def post_simps lex_moves_def lex_ok_defs)

lemma parse_error_moves: "lex_ok str s \<Longrightarrow> post E (parse_error e) (\<lambda>_ t. lex_moves str s t \<and> parse t = parse s) s"
  by (auto simp: parse_error_def post_simps lex_moves_def lex_ok_defs)

definition token_post :: "string \<Rightarrow> lexst \<Rightarrow> lexptr \<Rightarrow> lexst \<Rightarrow> bool" where
  "token_post str s r t \<longleftrightarrow> lex_moves str s t \<and> token_ok (length str) (plex (parse t)) \<and> r = lptr (plex (parse t)) \<and>
     (\<forall>p. r = PText p \<longrightarrow> ppos (parse s) \<le> p \<and> (ends_nl str \<longrightarrow> p < ppos (parse t)))"

lemma token_post_after: "lex_moves str s t \<Longrightarrow> token_post str t r u \<Longrightarrow> token_post str s r u"
  by (auto simp: token_post_def lex_moves_def)

lemma set_token:
  assumes "lex_moves str u s" and "token_ok (length str) (f (plex (parse s)))" and "lptr (f (plex (parse s))) = r"
    and "\<And>p. r = PText p \<Longrightarrow> ppos (parse u) \<le> p \<and> (ends_nl str \<longrightarrow> p < ppos (parse s))"
  shows "post E (bind (set_lex f) (\<lambda>_. ret r)) (token_post str u) s"
proof (rule post_bindI[OF set_lex_moves])
  show "lex_ok str s" using assms(1) by (simp add: lex_moves_def)
  fix x t assume "lex_moves str s t \<and> ppos (parse t) = ppos (parse s) \<and> curch t = curch s \<and> plex (parse t) = f (plex (parse s))"
  with assms show "post E (ret r) (token_post str u) t"
    unfolding post_simps token_post_def by (metis moves_trans)
qed

lemma lex_fail_token: "lex_moves str u s \<Longrightarrow> post E (lex_fail e) (token_post str u) s"
  unfolding lex_fail_def
  by (rule post_bindI[OF parse_error_moves[of str]], simp add: lex_moves_def, rule set_token)
     (auto simp: lex_moves_def token_ok_def)

lemma lex_ok_pos: "lex_ok str s \<Longrightarrow> ppos (parse s) < length str"
  by (simp add: lex_ok_defs)

lemma lex_token_token:
  assumes "lex_moves str u s" and "ppos (parse u) \<le> p" and "p \<le> ppos (parse s)" and "ends_nl str \<longrightarrow> p < ppos (parse s)"
    and "t \<noteq> lex_eof" and "t \<noteq> lex_error"
  shows "post E (lex_token p t) (token_post str u) s"
  unfolding lex_token_def post_simps(3,5)
  using assms lex_ok_pos[of str s] unfolding post_simps(5)[symmetric]
  by (intro set_token) (auto simp: token_ok_def lex_moves_def)

lemma letter_not_nl: "is_letter c \<Longrightarrow> c \<noteq> NL" "is_digit c \<Longrightarrow> c \<noteq> NL" "is_punct c \<Longrightarrow> c \<noteq> NL"
  by (auto simp: is_letter_def is_uletter_def is_lletter_def is_digit_def is_punct_def schar_def)

lemma ident_char_NUL: "\<not> is_ident_char NUL" "\<not> is_digit NUL" "\<not> is_letter NUL"
  by (simp_all add: is_ident_char_def is_letter_def is_uletter_def is_lletter_def is_digit_def schar_def)

lemma not_last_char: 
  assumes "lex_ok str s" and "curch s \<noteq> NUL" and "curch s \<noteq> NL" and "ends_nl str"
  shows "Suc (ppos (parse s)) < length str"
  using assms ends_nl_inside(1)[of str "ppos (parse s)"] by (auto simp: lex_ok_defs)

lemma uc_type_ident: "uc_type w \<noteq> lex_eof" "uc_type w \<noteq> lex_error"
  by (simp_all add: uc_type_def)

lemma lex_upper_token:
  assumes "lex_ok str s" and "curch s \<noteq> NUL" and "curch s \<noteq> NL" and "length str \<le> f"
  shows "post E (lex_upper f (ppos (parse s))) (token_post str s) s"
  unfolding lex_upper_def
proof (rule post_bindI[OF skip_while_scan[OF assms(1), where P = is_ident_char]])
  fix x t assume "lex_moves str s t \<and> scan_stops is_ident_char str (ppos (parse s)) t"
  then show "post E (bind (gets parse) (\<lambda>P. lex_token (ppos (parse s)) (uc_type (lexeme P (ppos (parse s)) (ppos P - ppos (parse s)))))) (token_post str s) t"
    unfolding post_simps
    using not_last_char[OF assms(1-3)] scanned_strict[of is_ident_char str "ppos (parse s)" t]
    by (intro lex_token_token uc_type_ident) (auto simp: lex_moves_def)
qed (use assms ident_char_NUL in auto)

lemma lex_number_token:
  assumes "lex_ok str s" and "curch s \<noteq> NUL" and "curch s \<noteq> NL" and "length str \<le> f"
  shows "post E (lex_number f (ppos (parse s))) (token_post str s) s"
  unfolding lex_number_def
proof (rule post_bindI[OF skip_while_scan[OF assms(1), where P = is_digit]])
  fix x t assume "lex_moves str s t \<and> scan_stops is_digit str (ppos (parse s)) t"
  then show "post E (lex_token (ppos (parse s)) lex_num) (token_post str s) t"
    using not_last_char[OF assms(1-3)] scanned_strict[of is_digit str "ppos (parse s)" t]
    by (intro lex_token_token) (auto simp: lex_moves_def)
qed (use assms ident_char_NUL in auto)

lemma lex_punct_token:
  assumes "lex_ok str s" and "curch s \<noteq> NUL" and "curch s \<noteq> NL"
  shows "post E (lex_punct (ppos (parse s))) (token_post str s) s"
  unfolding lex_punct_def
proof (rule post_bindI[OF nextch_rest[OF assms(1)]], rule set_token)
qed (use not_last_char[OF assms] lex_ok_pos[OF assms(1)] in \<open>auto simp: token_ok_def\<close>)

lemma lex_triple_end:
  assumes "lex_moves str s t" and "ppos (parse s) + 2 \<le> ppos (parse t)"
  shows "post E (bind (set_lex (\<lambda>l. l\<lparr>llen := 3, ltype := lex_triple_minus\<rparr>)) (\<lambda>_.
          bind nextch (\<lambda>_.
          bind (set_lex (\<lambda>l. l\<lparr>lptr := PText (ppos (parse s))\<rparr>)) (\<lambda>_. ret (PText (ppos (parse s)))))))
     (token_post str s) t"
proof -
  let ?p = "ppos (parse s)"
  have last: "post E (bind (set_lex (\<lambda>l. l\<lparr>lptr := PText ?p\<rparr>)) (\<lambda>_. ret (PText ?p))) (token_post str s) v"
    if "lex_moves str t v" "plex (parse v) = (plex (parse t))\<lparr>llen := 3, ltype := lex_triple_minus\<rparr>" for v
    using that assms lex_ok_pos[of str t] by (intro set_token) (auto simp: lex_moves_def token_ok_def)
  have "post E (bind nextch (\<lambda>_. bind (set_lex (\<lambda>l. l\<lparr>lptr := PText ?p\<rparr>)) (\<lambda>_. ret (PText ?p)))) (token_post str s) u"
    if u: "lex_moves str t u" "plex (parse u) = (plex (parse t))\<lparr>llen := 3, ltype := lex_triple_minus\<rparr>" for u
    using u by (intro post_bindI[OF nextch_step[of str]] last) (auto simp: lex_moves_def)
  then show ?thesis
    using assms(1) by (intro post_bindI[OF set_lex_moves[of str]]) (auto simp: lex_moves_def)
qed

lemma lex_triple_token:
  assumes "lex_ok str s" and "curch s \<noteq> NUL" and "curch s \<noteq> NL"
  shows "post E (lex_triple (ppos (parse s))) (token_post str s) s"
  unfolding lex_triple_def
proof (rule post_bindI[OF nextch_rest[OF assms(1)]], elim conjE)
  let ?p = "ppos (parse s)"
  fix c1 t assume c1: "c1 = curch t" and t: "lex_moves str s t" and
     c1': "Suc ?p < length str \<or> c1 \<noteq> NUL \<longrightarrow> ?p < ppos (parse t)"
  have second: "post E (if c1 \<noteq> CHR ''-'' then ret c1 else nextch)
     (\<lambda>c2 u. lex_moves str s u \<and> (c1 = CHR ''-'' \<and> c2 = CHR ''-'' \<longrightarrow> ?p + 2 \<le> ppos (parse u))) t"
    using t c1' by (auto simp: post_simps lex_moves_def intro!: post_mono[OF nextch_rest])
  show "post E (bind (if c1 \<noteq> CHR ''-'' then ret c1 else nextch) (\<lambda>c2. 
     if c1 \<noteq> CHR ''-'' \<or> c2 \<noteq> CHR ''-'' then lex_fail ''Can not parse triple minus''
     else bind (set_lex (\<lambda>l. l\<lparr>llen := 3, ltype := lex_triple_minus\<rparr>)) (\<lambda>_.
          bind nextch (\<lambda>_.
          bind (set_lex (\<lambda>l. l\<lparr>lptr := PText ?p\<rparr>)) (\<lambda>_. ret (PText ?p)))))) (token_post str s) t"
    by (rule post_bindI[OF second]) (auto intro: lex_fail_token lex_triple_end)
qed

lemma lex_hex_moves: "lex_moves str u s \<Longrightarrow> post E (lex_hex i) (\<lambda>_ t. lex_moves str u t) s"
proof (induction i arbitrary: s rule: lex_hex.induct)
  case (1 i)
  show ?case
  proof (cases "8 \<le> i")
    case True
    then show ?thesis using 1 by (subst lex_hex.simps) (simp add: post_simps)
  next
    case False
    have "lex_ok str s" using "1.prems" by (simp add: lex_moves_def)
    then show ?thesis
      using False by (subst lex_hex.simps, simp, intro post_bindI[OF nextch_step[of str]])
        (use 1 in \<open>auto simp: post_simps intro: moves_trans\<close>)
  qed
qed

lemma ident_run:
  assumes "lex_moves str u s" and "length str \<le> f"
  shows "post E (skip_while is_ident_char f) (\<lambda>_ t. lex_moves str u t \<and> ppos (parse s) \<le> ppos (parse t)) s"
  using assms ident_char_NUL(1)
  by (intro post_mono[OF skip_while_scan[of str]]) (auto simp: lex_moves_def)

lemma lex_dots_token:
  assumes "lex_moves str u s" and "length str \<le> f" and "length str < n + ppos (parse s)"
    and "ends_nl str \<longrightarrow> ppos (parse u) < ppos (parse s)"
  shows "post E (lex_dots f (ppos (parse u)) n) (\<lambda>r t.
     case r of None \<Rightarrow> lex_moves str u t \<and> (ends_nl str \<longrightarrow> ppos (parse u) < ppos (parse t))
     | Some x \<Rightarrow> token_post str u x t) s"
  using assms(1,3,4)
proof (induction n arbitrary: s)
  case 0
  then show ?case using lex_ok_pos[of str s] by (simp add: lex_moves_def)
next
  case (Suc n)
  let ?p = "ppos (parse u)"
  let ?Q = "\<lambda>r t. case r of None \<Rightarrow> lex_moves str u t \<and> (ends_nl str \<longrightarrow> ppos (parse u) < ppos (parse t))
     | Some x \<Rightarrow> token_post str u x t"
  have name: "post E (bind (skip_while is_ident_char f) (\<lambda>_. lex_dots f ?p n)) ?Q v"
    if "lex_moves str s v" "ppos (parse s) < ppos (parse v)" for v
    using that Suc.prems by (intro post_bindI[OF ident_run[OF _ assms(2)]] Suc.IH) (auto simp: lex_moves_def)
  have last: "post E (bind (skip_while is_ident_char f) (\<lambda>_. bind (lex_token ?p lex_uc_ident) (\<lambda>r. ret (Some r)))) ?Q v"
    if "lex_moves str s v" "ppos (parse s) < ppos (parse v)" for v
    using that Suc.prems
    by (intro post_bindI[OF ident_run[OF _ assms(2)]] post_bindI[OF lex_token_token]) (auto simp: lex_moves_def post_simps)
  have fail: "post E (bind (lex_fail e) (\<lambda>r. ret (Some r))) ?Q v" if "lex_moves str s v" for v e
    using that Suc.prems(1) by (intro post_bindI[OF lex_fail_token]) (auto simp: post_simps elim: moves_trans)
  have nul: "\<not> is_uletter NUL" "\<not> is_lletter NUL" using ident_char_NUL(3) by (auto simp: is_letter_def)
  have dot: "post E (bind nextch (\<lambda>d.
       if is_uletter d then
         bind (skip_while is_ident_char f) (\<lambda>_. bind (lex_token ?p lex_uc_ident) (\<lambda>r. ret (Some r)))
       else if is_lletter d then bind (skip_while is_ident_char f) (\<lambda>_. lex_dots f ?p n)
       else bind (lex_fail ''Expected letter'') (\<lambda>r. ret (Some r)))) ?Q w"
    if w: "lex_moves str s w" "ppos (parse w) = ppos (parse s)" and ok: "lex_ok str w" for w
  proof (rule post_bindI[OF nextch_rest[OF ok]], elim conjE, goal_cases)
    case (1 d v)
    then have v: "lex_moves str s v" using w(1) by (blast intro: moves_trans)
    have pos: "d \<noteq> NUL \<Longrightarrow> ppos (parse s) < ppos (parse v)" using 1 w(2) by simp
    show ?case using v pos nul last[OF v] name[OF v] fail[OF v] by (auto simp del: post_simps)
  qed
  have ok: "lex_ok str s" using Suc.prems(1) by (simp add: lex_moves_def)
  show ?case
    unfolding lex_dots.simps post_gets
    by (intro post_ifI post_bindI[OF set_lex_moves[OF ok]] dot) (use Suc.prems in \<open>auto simp: post_simps lex_moves_def\<close>)
qed

lemma lex_lower_token:
  assumes "lex_ok str s" and "curch s \<noteq> NUL" and "curch s \<noteq> NL" and "length str + 2 \<le> f"
    and "E OutOfBounds \<or> ends_nl str"
  shows "post E (lex_lower f (ppos (parse s))) (token_post str s) s"
proof -
  let ?p = "ppos (parse s)"
  let ?in = "\<lambda>t. lex_moves str s t \<and> (ends_nl str \<longrightarrow> ?p < ppos (parse t))"
  let ?tag = "bind (gets curch) (\<lambda>c.
           if c = CHR ''#'' then
             bind (set_lex (\<lambda>l. l\<lparr>lflags := lflags l OR 2\<rparr>)) (\<lambda>_.
             bind (lex_hex 0) (\<lambda>ok.
             case ok of
               None \<Rightarrow> lex_fail ''Hex digit expected''
             | Some k \<Rightarrow> bind (if k = 1 then bind nextch (\<lambda>_. ret ()) else ret ()) (\<lambda>_.
                         lex_token ?p lex_lc_ident)))
           else lex_token ?p lex_lc_ident)"
  have token: "post E (lex_token ?p lex_lc_ident) (token_post str s) t" if "?in t" for t
    using that by (intro lex_token_token) (auto simp: lex_moves_def)
  have hex: "post E (case ok of None \<Rightarrow> lex_fail ''Hex digit expected''
       | Some k \<Rightarrow> bind (if k = 1 then bind nextch (\<lambda>_. ret ()) else ret ()) (\<lambda>_. lex_token ?p lex_lc_ident))
     (token_post str s) t" if t: "?in t" for ok t
  proof (cases ok)
    case None
    then show ?thesis using t by (auto intro: lex_fail_token)
  next
    case (Some k)
    have "post E (if k = 1 then bind nextch (\<lambda>_. ret ()) else ret ()) (\<lambda>_. ?in) t"
      using t by (auto simp: post_simps lex_moves_def intro!: post_mono[OF nextch_step[of str]])
    then show ?thesis unfolding Some option.case by (rule post_bindI) (rule token)
  qed
  have tag: "post E ?tag (token_post str s) t" if t: "?in t" for t
  proof (cases "curch t = CHR ''#''")
    case True
    have flag: "post E (set_lex (\<lambda>l. l\<lparr>lflags := lflags l OR 2\<rparr>)) (\<lambda>_. ?in) t"
      using t by (auto simp: lex_moves_def intro!: post_mono[OF set_lex_moves[of str]])
    have digits: "post E (lex_hex 0) (\<lambda>_. ?in) v" if "?in v" for v
      using that by (auto simp: lex_moves_def intro!: post_mono[OF lex_hex_moves[of str v]])
    show ?thesis
      unfolding post_gets True simp_thms if_True
      by (rule post_bindI[OF flag], rule post_bindI[OF digits], assumption, rule hex)
  next
    case False
    then show ?thesis using token[OF t] by (simp add: post_simps)
  qed
  have dots: "post E (bind (lex_dots f ?p f) (\<lambda>r. case r of Some x \<Rightarrow> ret x | None \<Rightarrow> ?tag)) (token_post str s) t"
    if t: "?in t" for t
    using t assms(4)
    by (intro post_bindI[OF lex_dots_token[of str]]) (auto simp: post_simps(1) intro: tag split: option.splits)
  have first: "post E (skip_while is_ident_char f) (\<lambda>_. ?in) s"
    using assms ident_char_NUL(1) not_last_char[OF assms(1-3)] scanned_strict[of is_ident_char str ?p]
    by (intro post_mono[OF skip_while_scan[of str]]) auto
  have look: "post E (if curch t = CHR ''.'' then bind (text_at (Suc (ppos (parse t)))) (\<lambda>d. ret (\<not> is_letter d)) else ret False)
     (\<lambda>_. ?in) t" if t: "?in t" for t
  proof -
    have "curch t = CHR ''.'' \<Longrightarrow> ends_nl str \<Longrightarrow> Suc (ppos (parse t)) < length str"
      using t not_last_char[of str t] by (simp add: lex_moves_def)
    then show ?thesis using t assms(5)
      by (auto simp: post_def bind_apply text_at_def lex_moves_def lex_ok_defs)
  qed
  show ?thesis
    unfolding lex_lower_def
    by (rule post_bindI[OF first], unfold post_gets, rule post_bindI[OF look], assumption)
      (intro post_ifI token dots; assumption)
qed

lemma parse_lex_token:
  assumes "lex_ok str s" and "E OutOfFuel \<or> ends_nl str" and "E OutOfBounds \<or> ends_nl str"
  shows "post E parse_lex (token_post str s) s"
proof -
  let ?f = "plen (parse s) + 2"
  have f: "plen (parse s) = length str" using assms(1) by (simp add: lex_ok_defs)
  have eof: "post E (bind (set_lex (\<lambda>l. l\<lparr>llen := 0, ltype := lex_eof, lptr := PNull\<rparr>)) (\<lambda>_. ret PNull)) (token_post str s) t"
    if "lex_moves str s t" for t
    using that by (intro set_token) (auto simp: token_ok_def)
  have main: "post E (bind (set_lex (\<lambda>l. l\<lparr>lflags := 0\<rparr>)) (\<lambda>_.
       if c = CHR ''-'' then lex_triple p
       else if is_punct c then lex_punct p
       else if is_letter c then (if is_uletter c then lex_upper ?f p else lex_lower ?f p)
       else if is_digit c then lex_number ?f p
       else lex_fail ''Unknown lexem'')) (token_post str s) t"
    if t: "lex_moves str s t" and c: "c = curch t" "c \<noteq> NUL" and p: "p = ppos (parse t)" for c p t
  proof (rule post_bindI[OF set_lex_moves[of str]], goal_cases)
    case 1
    then show ?case using t by (simp add: lex_moves_def)
  next
    case (2 x u)
    then have u: "lex_ok str u" "curch u = c" "p = ppos (parse u)" "lex_moves str s u"
      using t c p by (auto simp: lex_moves_def)
    note tokens = lex_triple_token lex_punct_token lex_upper_token lex_lower_token lex_number_token
    show ?case
    proof (cases "c = CHR ''-''")
      case True
      with u(2) have "curch u \<noteq> NUL" "curch u \<noteq> NL" by simp_all
      with True u show ?thesis
        by (simp add: post_mono[OF lex_triple_token token_post_after])
    next
      case False
      with u c letter_not_nl[of c] assms(3) show ?thesis unfolding u(3)
        by (intro post_ifI) (auto simp: f intro!: tokens lex_fail_token post_mono[OF _ token_post_after[OF u(4)]])
    qed
  qed
  show ?thesis
    unfolding parse_lex_def post_gets
    by (rule post_bindI[OF skip_blanks_strip[OF assms(1)]], (simp_all add: f assms(2) lex_ok_pos[OF assms(1)])[3],
        unfold post_gets, rule post_ifI, simp add: eof, unfold post_gets, rule main) simp_all
qed

subsection \<open>Texts on which the lexer does not end\<close>

lemma nextch_end:
  assumes "lex_ok str s" and "Suc (ppos (parse s)) < length str"
  obtains t where "nextch s = Inr (str ! Suc (ppos (parse s)), t)" and "lex_ok str t" and "ppos (parse t) = Suc (ppos (parse s))"
    and "curch t = str ! Suc (ppos (parse s))"
  using nextch_step[OF assms(1), of "\<lambda>_. False"] assms(2) that by (auto dest!: post_total simp: lex_moves_def)

lemma skip_while_runs_on:
  assumes "lex_ok str s" and "\<forall>c \<in> set (drop (Suc (ppos (parse s))) str). P c" and "P NUL"
  shows "skip_while P n s = Inl OutOfFuel"
  using assms
proof (induction n arbitrary: s)
  case (Suc n)
  show ?case
  proof (cases "Suc (ppos (parse s)) < length str")
    case True
    with Suc.prems(1) obtain t where t: "nextch s = Inr (str ! Suc (ppos (parse s)), t)" "lex_ok str t" "ppos (parse t) = Suc (ppos (parse s))"
      by (rule nextch_end)
    have "P (str ! Suc (ppos (parse s)))" "\<forall>c \<in> set (drop (Suc (ppos (parse t))) str). P c"
      using Suc.prems(2) True t(3) by (simp_all add: Cons_nth_drop_Suc[symmetric])
    with Suc.IH[OF t(2)] Suc.prems(3) t(1) show ?thesis by simp
  next
    case False
    with Suc.prems(1) have "Suc (ppos (parse s)) = length str" by (auto simp: lex_ok_defs)
    then show ?thesis using skip_while_stuck Suc.prems(1,3) by blast
  qed
qed simp

lemma skip_blanks_here: "\<not> blank (curch s) \<Longrightarrow> curch s \<noteq> CHR ''/'' \<Longrightarrow> skip_blanks f (Suc n) s = Inr ((), s)"
  by simp

lemma letter_not_blank: "is_letter c \<Longrightarrow> \<not> blank c \<and> c \<noteq> CHR ''/'' \<and> c \<noteq> NUL \<and> c \<noteq> CHR ''-'' \<and> \<not> is_punct c"
  by (auto simp: is_letter_def is_uletter_def is_lletter_def blank_def is_whitespace_def is_punct_def schar_def)

text \<open>The state in which reading of a text begins.\<close>

definition start_lexst :: "string \<Rightarrow> lexst" where
  "start_lexst str =
     \<lparr>parse = \<lparr>ptext = str, ppos = 0, plen = length str, pline = 0, pline_pos = 0,
        plex = \<lparr>lptr = PText 0, llen = 0, ltype = lex_none, lflags = 0\<rparr>\<rparr>,
      curch = hd str, last_error_pos = 0, last_error_line = 0, last_error_line_pos = 0, last_error = None\<rparr>"

lemma start_lexst_ok: "str \<noteq> [] \<Longrightarrow> lex_ok str (start_lexst str)"
  by (simp add: start_lexst_def lex_ok_defs hd_conv_nth line_at_def col_at_def)

lemma start_lexst_rest: "hd str \<noteq> NUL \<Longrightarrow> rest_text str (start_lexst str) = str"
  by (simp add: start_lexst_def rest_text_def)

subsection \<open>Properties\<close>

text \<open>
  C16: The lexer keeps its invariant on every text: the position stays inside the text, the line and
  column counters are those of the position, an error message carries the line and column of the
  furthest error, and the current token lies inside the text.
\<close>

theorem parse_lex_invariant:
  assumes "lex_ok str s" and "parse_lex s = Inr (r, t)"
  shows "lex_ok str t \<and> token_ok (length str) (plex (parse t)) \<and> r = lptr (plex (parse t)) \<and>
    ppos (parse s) \<le> ppos (parse t) \<and> last_error_pos s \<le> last_error_pos t"
  using post_Inr[OF parse_lex_token[of str s "\<lambda>_. True"] assms(2)] assms(1) by (simp add: token_post_def lex_moves_def)

theorem parse_lex_invariant_witness:
  "\<exists>t. parse_lex (start_lexst ''New ?'') = Inr (PText 0, t) \<and> lex_ok ''New ?'' t \<and> token_ok (length ''New ?'') (plex (parse t))"
proof -
  obtain t where t: "parse_lex (start_lexst ''New ?'') = Inr (PText 0, t)"
    by (simp add: parse_lex_def start_lexst_def bind_apply blank_def is_whitespace_def is_punct_def is_uletter_def
        is_lletter_def is_letter_def is_ident_char_def is_digit_def schar_def set_lex_def lex_upper_def lex_token_def
        nextch_def text_at_def)
  from parse_lex_invariant[OF start_lexst_ok this] t show ?thesis by simp
qed

text \<open>
  C25: Skipping white space and comments: on a text that ends with a newline the loop ends, and what is
  left to read is the reference function \<open>strip_blanks\<close> of what was left before. In particular a single slash
  is dropped without an error.
\<close>

theorem skip_blanks_strips:
  assumes "lex_ok str s" and "ends_nl str" and "length str \<le> f" and "length str < n"
  shows "\<exists>t. skip_blanks f n s = Inr ((), t) \<and> rest_text str t = strip_blanks (rest_text str s)"
  using post_total[OF skip_blanks_strip[of str s f n "\<lambda>_. False"]] assms by auto

theorem skip_blanks_strips_witness:
  "\<exists>t. skip_blanks 9 9 (start_lexst ('' //b'' @ [NL] @ ''/x'' @ [NL])) = Inr ((), t) \<and>
     rest_text ('' //b'' @ [NL] @ ''/x'' @ [NL]) t = ''x'' @ [NL]"
  using skip_blanks_strips[OF start_lexst_ok[of "'' //b'' @ [NL] @ ''/x'' @ [NL]"], of 9 9]
  by (simp add: start_lexst_rest ends_nl_def strip_blanks.simps blank_def is_whitespace_def schar_def numeral_2_eq_2)

text \<open>
  C31: A comment on the last line of a text without a newline after it: the loop that skips it does not
  end, whatever the fuel.
\<close>

theorem comment_at_end:
  assumes "lex_ok str s" and "rest_text str s = CHR ''/'' # CHR ''/'' # w" and "NL \<notin> set w"
  shows "skip_blanks f n s = Inl OutOfFuel"
proof (cases n)
  case (Suc m)
  let ?p = "ppos (parse s)"
  have c: "curch s = CHR ''/''" and d: "drop (Suc ?p) str = CHR ''/'' # w"
    using rest_Cons[OF assms(1)] assms(2) by auto
  have p: "Suc ?p < length str" "str ! Suc ?p = CHR ''/''"
    using d by (auto simp: nth_via_drop intro: ccontr)
  have w: "drop (Suc (Suc ?p)) str = w" using d by (metis drop_Suc list.sel(3) tl_drop)
  from assms(1) p(1) obtain t where t: "nextch s = Inr (str ! Suc ?p, t)" "lex_ok str t" "ppos (parse t) = Suc ?p"
    by (rule nextch_end)
  have "skip_while (\<lambda>e. e \<noteq> NL) f t = Inl OutOfFuel"
    using t(3) w assms(3) by (intro skip_while_runs_on[OF t(2)]) auto
  with c t(1) p(2) Suc show ?thesis by simp
qed simp

theorem comment_at_end_witness:
  "skip_blanks 7 7 (start_lexst ''//x'') = Inl OutOfFuel"
  by (rule comment_at_end[where w = "''x''", OF start_lexst_ok]) (simp_all add: start_lexst_rest)

lemma lex_upper_run:
  assumes "skip_while is_ident_char f s = Inr ((), t)"
  shows "lex_upper f p s = Inr (PText p, t\<lparr>parse := (parse t)\<lparr>plex := (plex (parse t))\<lparr>
     llen := ppos (parse t) - p, ltype := uc_type (lexeme (parse t) p (ppos (parse t) - p)), lptr := PText p\<rparr>\<rparr>\<rparr>)"
  using assms by (simp add: lex_upper_def lex_token_def set_lex_def)

lemma letter_start:
  assumes "lex_ok str s" and "is_letter (curch s)"
  obtains t0 t1 where "parse_lex s = (if is_uletter (curch s) then lex_upper (length str + 2) (ppos (parse s)) t0
       else lex_lower (length str + 2) (ppos (parse s)) t0)"
    and "skip_while is_ident_char (length str + 2) t0 = Inr ((), t1)" and "lex_ok str t1"
    and "scan_stops is_ident_char str (ppos (parse s)) t1"
proof -
  let ?p = "ppos (parse s)"
  note c = letter_not_blank[OF assms(2)]
  have f: "plen (parse s) = length str" using assms(1) by (simp add: lex_ok_defs)
  obtain t0 where t0: "set_lex (\<lambda>l. l\<lparr>lflags := 0\<rparr>) s = Inr ((), t0)" "lex_ok str t0" "ppos (parse t0) = ?p" "curch t0 = curch s"
    using post_total[OF set_lex_moves[OF assms(1)]] by (auto simp: lex_moves_def)
  obtain t1 where "skip_while is_ident_char (length str + 2) t0 = Inr ((), t1)" "lex_ok str t1" "scan_stops is_ident_char str ?p t1"
    using post_total[OF skip_while_scan[OF t0(2), of "length str + 2" "\<lambda>_. False" is_ident_char]] ident_char_NUL(1) t0(3)
    by (auto simp: lex_moves_def)
  with that[of t0 t1] c assms(2) t0(1) show ?thesis by (simp add: parse_lex_def bind_apply f)
qed

text \<open>
  An upper-case identifier is lexed by maximal munch. Inside the text the token is the whole run of
  identifier characters, classified as \<open>Final\<close>, \<open>New\<close>, \<open>Empty\<close> or an ordinary name; when the run
  reaches the end of the text, the token is one character shorter than what is written.
\<close>

theorem parse_lex_upper:
  assumes "lex_ok str s" and "is_uletter (curch s)"
  shows "\<exists>t. parse_lex s = Inr (PText (ppos (parse s)), t) \<and>
     (let p = ppos (parse s); w = curch s # takeWhile is_ident_char (drop (Suc p) str); l = plex (parse t) in
      if p + length w < length str
      then llen l = length w \<and> ltype l = uc_type w \<and> curch t = str ! (p + length w)
      else llen l + 1 = length w \<and> ltype l = uc_type (butlast w) \<and> curch t = NUL)"
proof -
  let ?p = "ppos (parse s)"
  define w where "w = curch s # takeWhile is_ident_char (drop (Suc ?p) str)"
  have l: "is_letter (curch s)" using assms(2) by (simp add: is_letter_def)
  obtain t0 t1 where lexed: "parse_lex s = lex_upper (length str + 2) ?p t0"
    and t1: "skip_while is_ident_char (length str + 2) t0 = Inr ((), t1)" "lex_ok str t1" "scan_stops is_ident_char str ?p t1"
    using letter_start[OF assms(1) l] assms(2) by auto
  note run = lexed[unfolded lex_upper_run[OF t1(1)]]
  have P1: "ptext (parse t1) = str" using t1(2) by (simp add: lex_ok_defs)
  have e: "scan_end is_ident_char str ?p = ?p + length w" by (simp add: scan_end_def w_def)
  have "drop ?p str = curch s # drop (Suc ?p) str"
    using assms(1) letter_not_blank[OF l] by (auto simp: lex_ok_defs Cons_nth_drop_Suc)
  then have lexm: "take (length w) (drop ?p str) = w"
    using takeWhile_eq_take[of is_ident_char "drop (Suc ?p) str"] by (simp add: w_def)
  show ?thesis
  proof (cases "?p + length w < length str")
    case True
    then have "ppos (parse t1) = ?p + length w" "curch t1 = str ! (?p + length w)"
      using t1(3) e by (simp_all add: scan_stops_def Let_def)
    then show ?thesis unfolding Let_def w_def[symmetric]
      using True run lexm by (simp add: lexeme_def P1)
  next
    case False
    then have "Suc (ppos (parse t1)) = length str" "curch t1 = NUL"
      using t1(3) e by (simp_all add: scan_stops_def Let_def)
    moreover have "length w \<le> length str - ?p"
      using length_takeWhile_le[of is_ident_char "drop (Suc ?p) str"] lex_ok_pos[OF assms(1)] by (simp add: w_def)
    ultimately have q: "ppos (parse t1) - ?p = length w - 1" "curch t1 = NUL" using False by simp_all
    have "take (length w - 1) (drop ?p str) = butlast w"
      unfolding butlast_conv_take by (subst (3) lexm[symmetric]) (simp only: take_take min.absorb1 diff_le_self)
    moreover have "w \<noteq> []" by (simp add: w_def)
    ultimately show ?thesis unfolding Let_def w_def[symmetric]
      using False run q by (simp add: lexeme_def P1)
  qed
qed

theorem parse_lex_upper_witness:
  "\<exists>t. parse_lex (start_lexst ''New ?'') = Inr (PText 0, t) \<and>
     llen (plex (parse t)) = 3 \<and> ltype (plex (parse t)) = lex_new \<and> curch t = CHR '' ''"
  using parse_lex_upper[OF start_lexst_ok[of "''New ?''"]]
  by (simp add: start_lexst_def is_uletter_def is_lletter_def is_letter_def is_ident_char_def is_digit_def schar_def uc_type_def
      Let_def eval_nat_numeral)

text \<open>
  A lower-case identifier followed by a dot that is the last character of the text makes the lexer
  read the byte behind the text.
\<close>

theorem dot_at_end:
  assumes "lex_ok str s" and "is_lletter (curch s)"
    and "drop (Suc (ppos (parse s))) str = w @ ''.''" and "\<forall>c \<in> set w. is_ident_char c"
  shows "parse_lex s = Inl OutOfBounds"
proof -
  let ?p = "ppos (parse s)"
  have l: "is_letter (curch s)" and u: "\<not> is_uletter (curch s)"
    using assms(2) by (auto simp: is_letter_def is_lletter_def is_uletter_def schar_def)
  obtain t0 t1 where lexed: "parse_lex s = lex_lower (length str + 2) ?p t0"
    and t1: "skip_while is_ident_char (length str + 2) t0 = Inr ((), t1)" "lex_ok str t1" "scan_stops is_ident_char str ?p t1"
    using letter_start[OF assms(1) l] u by auto
  have dot: "\<not> is_ident_char (CHR ''.'')"
    by (simp add: is_ident_char_def is_letter_def is_uletter_def is_lletter_def is_digit_def schar_def)
  have len: "length str = Suc (Suc ?p + length w)"
    using arg_cong[OF assms(3), of length] by simp
  have "takeWhile is_ident_char (w @ ''.'') = w" using assms(4) dot by (simp add: takeWhile_append2)
  then have e: "scan_end is_ident_char str ?p = Suc ?p + length w" by (simp add: scan_end_def assms(3))
  have "str ! (Suc ?p + length w) = (w @ ''.'') ! length w"
    unfolding assms(3)[symmetric] using len by simp
  then have "str ! (Suc ?p + length w) = CHR ''.''" by simp
  then have "ppos (parse t1) = Suc ?p + length w" "curch t1 = CHR ''.''" "ptext (parse t1) = str"
    using t1(2,3) e len by (simp_all add: scan_stops_def Let_def lex_ok_defs)
  with lexed t1(1) len show ?thesis by (simp add: lex_lower_def text_at_def)
qed

theorem dot_at_end_witness: "parse_lex (start_lexst ''ab.'') = Inl OutOfBounds"
  by (rule dot_at_end[where w = "''b''", OF start_lexst_ok])
    (simp_all add: start_lexst_def is_lletter_def is_ident_char_def is_letter_def is_uletter_def is_digit_def schar_def)

end
