(* ===== verification/TL_Parser.thy ===== *)
theory TL_Parser
  imports TL_Lexer
begin

section \<open>The recursive-descent parser (tl-parser.c, lines 70-109 and 419-942)\<close>

text \<open>
  Every \<open>parse_*\<close> function returns a tree or null (\<open>None\<close>); a failing function first
  restores the saved \<open>parse\<close> (\<open>PARSE_FAIL\<close>). The macros are definitions with the rest of
  the function as continuation. \<open>T->text\<close> is the rest of the file from the token on, as the
  C pointer is, and \<open>T->len\<close> its length. Recursion and loops take fuel: one unit per call or
  iteration; a null return inside a loop returns from the function, so a loop yields \<open>None\<close>
  for it. After the definitions, every parsing function is shown to meet one contract, from which
  follow termination with fuel linear in the length of the text and exact backtracking.
\<close>

datatype tree_type =
    type_tl_program | type_fun_declarations | type_constr_declarations | type_declaration
  | type_combinator_decl | type_equals | type_partial_app_decl | type_final_decl
  | type_full_combinator_id | type_opt_args | type_args | type_args1 | type_args2 | type_args3
  | type_args4 | type_boxed_type_ident | type_subexpr | type_partial_comb_app_decl
  | type_partial_type_app_decl | type_final_new | type_final_final | type_final_empty
  | type_var_ident | type_var_ident_opt | type_multiplicity | type_type_term | type_term
  | type_percent | type_result_type | type_expr | type_nat_term | type_combinator_id
  | type_nat_const | type_type_ident | type_builtin_combinator_decl | type_exclam
  | type_optional_arg_def

datatype tree = Tree
  (tree_type: tree_type) (tree_text: string) (tree_len: nat) (tree_flags: int)
  (lex_line: nat) (lex_line_pos: nat) (tree_c: "tree list")

abbreviation tree_nc :: "tree \<Rightarrow> nat" where "tree_nc T \<equiv> length (tree_c T)"

type_synonym 'a parser = "(lexst, 'a) comp"

definition tree_alloc :: "tree_type \<Rightarrow> tree" where
  "tree_alloc t = Tree t [] 0 0 0 0 []"

definition tree_add_child :: "tree \<Rightarrow> tree \<Rightarrow> tree" where
  "tree_add_child P C =
     (case P of Tree t x n f l lp cs \<Rightarrow> Tree t x n f l lp (cs @ [C]))"

definition tree_del_child :: "tree \<Rightarrow> fault + tree" where
  "tree_del_child P =
     (case P of Tree t x n f l lp cs \<Rightarrow>
        if cs = [] then Inl Assertion else Inr (Tree t x n f l lp (butlast cs)))"

subsection \<open>The macros\<close>

definition PARSE_INIT :: "tree_type \<Rightarrow> (parse \<Rightarrow> tree \<Rightarrow> 'a parser) \<Rightarrow> 'a parser" where
  "PARSE_INIT t k = bind save_parse (\<lambda>save. k save (Tree t [] 0 0 (pline save) (pline_pos save) []))"

definition PARSE_FAIL :: "parse \<Rightarrow> 'a option parser" where
  "PARSE_FAIL save = bind (load_parse save) (\<lambda>_. ret None)"

definition PARSE_OK :: "tree \<Rightarrow> tree option parser" where
  "PARSE_OK T = ret (Some T)"

definition PARSE_TRY_PES ::
  "tree option parser \<Rightarrow> parse \<Rightarrow> tree \<Rightarrow> (tree \<Rightarrow> 'a option parser) \<Rightarrow> 'a option parser" where
  "PARSE_TRY_PES x save T k =
     bind x (\<lambda>S. case S of None \<Rightarrow> PARSE_FAIL save | Some S \<Rightarrow> k (tree_add_child T S))"

definition PARSE_TRY_OPT ::
  "tree option parser \<Rightarrow> tree \<Rightarrow> tree option parser \<Rightarrow> tree option parser" where
  "PARSE_TRY_OPT x T k =
     bind x (\<lambda>S. case S of Some S \<Rightarrow> PARSE_OK (tree_add_child T S) | None \<Rightarrow> k)"

definition PARSE_ADD :: "tree_type \<Rightarrow> tree \<Rightarrow> tree" where
  "PARSE_ADD t T = tree_add_child T (tree_alloc t)"

definition EXPECT :: "string \<Rightarrow> parse \<Rightarrow> 'a option parser \<Rightarrow> 'a option parser" where
  "EXPECT w save k = bind (expect w) (\<lambda>ok. if ok then k else PARSE_FAIL save)"

definition LEX_CHAR :: "char \<Rightarrow> lexst \<Rightarrow> bool" where
  "LEX_CHAR c s \<longleftrightarrow> (let l = plex (parse s) in
     ltype l = lex_char \<and>
     (case lptr l of PText p \<Rightarrow> p < length (ptext (parse s)) \<and> ptext (parse s) ! p = c | _ \<Rightarrow> False))"

abbreviation cur_type :: "lexst \<Rightarrow> lex_type" where "cur_type s \<equiv> ltype (plex (parse s))"
abbreviation cur_flags :: "lexst \<Rightarrow> int" where "cur_flags s \<equiv> lflags (plex (parse s))"

text \<open>\<open>T->text = parse.lex.ptr; T->len = parse.lex.len; T->flags = parse.lex.flags; parse_lex ()\<close>\<close>

definition take_token :: "tree \<Rightarrow> tree option parser" where
  "take_token T =
     bind (gets parse) (\<lambda>P.
     bind parse_lex (\<lambda>_.
     PARSE_OK (Tree (tree_type T)
       (case lptr (plex P) of PText p \<Rightarrow> drop p (ptext P) | _ \<Rightarrow> [])
       (llen (plex P)) (lflags (plex P)) (lex_line T) (lex_line_pos T) (tree_c T))))"

text \<open>A leaf: a token that passes the test, or the error and the saved state.\<close>

definition parse_leaf :: "tree_type \<Rightarrow> (lexst \<Rightarrow> bool) \<Rightarrow> string \<Rightarrow> tree option parser" where
  "parse_leaf t ok e =
     PARSE_INIT t (\<lambda>save T.
       bind (gets ok) (\<lambda>b.
       if b then take_token T
       else bind (parse_error e) (\<lambda>_. PARSE_FAIL save)))"

subsection \<open>Identifiers and constants\<close>

definition parse_boxed_type_ident :: "tree option parser" where
  "parse_boxed_type_ident =
     parse_leaf type_boxed_type_ident (\<lambda>s. cur_type s = lex_uc_ident) ''Can not parse boxed type''"

definition parse_full_combinator_id :: "tree option parser" where
  "parse_full_combinator_id =
     parse_leaf type_full_combinator_id
       (\<lambda>s. cur_type s = lex_lc_ident \<or> LEX_CHAR (CHR ''_'') s) ''Can not parse full combinator id''"

definition parse_combinator_id :: "tree option parser" where
  "parse_combinator_id =
     parse_leaf type_combinator_id
       (\<lambda>s. cur_type s = lex_lc_ident \<and> cur_flags s AND 2 = 0) ''Can not parse combinator id''"

definition parse_var_ident :: "tree option parser" where
  "parse_var_ident =
     parse_leaf type_var_ident
       (\<lambda>s. (cur_type s = lex_lc_ident \<or> cur_type s = lex_uc_ident) \<and> cur_flags s AND 3 = 0)
       ''Can not parse var ident''"

definition parse_var_ident_opt :: "tree option parser" where
  "parse_var_ident_opt =
     parse_leaf type_var_ident_opt
       (\<lambda>s. (cur_type s = lex_lc_ident \<or> cur_type s = lex_uc_ident) \<and> cur_flags s AND 3 = 0
          \<or> LEX_CHAR (CHR ''_'') s)
       ''Can not parse var ident opt''"

definition parse_nat_const :: "tree option parser" where
  "parse_nat_const =
     parse_leaf type_nat_const (\<lambda>s. cur_type s = lex_num) ''Can not parse nat const''"

definition parse_type_ident :: "tree option parser" where
  "parse_type_ident =
     parse_leaf type_type_ident
       (\<lambda>s. cur_type s = lex_uc_ident \<and> cur_flags s AND 2 = 0
          \<or> cur_type s = lex_lc_ident \<and> cur_flags s AND 2 = 0
          \<or> LEX_CHAR (CHR ''#'') s)
       ''Can not parse type ident''"

subsection \<open>Loops, with the parser of their element as argument\<close>

text \<open>\<open>while (1) { PARSE_TRY_PES (p); if (stop) { break; } EXPECT (",") }\<close>\<close>

primrec comma_loop ::
  "tree option parser \<Rightarrow> nat \<Rightarrow> parse \<Rightarrow> tree \<Rightarrow> (tree \<Rightarrow> tree option parser) \<Rightarrow> tree option parser" where
  "comma_loop p 0 save T k = raise OutOfFuel"
| "comma_loop p (Suc n) save T k =
     PARSE_TRY_PES p save T (\<lambda>T.
       bind (gets (LEX_CHAR (CHR ''>''))) (\<lambda>b.
       if b then k T else EXPECT '','' save (comma_loop p n save T k)))"

text \<open>\<open>while (1) { PARSE_TRY_PES (p); if (LEX_CHAR (c)) { break; } }\<close>\<close>

primrec until_loop ::
  "tree option parser \<Rightarrow> char \<Rightarrow> nat \<Rightarrow> parse \<Rightarrow> tree \<Rightarrow> (tree \<Rightarrow> tree option parser)
     \<Rightarrow> tree option parser" where
  "until_loop p c 0 save T k = raise OutOfFuel"
| "until_loop p c (Suc n) save T k =
     PARSE_TRY_PES p save T (\<lambda>T.
       bind (gets (LEX_CHAR c)) (\<lambda>b. if b then k T else until_loop p c n save T k))"

text \<open>\<open>while (1) { if (LEX_CHAR (c)) { break; } PARSE_TRY_PES (p); }\<close>\<close>

primrec while_not_loop ::
  "tree option parser \<Rightarrow> char \<Rightarrow> nat \<Rightarrow> parse \<Rightarrow> tree \<Rightarrow> (tree \<Rightarrow> tree option parser)
     \<Rightarrow> tree option parser" where
  "while_not_loop p c 0 save T k = raise OutOfFuel"
| "while_not_loop p c (Suc n) save T k =
     bind (gets (LEX_CHAR c)) (\<lambda>b.
     if b then k T else PARSE_TRY_PES p save T (\<lambda>T. while_not_loop p c n save T k))"

primrec percent_loop ::
  "nat \<Rightarrow> parse \<Rightarrow> tree \<Rightarrow> (tree \<Rightarrow> tree option parser) \<Rightarrow> tree option parser" where
  "percent_loop 0 save T k = raise OutOfFuel"
| "percent_loop (Suc n) save T k =
     bind (gets (LEX_CHAR (CHR ''%''))) (\<lambda>b.
     if b then EXPECT ''%'' save (percent_loop n save (PARSE_ADD type_percent T) k) else k T)"

text \<open>The loop of \<open>parse_subexpr\<close>, lines 590-613.\<close>

primrec subexpr_loop ::
  "tree option parser \<Rightarrow> nat \<Rightarrow> parse \<Rightarrow> tree \<Rightarrow> bool \<Rightarrow> nat \<Rightarrow> tree option parser" where
  "subexpr_loop p 0 save T was_term cc = raise OutOfFuel"
| "subexpr_loop p (Suc n) save T was_term cc =
     (let finish = (\<lambda>T cc. if cc = 0 then PARSE_FAIL save else PARSE_OK T);
          next_part = (\<lambda>T was_term. bind (gets (LEX_CHAR (CHR ''+''))) (\<lambda>b.
            if \<not> b then finish T (Suc cc)
            else EXPECT ''+'' save (subexpr_loop p n save T was_term (Suc cc))))
      in bind parse_nat_const (\<lambda>S.
         case S of
           Some S \<Rightarrow> next_part (tree_add_child T S) was_term
         | None \<Rightarrow>
             if \<not> was_term then
               bind p (\<lambda>S. case S of
                 Some S \<Rightarrow> next_part (tree_add_child T S) True
               | None \<Rightarrow> finish T cc)
             else next_part T was_term))"

text \<open>The loop of \<open>parse_expr\<close>, lines 619-628.\<close>

primrec expr_loop :: "tree option parser \<Rightarrow> nat \<Rightarrow> parse \<Rightarrow> tree \<Rightarrow> nat \<Rightarrow> tree option parser" where
  "expr_loop p 0 save T cc = raise OutOfFuel"
| "expr_loop p (Suc n) save T cc =
     bind p (\<lambda>S. case S of
       Some S \<Rightarrow> expr_loop p n save (tree_add_child T S) (Suc cc)
     | None \<Rightarrow> if cc < 1 then PARSE_FAIL save else PARSE_OK T)"

subsection \<open>Terms and expressions\<close>

fun parse_term :: "nat \<Rightarrow> tree option parser"
and parse_subexpr :: "nat \<Rightarrow> tree option parser"
and parse_expr :: "nat \<Rightarrow> tree option parser" where
  "parse_term 0 = raise OutOfFuel"
| "parse_term (Suc n) =
     PARSE_INIT type_term (\<lambda>save T.
     percent_loop n save T (\<lambda>T.
     bind (gets (LEX_CHAR (CHR ''(''))) (\<lambda>b.
     if b then
       EXPECT ''('' save (PARSE_TRY_PES (parse_expr n) save T (\<lambda>T. EXPECT '')'' save (PARSE_OK T)))
     else
       bind parse_type_ident (\<lambda>S. case S of
         Some S \<Rightarrow>
           (let T = tree_add_child T S in
            bind (gets (LEX_CHAR (CHR ''<''))) (\<lambda>b.
            if b then
              EXPECT ''<'' save (comma_loop (parse_expr n) n save T (\<lambda>T. EXPECT ''>'' save (PARSE_OK T)))
            else PARSE_OK T))
       | None \<Rightarrow>
           PARSE_TRY_OPT parse_type_ident T
           (PARSE_TRY_OPT parse_var_ident T
           (PARSE_TRY_OPT parse_nat_const T
           (PARSE_FAIL save)))))))"
| "parse_subexpr 0 = raise OutOfFuel"
| "parse_subexpr (Suc n) =
     PARSE_INIT type_subexpr (\<lambda>save T. subexpr_loop (parse_term n) n save T False 0)"
| "parse_expr 0 = raise OutOfFuel"
| "parse_expr (Suc n) =
     PARSE_INIT type_expr (\<lambda>save T. expr_loop (parse_subexpr n) n save T 0)"

definition parse_nat_term :: "nat \<Rightarrow> tree option parser" where
  "parse_nat_term n = PARSE_INIT type_nat_term (\<lambda>save T. PARSE_TRY_PES (parse_term n) save T PARSE_OK)"

definition parse_multiplicity :: "nat \<Rightarrow> tree option parser" where
  "parse_multiplicity n =
     PARSE_INIT type_multiplicity (\<lambda>save T. PARSE_TRY_PES (parse_nat_term n) save T PARSE_OK)"

definition parse_type_term :: "nat \<Rightarrow> tree option parser" where
  "parse_type_term n = PARSE_INIT type_type_term (\<lambda>save T. PARSE_TRY_PES (parse_term n) save T PARSE_OK)"

subsection \<open>Final statements and partial applications\<close>

definition parse_final_empty :: "tree option parser" where
  "parse_final_empty = PARSE_INIT type_final_empty (\<lambda>save T.
     EXPECT ''Empty'' save (PARSE_TRY_PES parse_boxed_type_ident save T PARSE_OK))"

definition parse_final_new :: "tree option parser" where
  "parse_final_new = PARSE_INIT type_final_new (\<lambda>save T.
     EXPECT ''New'' save (PARSE_TRY_PES parse_boxed_type_ident save T PARSE_OK))"

definition parse_final_final :: "tree option parser" where
  "parse_final_final = PARSE_INIT type_final_final (\<lambda>save T.
     EXPECT ''Final'' save (PARSE_TRY_PES parse_boxed_type_ident save T PARSE_OK))"

definition parse_partial_comb_app_decl :: "nat \<Rightarrow> tree option parser" where
  "parse_partial_comb_app_decl n = PARSE_INIT type_partial_comb_app_decl (\<lambda>save T.
     PARSE_TRY_PES parse_combinator_id save T (\<lambda>T.
     until_loop (parse_subexpr n) (CHR '';'') n save T PARSE_OK))"

definition parse_partial_type_app_decl :: "nat \<Rightarrow> tree option parser" where
  "parse_partial_type_app_decl n = PARSE_INIT type_partial_type_app_decl (\<lambda>save T.
     PARSE_TRY_PES parse_boxed_type_ident save T (\<lambda>T.
     bind (gets (LEX_CHAR (CHR ''<''))) (\<lambda>b.
     if b then
       EXPECT ''<'' save (comma_loop (parse_expr n) n save T (\<lambda>T. EXPECT ''>'' save (PARSE_OK T)))
     else until_loop (parse_subexpr n) (CHR '';'') n save T PARSE_OK)))"

subsection \<open>Arguments\<close>

definition parse_optional_arg_def :: "tree option parser" where
  "parse_optional_arg_def = PARSE_INIT type_optional_arg_def (\<lambda>save T.
     PARSE_TRY_PES parse_var_ident save T (\<lambda>T.
     EXPECT ''.'' save (
     PARSE_TRY_PES parse_nat_const save T (\<lambda>T.
     EXPECT ''?'' save (PARSE_OK T)))))"

text \<open>
  The common tail of \<open>parse_args1\<close>, \<open>parse_args3\<close> and \<open>parse_args4\<close>: an optional field
  condition, an optional exclamation mark and a type term.
\<close>

definition opt_arg_def :: "tree \<Rightarrow> (tree \<Rightarrow> tree option parser) \<Rightarrow> tree option parser" where
  "opt_arg_def T k =
     bind save_parse (\<lambda>so.
     bind parse_optional_arg_def (\<lambda>S. case S of
       Some S \<Rightarrow> k (tree_add_child T S)
     | None \<Rightarrow> bind (load_parse so) (\<lambda>_. k T)))"

definition exclam_type_term ::
  "nat \<Rightarrow> parse \<Rightarrow> tree \<Rightarrow> (tree \<Rightarrow> tree option parser) \<Rightarrow> tree option parser" where
  "exclam_type_term n save T k =
     bind (gets (LEX_CHAR (CHR ''!''))) (\<lambda>b.
     if b then EXPECT ''!'' save (PARSE_TRY_PES (parse_type_term n) save (PARSE_ADD type_exclam T) k)
     else PARSE_TRY_PES (parse_type_term n) save T k)"

definition parse_args4 :: "nat \<Rightarrow> tree option parser" where
  "parse_args4 n = PARSE_INIT type_args4 (\<lambda>save T.
     opt_arg_def T (\<lambda>T. exclam_type_term n save T PARSE_OK))"

definition parse_args3 :: "nat \<Rightarrow> tree option parser" where
  "parse_args3 n = PARSE_INIT type_args3 (\<lambda>save T.
     PARSE_TRY_PES parse_var_ident_opt save T (\<lambda>T.
     EXPECT '':'' save (opt_arg_def T (\<lambda>T. exclam_type_term n save T PARSE_OK))))"

definition parse_args1 :: "nat \<Rightarrow> tree option parser" where
  "parse_args1 n = PARSE_INIT type_args1 (\<lambda>save T.
     EXPECT ''('' save (
     until_loop parse_var_ident_opt (CHR '':'') n save T (\<lambda>T.
     EXPECT '':'' save (
     opt_arg_def T (\<lambda>T. exclam_type_term n save T (\<lambda>T. EXPECT '')'' save (PARSE_OK T)))))))"

text \<open>The field name and the multiplicity of an array, lines 748-769.\<close>

definition args2_name :: "parse \<Rightarrow> tree \<Rightarrow> (tree \<Rightarrow> tree option parser) \<Rightarrow> tree option parser" where
  "args2_name save T k =
     bind parse_var_ident_opt (\<lambda>S.
     bind (gets (LEX_CHAR (CHR '':''))) (\<lambda>b.
     case S of
       Some S \<Rightarrow> if b then EXPECT '':'' save (k (tree_add_child T S))
                 else bind (load_parse save) (\<lambda>_. k T)
     | None \<Rightarrow> bind (load_parse save) (\<lambda>_. k T)))"

definition args2_mult :: "nat \<Rightarrow> parse \<Rightarrow> tree \<Rightarrow> (tree \<Rightarrow> tree option parser) \<Rightarrow> tree option parser" where
  "args2_mult n save T k =
     bind save_parse (\<lambda>save2.
     bind (parse_multiplicity n) (\<lambda>S.
     bind (gets (LEX_CHAR (CHR ''*''))) (\<lambda>b.
     case S of
       Some S \<Rightarrow> if b then EXPECT ''*'' save (k (tree_add_child T S))
                 else bind (load_parse save2) (\<lambda>_. k T)
     | None \<Rightarrow> bind (load_parse save2) (\<lambda>_. k T))))"

fun parse_args2 :: "nat \<Rightarrow> tree option parser"
and parse_args :: "nat \<Rightarrow> tree option parser" where
  "parse_args2 0 = raise OutOfFuel"
| "parse_args2 (Suc n) = PARSE_INIT type_args2 (\<lambda>save T.
     args2_name save T (\<lambda>T.
     opt_arg_def T (\<lambda>T.
     args2_mult n save T (\<lambda>T.
     EXPECT ''['' save (
     while_not_loop (parse_args n) (CHR '']'') n save T (\<lambda>T.
     EXPECT '']'' save (PARSE_OK T)))))))"
| "parse_args 0 = raise OutOfFuel"
| "parse_args (Suc n) = PARSE_INIT type_args (\<lambda>save T.
     PARSE_TRY_OPT (parse_args1 n) T
     (PARSE_TRY_OPT (parse_args2 n) T
     (PARSE_TRY_OPT (parse_args3 n) T
     (PARSE_TRY_OPT (parse_args4 n) T
     (PARSE_FAIL save)))))"

definition parse_opt_args :: "nat \<Rightarrow> tree option parser" where
  "parse_opt_args n = PARSE_INIT type_opt_args (\<lambda>save T.
     until_loop parse_var_ident (CHR '':'') n save T (\<lambda>T.
     EXPECT '':'' save (PARSE_TRY_PES (parse_type_term n) save T PARSE_OK)))"

subsection \<open>Declarations\<close>

definition parse_final_decl :: "tree option parser" where
  "parse_final_decl = PARSE_INIT type_final_decl (\<lambda>save T.
     PARSE_TRY_OPT parse_final_new T
     (PARSE_TRY_OPT parse_final_final T
     (PARSE_TRY_OPT parse_final_empty T
     (PARSE_FAIL save))))"

definition parse_partial_app_decl :: "nat \<Rightarrow> tree option parser" where
  "parse_partial_app_decl n = PARSE_INIT type_partial_app_decl (\<lambda>save T.
     PARSE_TRY_OPT (parse_partial_type_app_decl n) T
     (PARSE_TRY_OPT (parse_partial_comb_app_decl n) T
     (PARSE_FAIL save)))"

definition parse_result_type :: "nat \<Rightarrow> tree option parser" where
  "parse_result_type n = PARSE_INIT type_result_type (\<lambda>save T.
     PARSE_TRY_PES parse_boxed_type_ident save T (\<lambda>T.
     bind (gets (LEX_CHAR (CHR ''<''))) (\<lambda>b.
     if b then
       EXPECT ''<'' save (comma_loop (parse_expr n) n save T (\<lambda>T. EXPECT ''>'' save (PARSE_OK T)))
     else while_not_loop (parse_subexpr n) (CHR '';'') n save T PARSE_OK)))"

text \<open>The loop over groups of optional arguments, lines 861-869.\<close>

primrec opt_args_loop ::
  "nat \<Rightarrow> nat \<Rightarrow> parse \<Rightarrow> tree \<Rightarrow> (tree \<Rightarrow> tree option parser) \<Rightarrow> tree option parser" where
  "opt_args_loop f 0 save T k = raise OutOfFuel"
| "opt_args_loop f (Suc n) save T k =
     bind (gets (LEX_CHAR (CHR ''{''))) (\<lambda>b.
     if b then
       bind parse_lex (\<lambda>_.
       PARSE_TRY_PES (parse_opt_args f) save T (\<lambda>T.
       EXPECT ''}'' save (opt_args_loop f n save T k)))
     else k T)"

definition parse_combinator_decl :: "nat \<Rightarrow> tree option parser" where
  "parse_combinator_decl n = PARSE_INIT type_combinator_decl (\<lambda>save T.
     PARSE_TRY_PES parse_full_combinator_id save T (\<lambda>T.
     opt_args_loop n n save T (\<lambda>T.
     while_not_loop (parse_args n) (CHR ''='') n save T (\<lambda>T.
     EXPECT ''='' save (
     PARSE_TRY_PES (parse_result_type n) save (PARSE_ADD type_equals T) PARSE_OK)))))"

definition parse_builtin_combinator_decl :: "tree option parser" where
  "parse_builtin_combinator_decl = PARSE_INIT type_builtin_combinator_decl (\<lambda>save T.
     PARSE_TRY_PES parse_full_combinator_id save T (\<lambda>T.
     EXPECT ''?'' save (
     EXPECT ''='' save (
     PARSE_TRY_PES parse_boxed_type_ident save T PARSE_OK))))"

definition parse_declaration :: "nat \<Rightarrow> tree option parser" where
  "parse_declaration n = PARSE_INIT type_declaration (\<lambda>save T.
     PARSE_TRY_OPT (parse_combinator_decl n) T
     (PARSE_TRY_OPT (parse_partial_app_decl n) T
     (PARSE_TRY_OPT parse_final_decl T
     (PARSE_TRY_OPT parse_builtin_combinator_decl T
     (PARSE_FAIL save)))))"

definition at_section_end :: "lexst \<Rightarrow> bool" where
  "at_section_end s \<longleftrightarrow> cur_type s = lex_triple_minus \<or> cur_type s = lex_eof"

primrec declarations_loop :: "nat \<Rightarrow> nat \<Rightarrow> parse \<Rightarrow> tree \<Rightarrow> tree option parser" where
  "declarations_loop f 0 save T = raise OutOfFuel"
| "declarations_loop f (Suc n) save T =
     PARSE_TRY_PES (parse_declaration f) save T (\<lambda>T.
     EXPECT '';'' save (
     bind (gets at_section_end) (\<lambda>b. if b then PARSE_OK T else declarations_loop f n save T)))"

definition parse_constr_declarations :: "nat \<Rightarrow> tree option parser" where
  "parse_constr_declarations n = PARSE_INIT type_constr_declarations (\<lambda>save T.
     bind (gets at_section_end) (\<lambda>b. if b then PARSE_OK T else declarations_loop n n save T))"

definition parse_fun_declarations :: "nat \<Rightarrow> tree option parser" where
  "parse_fun_declarations n = PARSE_INIT type_fun_declarations (\<lambda>save T.
     bind (gets at_section_end) (\<lambda>b. if b then PARSE_OK T else declarations_loop n n save T))"

text \<open>The section separators, lines 924 and 928.\<close>

definition section_mark :: "string \<Rightarrow> bool parser" where
  "section_mark w =
     bind (gets cur_type) (\<lambda>t.
     if t = lex_error then ret False
     else
       bind (expect ''---'') (\<lambda>a. if \<not> a then ret False else
       bind (expect w) (\<lambda>b. if \<not> b then ret False else
       expect ''---'')))"

primrec program_loop :: "nat \<Rightarrow> nat \<Rightarrow> parse \<Rightarrow> tree \<Rightarrow> tree option parser" where
  "program_loop f 0 save T = raise OutOfFuel"
| "program_loop f (Suc n) save T =
     PARSE_TRY_PES (parse_constr_declarations f) save T (\<lambda>T.
     bind (gets cur_type) (\<lambda>t.
     if t = lex_eof then PARSE_OK T
     else bind (section_mark ''functions'') (\<lambda>ok.
     if \<not> ok then PARSE_FAIL save
     else PARSE_TRY_PES (parse_fun_declarations f) save T (\<lambda>T.
     bind (gets cur_type) (\<lambda>t.
     if t = lex_eof then PARSE_OK T
     else bind (section_mark ''types'') (\<lambda>ok.
     if \<not> ok then PARSE_FAIL save
     else program_loop f n save T))))))"

definition parse_program :: "nat \<Rightarrow> tree option parser" where
  "parse_program n = PARSE_INIT type_tl_program (\<lambda>save T. program_loop n n save T)"

definition tl_parse_lex :: "nat \<Rightarrow> parse \<Rightarrow> tree option parser" where
  "tl_parse_lex n P =
     bind (load_parse P) (\<lambda>_.
     bind (gets cur_type) (\<lambda>t.
     bind (if t = lex_none then bind parse_lex (\<lambda>_. ret ()) else ret ()) (\<lambda>_.
     bind (gets cur_type) (\<lambda>t.
     if t = lex_error then ret None else parse_program n))))"

subsection \<open>The contract of the parsing functions\<close>

text \<open>
  \<open>toks_left\<close> measures what is left: zero at the end of the file and after an error, else the distance
  to the end of the text. A parsing function either fails and restores \<open>parse\<close>, or succeeds and
  has consumed something. \<open>parse_body\<close> states the same for the rest of a function that will restore the
  state \<open>P\<close> saved at its start. When \<open>E\<close> allows a function to run out of fuel, nothing is claimed about
  progress, which is the partial correctness reading; otherwise the text ends with a newline
  (\<open>strict_text\<close>).
\<close>

definition good_parse :: "string \<Rightarrow> parse \<Rightarrow> bool" where
  "good_parse str P \<longleftrightarrow> place_ok str P \<and> token_ok (length str) (plex P)"

definition lex_inv :: "string \<Rightarrow> lexst \<Rightarrow> bool" where
  "lex_inv str s \<longleftrightarrow> lex_ok str s \<and> good_parse str (parse s)"

definition toks_left :: "parse \<Rightarrow> nat" where
  "toks_left P = (case lptr (plex P) of PText _ \<Rightarrow> plen P - ppos P | _ \<Rightarrow> 0)"

definition strict_text :: "(fault \<Rightarrow> bool) \<Rightarrow> string \<Rightarrow> bool" where
  "strict_text E str \<longleftrightarrow> E OutOfFuel \<and> E OutOfBounds \<or> ends_nl str"

definition toks_within :: "(fault \<Rightarrow> bool) \<Rightarrow> nat \<Rightarrow> lexst \<Rightarrow> bool" where
  "toks_within E m s \<longleftrightarrow> E OutOfFuel \<or> toks_left (parse s) \<le> m"

definition parse_returns :: "(fault \<Rightarrow> bool) \<Rightarrow> string \<Rightarrow> parse \<Rightarrow> tree option \<Rightarrow> lexst \<Rightarrow> bool" where
  "parse_returns E str P r t \<longleftrightarrow> lex_inv str t \<and>
     (case r of None \<Rightarrow> parse t = P | Some _ \<Rightarrow> E OutOfFuel \<or> toks_left (parse t) < toks_left P)"

definition parses :: "(fault \<Rightarrow> bool) \<Rightarrow> string \<Rightarrow> nat \<Rightarrow> tree option parser \<Rightarrow> bool" where
  "parses E str m p \<longleftrightarrow> (\<forall>s. lex_inv str s \<longrightarrow> toks_within E m s \<longrightarrow> post E p (parse_returns E str (parse s)) s)"

definition parse_body :: "(fault \<Rightarrow> bool) \<Rightarrow> string \<Rightarrow> parse \<Rightarrow> nat \<Rightarrow> tree option parser \<Rightarrow> bool" where
  "parse_body E str P m k \<longleftrightarrow> (\<forall>t. lex_inv str t \<longrightarrow> toks_within E m t \<longrightarrow> post E k (parse_returns E str P) t)"

lemma toks_pos: "good_parse str P \<Longrightarrow> 0 < toks_left P \<longleftrightarrow> (\<exists>p. lptr (plex P) = PText p)"
  by (auto simp: toks_left_def good_parse_def place_ok_def split: lexptr.split)

lemma lex_inv_token: "lex_moves str s t \<Longrightarrow> token_ok (length str) (plex (parse t)) \<Longrightarrow> lex_inv str t"
  by (simp add: lex_moves_def lex_inv_def good_parse_def lex_ok_def)

lemma toks_less:
  assumes "token_post str s r t" and "lex_inv str s" and "ends_nl str" and "0 < toks_left (parse s)"
  shows "toks_left (parse t) < toks_left (parse s)"
proof -
  have "place_ok str (parse s)" "place_ok str (parse t)"
    using assms(1,2) by (simp_all add: token_post_def lex_moves_def lex_inv_def lex_ok_def)
  then show ?thesis
    using assms(1,3,4) by (auto simp: token_post_def lex_moves_def place_ok_def toks_left_def split: lexptr.splits)
qed

lemma parse_lex_next:
  assumes "strict_text E str" and "lex_inv str s"
  shows "post E parse_lex (\<lambda>_ t. lex_inv str t \<and> (E OutOfFuel \<or> (0 < toks_left (parse s) \<longrightarrow> toks_left (parse t) < toks_left (parse s)))) s"
proof (rule post_mono)
  show "post E parse_lex (token_post str s) s"
    using assms by (intro parse_lex_token) (auto simp: strict_text_def lex_inv_def)
  fix r t assume t: "token_post str s r t"
  then have "lex_inv str t" by (auto simp: token_post_def intro: lex_inv_token)
  with t assms toks_less show "lex_inv str t \<and> (E OutOfFuel \<or> (0 < toks_left (parse s) \<longrightarrow> toks_left (parse t) < toks_left (parse s)))"
    by (auto simp: strict_text_def)
qed

definition expect_returns :: "(fault \<Rightarrow> bool) \<Rightarrow> string \<Rightarrow> lexst \<Rightarrow> bool \<Rightarrow> lexst \<Rightarrow> bool" where
  "expect_returns E str s ok t \<longleftrightarrow> lex_inv str t \<and>
     (if ok then E OutOfFuel \<or> toks_left (parse t) < toks_left (parse s) else parse t = parse s)"

lemma parse_error_inv: "lex_inv str s \<Longrightarrow> post E (parse_error e) (\<lambda>_ t. lex_inv str t \<and> parse t = parse s) s"
  by (auto simp: lex_inv_def lex_moves_def intro!: post_mono[OF parse_error_moves[of str]])

lemma expect_next:
  assumes "strict_text E str" and "lex_inv str s"
  shows "post E (expect w) (expect_returns E str s) s"
proof -
  have "post E (bind (parse_error e) (\<lambda>_. ret False)) (expect_returns E str s) s" for e
    using assms(2) by (intro post_bindI[OF parse_error_inv]) (auto simp: post_simps expect_returns_def)
  moreover have "post E (bind parse_lex (\<lambda>_. ret True)) (expect_returns E str s) s" if "lptr (plex (parse s)) = PText p" for p
    using assms that toks_pos[of str "parse s"]
    by (intro post_bindI[OF parse_lex_next[of E str]]) (auto simp: post_simps expect_returns_def lex_inv_def)
  ultimately show ?thesis
    unfolding expect_def post_gets Let_def by (intro post_ifI) (auto split: lexptr.splits)
qed

lemma load_parse_back:
  "lex_inv str s \<Longrightarrow> good_parse str P \<Longrightarrow> post E (load_parse P) (\<lambda>_ t. lex_inv str t \<and> parse t = P) s"
  by (auto simp: load_parse_def post_simps lex_inv_def good_parse_def lex_ok_defs post_def text_at_def bind_apply)

subsection \<open>Rules\<close>

lemma parsesI:
  "(\<And>s. lex_inv str s \<Longrightarrow> toks_within E m s \<Longrightarrow> post E p (parse_returns E str (parse s)) s) \<Longrightarrow> parses E str m p"
  by (simp add: parses_def)

lemma bodyI:
  "(\<And>t. lex_inv str t \<Longrightarrow> toks_within E m t \<Longrightarrow> post E k (parse_returns E str P) t) \<Longrightarrow> parse_body E str P m k"
  by (simp add: parse_body_def)

lemma within_mono: "toks_within E m s \<Longrightarrow> m \<le> n \<Longrightarrow> toks_within E n s"
  by (auto simp: toks_within_def)

lemma parses_mono: "parses E str n p \<Longrightarrow> E OutOfFuel \<or> m \<le> n \<Longrightarrow> parses E str m p"
  by (auto simp: parses_def toks_within_def)

lemma body_mono: "parse_body E str P n p \<Longrightarrow> m \<le> n \<Longrightarrow> parse_body E str P m p"
  by (auto simp: parse_body_def toks_within_def)

named_theorems body_rules \<open>contracts of the parsing macros\<close>

lemma body_fail [body_rules]: "good_parse str P \<Longrightarrow> parse_body E str P m (PARSE_FAIL P)"
  unfolding PARSE_FAIL_def
  by (intro bodyI post_bindI[OF load_parse_back[of str]]) (auto simp: post_simps parse_returns_def)

lemma body_ok [body_rules]: "E OutOfFuel \<or> m < toks_left P \<Longrightarrow> parse_body E str P m (PARSE_OK T)"
  by (intro bodyI) (auto simp: PARSE_OK_def post_simps parse_returns_def toks_within_def)

lemma body_expect [body_rules]:
  assumes "strict_text E str" and "good_parse str P" and "E OutOfFuel \<or> 0 < m \<Longrightarrow> parse_body E str P (m - Suc 0) k"
  shows "parse_body E str P m (EXPECT w P k)"
  unfolding EXPECT_def
proof (intro bodyI)
  fix t assume t: "lex_inv str t" "toks_within E m t"
  show "post E (bind (expect w) (\<lambda>ok. if ok then k else PARSE_FAIL P)) (parse_returns E str P) t"
  proof (rule post_bindI[OF expect_next[OF assms(1) t(1)]])
    fix ok u assume u: "expect_returns E str t ok u"
    have "post E (PARSE_FAIL P) (parse_returns E str P) u"
      using body_fail[OF assms(2)] u by (auto simp: parse_body_def toks_within_def expect_returns_def)
    with t u assms(3) show "post E (if ok then k else PARSE_FAIL P) (parse_returns E str P) u"
      by (auto simp: parse_body_def toks_within_def expect_returns_def)
  qed
qed

lemma body_gets [body_rules]:
  "(\<And>x. parse_body E str P m (k x)) \<Longrightarrow> parse_body E str P m (bind (gets f) k)"
  by (simp add: parse_body_def post_gets)

lemma body_if [body_rules]:
  "(b \<Longrightarrow> parse_body E str P m k1) \<Longrightarrow> (\<not> b \<Longrightarrow> parse_body E str P m k2) \<Longrightarrow> parse_body E str P m (if b then k1 else k2)"
  by simp

lemma body_out [body_rules]: "E OutOfFuel \<Longrightarrow> parse_body E str P m (raise OutOfFuel)"
  by (simp add: parse_body_def post_simps)

text \<open>A call of a parser, the two outcomes separately.\<close>

lemma body_call:
  assumes "parses E str m p" and "parse_body E str P m (f None)"
    and "\<And>S. E OutOfFuel \<or> 0 < m \<Longrightarrow> parse_body E str P (m - Suc 0) (f (Some S))"
  shows "parse_body E str P m (bind p f)"
proof (intro bodyI)
  fix t assume t: "lex_inv str t" "toks_within E m t"
  then have p: "post E p (parse_returns E str (parse t)) t" using assms(1) by (simp add: parses_def)
  show "post E (bind p f) (parse_returns E str P) t"
  proof (rule post_bindI[OF p])
    fix r u assume u: "parse_returns E str (parse t) r u"
    show "post E (f r) (parse_returns E str P) u"
    proof (cases r)
      case None
      with u t have "lex_inv str u" "toks_within E m u" by (auto simp: parse_returns_def toks_within_def)
      with assms(2) None show ?thesis by (simp add: parse_body_def)
    next
      case (Some S)
      with u t have "lex_inv str u" "toks_within E (m - Suc 0) u" "E OutOfFuel \<or> 0 < m"
        by (auto simp: parse_returns_def toks_within_def)
      with assms(3)[of S] Some show ?thesis by (simp add: parse_body_def)
    qed
  qed
qed

lemma body_case [body_rules]:
  assumes "parses E str m p" and "parse_body E str P m k"
    and "\<And>S. E OutOfFuel \<or> 0 < m \<Longrightarrow> parse_body E str P (m - Suc 0) (f S)"
  shows "parse_body E str P m (bind p (\<lambda>r. case r of None \<Rightarrow> k | Some S \<Rightarrow> f S))"
  by (rule body_call[OF assms(1)]) (auto intro: assms(2,3))

lemma body_Let [body_rules]: "parse_body E str P m (f x) \<Longrightarrow> parse_body E str P m (let y = x in f y)"
  by simp

lemma body_try_pes [body_rules]:
  assumes "parses E str m p" and "good_parse str P"
    and "\<And>T. E OutOfFuel \<or> 0 < m \<Longrightarrow> parse_body E str P (m - Suc 0) (k T)"
  shows "parse_body E str P m (PARSE_TRY_PES p P T k)"
  unfolding PARSE_TRY_PES_def
  by (rule body_call[OF assms(1)]) (auto intro: body_fail assms(2,3))

lemma body_try_opt [body_rules]:
  assumes "parses E str m p" and "E OutOfFuel \<or> m \<le> toks_left P" and "parse_body E str P m k"
  shows "parse_body E str P m (PARSE_TRY_OPT p T k)"
  unfolding PARSE_TRY_OPT_def
proof (rule body_call[OF assms(1)])
  fix S assume "E OutOfFuel \<or> 0 < m"
  with assms(2) show "parse_body E str P (m - Suc 0) (case Some S of None \<Rightarrow> k | Some S \<Rightarrow> PARSE_OK (tree_add_child T S))"
    by (auto simp: parse_body_def PARSE_OK_def post_simps parse_returns_def toks_within_def)
qed (simp add: assms(3))

lemma body_load [body_rules]:
  assumes "good_parse str Q" and "E OutOfFuel \<or> toks_left Q \<le> m" and "parse_body E str P m k"
  shows "parse_body E str P n (bind (load_parse Q) (\<lambda>_. k))"
proof (intro bodyI, rule post_bindI[OF load_parse_back[OF _ assms(1)]])
qed (use assms in \<open>auto simp: parse_body_def toks_within_def\<close>)

lemma body_save [body_rules]:
  assumes "\<And>Q. good_parse str Q \<Longrightarrow> E OutOfFuel \<or> toks_left Q \<le> m \<Longrightarrow> parse_body E str P m (k Q)"
  shows "parse_body E str P m (bind save_parse k)"
  using assms by (auto simp: parse_body_def save_parse_def post_gets lex_inv_def toks_within_def)

lemma parses_init [body_rules]:
  assumes "\<And>P T. good_parse str P \<Longrightarrow> E OutOfFuel \<or> toks_left P \<le> m \<Longrightarrow> parse_body E str P (toks_left P) (k P T)"
  shows "parses E str m (PARSE_INIT t k)"
  using assms by (auto simp: parses_def PARSE_INIT_def save_parse_def post_gets parse_body_def lex_inv_def toks_within_def)

lemma body_lenient: "E OutOfFuel \<Longrightarrow> parse_body E str P m k \<Longrightarrow> parse_body E str P n k"
  by (simp add: parse_body_def toks_within_def)

text \<open>Leaves.\<close>

lemma parses_leaf:
  assumes "strict_text E str" and "\<And>s. ok s \<Longrightarrow> cur_type s \<noteq> lex_eof \<and> cur_type s \<noteq> lex_error"
  shows "parses E str m (parse_leaf t ok e)"
proof (intro parsesI)
  fix s assume s: "lex_inv str s"
  have "post E (bind (parse_error e) (\<lambda>_. PARSE_FAIL (parse s))) (parse_returns E str (parse s)) s"
    using body_fail[of str "parse s" E "toks_left (parse s)"] s
    by (intro post_bindI[OF parse_error_inv[OF s]]) (auto simp: parse_body_def lex_inv_def toks_within_def)
  moreover have "post E (take_token T) (parse_returns E str (parse s)) s" if "ok s" for T
    unfolding take_token_def post_gets
  proof (rule post_bindI[OF parse_lex_next[OF assms(1) s]])
    have "\<exists>p. lptr (plex (parse s)) = PText p"
      using assms(2)[OF that] s by (auto simp: lex_inv_def good_parse_def token_ok_def split: lexptr.splits)
    with toks_pos[of str "parse s"] s have "0 < toks_left (parse s)" by (simp add: lex_inv_def)
    then show "post E (PARSE_OK S) (parse_returns E str (parse s)) u"
      if "lex_inv str u \<and> (E OutOfFuel \<or> (0 < toks_left (parse s) \<longrightarrow> toks_left (parse u) < toks_left (parse s)))" for u S
      using that by (auto simp: PARSE_OK_def post_simps parse_returns_def)
  qed
  ultimately show "post E (parse_leaf t ok e) (parse_returns E str (parse s)) s"
    by (auto simp: parse_leaf_def PARSE_INIT_def save_parse_def post_gets)
qed

lemma LEX_CHAR_type: "LEX_CHAR c s \<Longrightarrow> cur_type s = lex_char"
  by (simp add: LEX_CHAR_def Let_def)

lemma parses_leaves [body_rules]:
  assumes "strict_text E str"
  shows "parses E str m parse_boxed_type_ident" "parses E str m parse_full_combinator_id"
    "parses E str m parse_combinator_id" "parses E str m parse_var_ident"
    "parses E str m parse_var_ident_opt" "parses E str m parse_nat_const" "parses E str m parse_type_ident"
  using LEX_CHAR_type
  by (auto simp: parse_boxed_type_ident_def parse_full_combinator_id_def parse_combinator_id_def parse_var_ident_def
      parse_var_ident_opt_def parse_nat_const_def parse_type_ident_def intro!: parses_leaf[OF assms])

text \<open>Loops.\<close>

abbreviation fuel_for :: "(fault \<Rightarrow> bool) \<Rightarrow> nat \<Rightarrow> nat \<Rightarrow> bool" where
  "fuel_for E m n \<equiv> E OutOfFuel \<or> m < n"

lemma body_comma_loop [body_rules]:
  assumes "strict_text E str" and "good_parse str P" and "parses E str m p"
    and "\<And>T. E OutOfFuel \<or> 0 < m \<Longrightarrow> parse_body E str P (m - Suc 0) (k T)" and "fuel_for E m n"
  shows "parse_body E str P m (comma_loop p n P T k)"
  using assms(3-)
proof (induction n arbitrary: m T)
  case 0
  then have "E OutOfFuel" by simp
  then show ?case unfolding comma_loop.simps by (rule body_out)
next
  case (Suc n)
  have "parse_body E str P (m - Suc 0 - Suc 0) (comma_loop p n P T k)" if "E OutOfFuel \<or> 0 < m - Suc 0" for T
    using that Suc.prems by (intro Suc.IH) (auto intro: body_mono[OF Suc.prems(2)] elim!: parses_mono)
  then show ?case
    unfolding comma_loop.simps by (intro body_rules assms(1,2) Suc.prems) auto
qed

lemma body_until_loop [body_rules]:
  assumes "strict_text E str" and "good_parse str P" and "parses E str m p"
    and "\<And>T. E OutOfFuel \<or> 0 < m \<Longrightarrow> parse_body E str P (m - Suc 0) (k T)" and "fuel_for E m n"
  shows "parse_body E str P m (until_loop p c n P T k)"
  using assms(3-)
proof (induction n arbitrary: m T)
  case 0
  then have "E OutOfFuel" by simp
  then show ?case unfolding until_loop.simps by (rule body_out)
next
  case (Suc n)
  have "parse_body E str P (m - Suc 0) (until_loop p c n P T k)" if "E OutOfFuel \<or> 0 < m" for T
    using that Suc.prems by (intro Suc.IH) (auto intro: body_mono[OF Suc.prems(2)] elim!: parses_mono)
  then show ?case
    unfolding until_loop.simps by (intro body_rules assms(1,2) Suc.prems) auto
qed

lemma body_while_not_loop [body_rules]:
  assumes "strict_text E str" and "good_parse str P" and "parses E str m p"
    and "\<And>T. parse_body E str P m (k T)" and "fuel_for E m n"
  shows "parse_body E str P m (while_not_loop p c n P T k)"
  using assms(3-)
proof (induction n arbitrary: m T)
  case 0
  then have "E OutOfFuel" by simp
  then show ?case unfolding while_not_loop.simps by (rule body_out)
next
  case (Suc n)
  have "parse_body E str P (m - Suc 0) (while_not_loop p c n P T k)" if "E OutOfFuel \<or> 0 < m" for T
    using that Suc.prems by (intro Suc.IH) (auto intro: body_mono[OF Suc.prems(2)] elim!: parses_mono)
  then show ?case
    unfolding while_not_loop.simps by (intro body_rules assms(1,2) Suc.prems) auto
qed

lemma body_percent_loop [body_rules]:
  assumes "strict_text E str" and "good_parse str P" and "\<And>T. parse_body E str P m (k T)" and "fuel_for E m n"
  shows "parse_body E str P m (percent_loop n P T k)"
  using assms(3-)
proof (induction n arbitrary: m T)
  case 0
  then have "E OutOfFuel" by simp
  then show ?case unfolding percent_loop.simps by (rule body_out)
next
  case (Suc n)
  have "parse_body E str P (m - Suc 0) (percent_loop n P T k)" if "E OutOfFuel \<or> 0 < m" for T
    using that Suc.prems by (intro Suc.IH) (auto intro: body_mono[OF Suc.prems(1)])
  then show ?case
    unfolding percent_loop.simps by (intro body_rules assms(1,2) Suc.prems) auto
qed

subsection \<open>Terms, expressions and arguments\<close>

lemma body_subexpr_loop:
  assumes "strict_text E str" and "good_parse str P" and "parses E str m p" and "fuel_for E m n"
    and "E OutOfFuel \<or> (if cc = 0 then \<not> w \<and> m \<le> toks_left P else m < toks_left P)"
  shows "parse_body E str P m (subexpr_loop p n P T w cc)"
  using assms(3-)
proof (induction n arbitrary: m T w cc)
  case 0
  then have "E OutOfFuel" by simp
  then show ?case unfolding subexpr_loop.simps by (rule body_out)
next
  case (Suc n)
  have next_part: "parse_body E str P l (bind (gets (LEX_CHAR (CHR ''+''))) (\<lambda>b.
      if \<not> b then (if Suc cc = 0 then PARSE_FAIL P else PARSE_OK T)
      else EXPECT ''+'' P (subexpr_loop p n P T w (Suc cc))))"
    if "E OutOfFuel \<or> l < toks_left P" "l \<le> m" for l T w
    using that Suc.prems assms(1,2)
    by (intro body_rules Suc.IH) (auto elim!: parses_mono)
  show ?case
    unfolding subexpr_loop.simps Let_def
  proof (rule body_call[OF parses_leaves(6)[OF assms(1)]], goal_cases)
    case 1
    show ?case
      unfolding option.case
    proof (rule body_if, goal_cases)
      case 1
      show ?case
      proof (rule body_call[OF Suc.prems(1)], goal_cases)
        case 1
        show ?case using Suc.prems(3) assms(2) by (auto intro!: body_rules)
      next
        case (2 S)
        then show ?case unfolding option.case using Suc.prems(3) by (intro next_part) (auto split: if_splits)
      qed
    next
      case 2
      then show ?case using Suc.prems(3) by (intro next_part) (auto split: if_splits)
    qed
  next
    case (2 S)
    then show ?case unfolding option.case using Suc.prems(3) by (intro next_part) (auto split: if_splits)
  qed
qed

lemma body_expr_loop:
  assumes "strict_text E str" and "good_parse str P" and "parses E str m p" and "fuel_for E m n"
    and "E OutOfFuel \<or> (if cc = 0 then m \<le> toks_left P else m < toks_left P)"
  shows "parse_body E str P m (expr_loop p n P T cc)"
  using assms(3-)
proof (induction n arbitrary: m T cc)
  case 0
  then have "E OutOfFuel" by simp
  then show ?case unfolding expr_loop.simps by (rule body_out)
next
  case (Suc n)
  have "parse_body E str P (m - Suc 0) (expr_loop p n P T (Suc cc))" if "E OutOfFuel \<or> 0 < m" for T
    using that Suc.prems by (intro Suc.IH) (auto elim!: parses_mono split: if_splits)
  then show ?case
    unfolding expr_loop.simps
    by (intro body_call[OF Suc.prems(1)]) (use Suc.prems(3) assms(2) in \<open>auto intro!: body_rules\<close>)
qed

abbreviation fuel3 :: "(fault \<Rightarrow> bool) \<Rightarrow> nat \<Rightarrow> nat \<Rightarrow> bool" where
  "fuel3 E k n \<equiv> E OutOfFuel \<or> k \<le> n"

lemma parses_out: "E OutOfFuel \<Longrightarrow> parses E str m (raise OutOfFuel)"
  by (simp add: parses_def post_simps)

lemma parses_expr_step:
  assumes "strict_text E str" and "parses E str m (parse_subexpr n)" and "fuel_for E m n"
  shows "parses E str m (parse_expr (Suc n))"
  unfolding parse_expr.simps using assms
  by (intro parses_init body_expr_loop) (auto elim!: parses_mono)

lemma parses_subexpr_step:
  assumes "strict_text E str" and "parses E str m (parse_term n)" and "fuel_for E m n"
  shows "parses E str m (parse_subexpr (Suc n))"
  unfolding parse_subexpr.simps using assms
  by (intro parses_init body_subexpr_loop) (auto elim!: parses_mono)

lemma parses_term_step:
  assumes "strict_text E str" and "E OutOfFuel \<or> 0 < m \<Longrightarrow> parses E str (m - Suc 0) (parse_expr n)" and "fuel_for E m n"
  shows "parses E str m (parse_term (Suc n))"
  unfolding parse_term.simps
proof (rule parses_init, goal_cases)
  case (1 P T)
  have expr: "parses E str k (parse_expr n)" if "E OutOfFuel \<or> k < toks_left P" for k
    using that 1(2) assms(2) by (auto elim!: parses_mono)
  show ?case
    using 1 assms
    by (intro body_rules expr) (auto split: option.splits)
qed

lemma parses_terms:
  assumes "strict_text E str"
  shows "(fuel3 E (3 * m + 3) n \<longrightarrow> parses E str m (parse_term n)) \<and>
    (fuel3 E (3 * m + 4) n \<longrightarrow> parses E str m (parse_subexpr n)) \<and>
    (fuel3 E (3 * m + 5) n \<longrightarrow> parses E str m (parse_expr n))"
proof (induction n arbitrary: m)
  case 0
  have "\<not> fuel3 E (3 * m + 3) 0 \<or> E OutOfFuel" by simp
  then show ?case using parses_out[of E str m] unfolding parse_term.simps parse_subexpr.simps parse_expr.simps by fastforce
next
  case (Suc n)
  have "parses E str m (parse_term (Suc n))" if "fuel3 E (3 * m + 3) (Suc n)"
    using that Suc.IH[of "m - Suc 0"] by (intro parses_term_step[OF assms]) auto
  moreover have "parses E str m (parse_subexpr (Suc n))" if "fuel3 E (3 * m + 4) (Suc n)"
    using that Suc.IH[of m] by (intro parses_subexpr_step[OF assms]) auto
  moreover have "parses E str m (parse_expr (Suc n))" if "fuel3 E (3 * m + 5) (Suc n)"
    using that Suc.IH[of m] by (intro parses_expr_step[OF assms]) auto
  ultimately show ?case by blast
qed

lemma parses_expressions [body_rules]:
  assumes "strict_text E str"
  shows "fuel3 E (3 * m + 3) n \<Longrightarrow> parses E str m (parse_term n)"
    and "fuel3 E (3 * m + 4) n \<Longrightarrow> parses E str m (parse_subexpr n)"
    and "fuel3 E (3 * m + 5) n \<Longrightarrow> parses E str m (parse_expr n)"
  using parses_terms[OF assms] by blast+

lemma parses_simple_terms [body_rules]:
  assumes "strict_text E str" and "fuel3 E (3 * m + 3) n"
  shows "parses E str m (parse_nat_term n)" and "parses E str m (parse_multiplicity n)"
    and "parses E str m (parse_type_term n)"
proof -
  have nat: "parses E str l (parse_nat_term n)" if "fuel3 E (3 * l + 3) n" for l
    unfolding parse_nat_term_def using assms(1) that by (intro body_rules) auto
  then show "parses E str m (parse_nat_term n)" using assms(2) .
  show "parses E str m (parse_multiplicity n)"
    unfolding parse_multiplicity_def using assms by (intro body_rules nat) auto
  show "parses E str m (parse_type_term n)"
    unfolding parse_type_term_def using assms by (intro body_rules) auto
qed

lemma parses_finals [body_rules]:
  assumes "strict_text E str"
  shows "parses E str m parse_final_empty" "parses E str m parse_final_new" "parses E str m parse_final_final"
  unfolding parse_final_empty_def parse_final_new_def parse_final_final_def
  using assms by (intro body_rules; auto)+

lemma parses_applications [body_rules]:
  assumes "strict_text E str" and "fuel3 E (3 * m + 6) n"
  shows "parses E str m (parse_partial_comb_app_decl n)" "parses E str m (parse_partial_type_app_decl n)"
  unfolding parse_partial_comb_app_decl_def parse_partial_type_app_decl_def
  using assms by (intro body_rules; auto)+

lemma parses_optional_arg_def [body_rules]:
  "strict_text E str \<Longrightarrow> parses E str m parse_optional_arg_def"
  unfolding parse_optional_arg_def_def by (intro body_rules) auto

lemma body_opt_arg_def [body_rules]:
  assumes "strict_text E str" and "\<And>T. parse_body E str P m (k T)"
  shows "parse_body E str P m (opt_arg_def T k)"
  unfolding opt_arg_def_def using assms
  by (intro body_rules) (auto intro: body_mono[OF assms(2)])

lemma body_exclam_type_term [body_rules]:
  assumes "strict_text E str" and "good_parse str P" and "fuel3 E (3 * m + 3) n"
    and "\<And>T. E OutOfFuel \<or> 0 < m \<Longrightarrow> parse_body E str P (m - Suc 0) (k T)"
  shows "parse_body E str P m (exclam_type_term n P T k)"
  unfolding exclam_type_term_def using assms
  by (intro body_rules) (auto intro: body_mono[OF assms(4)])

lemma parses_args_simple [body_rules]:
  assumes "strict_text E str" and "fuel3 E (3 * m + 3) n"
  shows "parses E str m (parse_args1 n)" "parses E str m (parse_args3 n)" "parses E str m (parse_args4 n)"
  unfolding parse_args1_def parse_args3_def parse_args4_def
  using assms by (intro body_rules; auto)+

lemma body_args2_name [body_rules]:
  assumes "strict_text E str" and "good_parse str P" and "E OutOfFuel \<or> toks_left P \<le> m" and "\<And>T. parse_body E str P m (k T)"
  shows "parse_body E str P m (args2_name P T k)"
  unfolding args2_name_def using assms
  by (intro body_call[OF parses_leaves(5)] body_gets) (auto intro!: body_rules intro: body_mono[OF assms(4)] body_load[OF assms(2,3,4)])

lemma body_args2_mult [body_rules]:
  assumes "strict_text E str" and "good_parse str P" and "fuel3 E (3 * m + 3) n" and "\<And>T. parse_body E str P m (k T)"
  shows "parse_body E str P m (args2_mult n P T k)"
  unfolding args2_mult_def using assms
  by (intro body_save body_call[OF parses_simple_terms(2)] body_gets)
    (auto intro!: body_rules intro: body_mono[OF assms(4)] body_load[OF _ _ assms(4)])

lemma parses_args2_step:
  assumes "strict_text E str" and "E OutOfFuel \<or> 0 < m \<Longrightarrow> parses E str (m - Suc 0) (parse_args n)" and "fuel3 E (3 * m + 3) n"
  shows "parses E str m (parse_args2 (Suc n))"
  unfolding parse_args2.simps
proof (rule parses_init, goal_cases)
  case (1 P T)
  have args: "parses E str k (parse_args n)" if "E OutOfFuel \<or> k < toks_left P" for k
    using that 1(2) assms(2) by (auto elim!: parses_mono)
  show ?case
    using 1 assms by (intro body_rules args) auto
qed

lemma parses_args_step:
  assumes "strict_text E str" and "parses E str m (parse_args2 n)" and "fuel3 E (3 * m + 3) n"
  shows "parses E str m (parse_args (Suc n))"
  unfolding parse_args.simps
proof (rule parses_init, goal_cases)
  case (1 P T)
  have "parses E str (toks_left P) (parse_args2 n)" using 1(2) assms(2) by (auto elim!: parses_mono)
  with 1 assms(1,3) show ?case by (intro body_rules) auto
qed

lemma parses_arguments:
  assumes "strict_text E str"
  shows "(fuel3 E (3 * m + 5) n \<longrightarrow> parses E str m (parse_args2 n)) \<and>
    (fuel3 E (3 * m + 6) n \<longrightarrow> parses E str m (parse_args n))"
proof (induction n arbitrary: m)
  case 0
  have "\<not> fuel3 E (3 * m + 5) 0 \<or> E OutOfFuel" by simp
  then show ?case using parses_out[of E str m] unfolding parse_args2.simps parse_args.simps by fastforce
next
  case (Suc n)
  have "parses E str m (parse_args2 (Suc n))" if "fuel3 E (3 * m + 5) (Suc n)"
    using that Suc.IH[of "m - Suc 0"] by (intro parses_args2_step[OF assms]) auto
  moreover have "parses E str m (parse_args (Suc n))" if "fuel3 E (3 * m + 6) (Suc n)"
    using that Suc.IH[of m] by (intro parses_args_step[OF assms]) auto
  ultimately show ?case by blast
qed

lemma parses_args [body_rules]:
  "strict_text E str \<Longrightarrow> fuel3 E (3 * m + 6) n \<Longrightarrow> parses E str m (parse_args n)"
  using parses_arguments by blast

lemma parses_opt_args [body_rules]:
  "strict_text E str \<Longrightarrow> fuel3 E (3 * m + 3) n \<Longrightarrow> parses E str m (parse_opt_args n)"
  unfolding parse_opt_args_def by (intro body_rules) auto

lemma parses_final_decl [body_rules]: "strict_text E str \<Longrightarrow> parses E str m parse_final_decl"
  unfolding parse_final_decl_def by (intro body_rules) auto

lemma parses_partial_app_decl [body_rules]:
  "strict_text E str \<Longrightarrow> fuel3 E (3 * m + 6) n \<Longrightarrow> parses E str m (parse_partial_app_decl n)"
  unfolding parse_partial_app_decl_def by (intro body_rules) auto

lemma parses_result_type [body_rules]:
  "strict_text E str \<Longrightarrow> fuel3 E (3 * m + 6) n \<Longrightarrow> parses E str m (parse_result_type n)"
  unfolding parse_result_type_def by (intro body_rules) auto

subsection \<open>Declarations and programs\<close>

lemma body_open_brace:
  assumes "strict_text E str" and "E OutOfFuel \<or> 0 < m \<Longrightarrow> parse_body E str P (m - Suc 0) k1" and "parse_body E str P m k2"
  shows "parse_body E str P m (bind (gets (LEX_CHAR c)) (\<lambda>b. if b then bind parse_lex (\<lambda>_. k1) else k2))"
proof (intro bodyI)
  fix t assume t: "lex_inv str t" "toks_within E m t"
  have "post E (bind parse_lex (\<lambda>_. k1)) (parse_returns E str P) t" if "LEX_CHAR c t"
  proof (rule post_bindI[OF parse_lex_next[OF assms(1) t(1)]])
    fix u assume u: "lex_inv str u \<and> (E OutOfFuel \<or> (0 < toks_left (parse t) \<longrightarrow> toks_left (parse u) < toks_left (parse t)))"
    have "0 < toks_left (parse t)"
      using that toks_pos[of str "parse t"] t(1)
      by (auto simp: LEX_CHAR_def Let_def lex_inv_def split: lexptr.splits)
    with u t(2) have "toks_within E (m - Suc 0) u" "E OutOfFuel \<or> 0 < m" by (auto simp: toks_within_def)
    with u assms(2) show "post E k1 (parse_returns E str P) u" by (simp add: parse_body_def)
  qed
  with t assms(3) show "post E (bind (gets (LEX_CHAR c)) (\<lambda>b. if b then bind parse_lex (\<lambda>_. k1) else k2)) (parse_returns E str P) t"
    unfolding post_gets by (auto simp: parse_body_def)
qed

lemma body_opt_args_loop [body_rules]:
  assumes "strict_text E str" and "good_parse str P" and "fuel3 E (3 * m + 6) f"
    and "\<And>T. parse_body E str P m (k T)" and "fuel_for E m n"
  shows "parse_body E str P m (opt_args_loop f n P T k)"
  using assms(3-)
proof (induction n arbitrary: m T)
  case 0
  then have "E OutOfFuel" by simp
  then show ?case unfolding opt_args_loop.simps by (rule body_out)
next
  case (Suc n)
  have "parse_body E str P (m - Suc 0 - Suc 0 - Suc 0) (opt_args_loop f n P T k)" if "E OutOfFuel \<or> 0 < m" for T
    using that Suc.prems by (intro Suc.IH) (auto intro: body_mono[OF Suc.prems(2)])
  then show ?case
    unfolding opt_args_loop.simps using Suc.prems(1)
    by (intro body_open_brace body_rules assms(1,2) Suc.prems(2)) auto
qed

lemma parses_declarations [body_rules]:
  assumes "strict_text E str"
  shows "parses E str m parse_builtin_combinator_decl"
    and "fuel3 E (3 * m + 6) n \<Longrightarrow> parses E str m (parse_combinator_decl n)"
  unfolding parse_builtin_combinator_decl_def parse_combinator_decl_def
  using assms by (intro body_rules; auto)+

lemma parses_declaration [body_rules]:
  "strict_text E str \<Longrightarrow> fuel3 E (3 * m + 6) n \<Longrightarrow> parses E str m (parse_declaration n)"
  unfolding parse_declaration_def by (intro body_rules) auto

lemma body_declarations_loop [body_rules]:
  assumes "strict_text E str" and "good_parse str P" and "fuel3 E (3 * m + 6) f" and "fuel_for E m n"
    and "E OutOfFuel \<or> m \<le> toks_left P"
  shows "parse_body E str P m (declarations_loop f n P T)"
  using assms(3-)
proof (induction n arbitrary: m T)
  case 0
  then have "E OutOfFuel" by simp
  then show ?case unfolding declarations_loop.simps by (rule body_out)
next
  case (Suc n)
  have "parse_body E str P (m - Suc 0 - Suc 0) (declarations_loop f n P T)" if "E OutOfFuel \<or> 0 < m - Suc 0" for T
    using that Suc.prems by (intro Suc.IH) auto
  then show ?case
    unfolding declarations_loop.simps using Suc.prems
    by (intro body_rules assms(1,2)) auto
qed

definition section_returns :: "(fault \<Rightarrow> bool) \<Rightarrow> string \<Rightarrow> parse \<Rightarrow> tree option \<Rightarrow> lexst \<Rightarrow> bool" where
  "section_returns E str P r t \<longleftrightarrow> lex_inv str t \<and>
     (case r of None \<Rightarrow> parse t = P | Some _ \<Rightarrow> E OutOfFuel \<or> toks_left (parse t) \<le> toks_left P)"

lemma sections_return:
  assumes "strict_text E str" and "lex_inv str s" and "fuel3 E (3 * toks_left (parse s) + 6) n"
  shows "post E (parse_constr_declarations n) (section_returns E str (parse s)) s"
    and "post E (parse_fun_declarations n) (section_returns E str (parse s)) s"
proof -
  have good: "good_parse str (parse s)" using assms(2) by (simp add: lex_inv_def)
  have *: "post E (declarations_loop n n (parse s) T) (section_returns E str (parse s)) s" for T
  proof (rule post_mono)
    have "parse_body E str (parse s) (toks_left (parse s)) (declarations_loop n n (parse s) T)"
      using assms(3) by (intro body_declarations_loop[OF assms(1) good]) auto
    then show "post E (declarations_loop n n (parse s) T) (parse_returns E str (parse s)) s"
      using assms(2) by (simp add: parse_body_def toks_within_def)
  qed (auto simp: parse_returns_def section_returns_def split: option.splits)
  show "post E (parse_constr_declarations n) (section_returns E str (parse s)) s"
    and "post E (parse_fun_declarations n) (section_returns E str (parse s)) s"
    using * assms(2)
    by (auto simp: parse_constr_declarations_def parse_fun_declarations_def PARSE_INIT_def save_parse_def post_gets
        PARSE_OK_def post_simps section_returns_def)
qed

lemma section_mark_next:
  assumes "strict_text E str" and "lex_inv str s"
  shows "post E (section_mark w) (\<lambda>ok t. lex_inv str t \<and> (ok \<longrightarrow> E OutOfFuel \<or> toks_left (parse t) < toks_left (parse s))) s"
proof -
  let ?Q = "\<lambda>ok t. lex_inv str t \<and> (ok \<longrightarrow> E OutOfFuel \<or> toks_left (parse t) < toks_left (parse s))"
  have step: "post E (bind (expect v) (\<lambda>a. if \<not> a then ret False else m)) ?Q t"
    if "lex_inv str t" "\<And>u. lex_inv str u \<Longrightarrow> E OutOfFuel \<or> toks_left (parse u) < toks_left (parse t) \<Longrightarrow> post E m ?Q u" for t v m
    using that by (intro post_bindI[OF expect_next[OF assms(1)]]) (auto simp: expect_returns_def post_simps)
  have last: "post E (expect v) ?Q t" if "lex_inv str t" "E OutOfFuel \<or> toks_left (parse t) < toks_left (parse s)" for v t
    using that by (intro post_mono[OF expect_next[OF assms(1)]]) (auto simp: expect_returns_def)
  show ?thesis
    unfolding section_mark_def post_gets
    using assms(2) by (intro post_ifI step last) (auto simp: post_simps)
qed

definition program_returns :: "string \<Rightarrow> parse \<Rightarrow> tree option \<Rightarrow> lexst \<Rightarrow> bool" where
  "program_returns str P r t \<longleftrightarrow> lex_inv str t \<and> (r = None \<longrightarrow> parse t = P)"

lemma PARSE_FAIL_restored:
  "good_parse str P \<Longrightarrow> lex_inv str s \<Longrightarrow> post E (PARSE_FAIL P) (program_returns str P) s"
  unfolding PARSE_FAIL_def
  by (intro post_bindI[OF load_parse_back[of str]]) (auto simp: post_simps program_returns_def)

lemma try_section:
  assumes "post E p (section_returns E str (parse s)) s" and "good_parse str P" 
    and "\<And>T u. lex_inv str u \<Longrightarrow> E OutOfFuel \<or> toks_left (parse u) \<le> toks_left (parse s) \<Longrightarrow> post E (k T) (program_returns str P) u"
  shows "post E (PARSE_TRY_PES p P T k) (program_returns str P) s"
  unfolding PARSE_TRY_PES_def using assms(2,3)
  by (intro post_bindI[OF assms(1)]) (auto simp: section_returns_def split: option.splits intro: PARSE_FAIL_restored)

lemma after_section:
  assumes "strict_text E str" and "good_parse str P" and "lex_inv str s"
    and "\<And>u. lex_inv str u \<Longrightarrow> E OutOfFuel \<or> toks_left (parse u) < toks_left (parse s) \<Longrightarrow> post E k (program_returns str P) u"
  shows "post E (bind (gets cur_type) (\<lambda>t. if t = lex_eof then PARSE_OK T
     else bind (section_mark w) (\<lambda>ok. if \<not> ok then PARSE_FAIL P else k))) (program_returns str P) s"
  unfolding post_gets using assms
  by (intro post_ifI post_bindI[OF section_mark_next[OF assms(1)]])
    (auto simp: PARSE_OK_def post_simps(1) program_returns_def[of _ _ "Some _"] intro: PARSE_FAIL_restored)

lemma program_loop_restored:
  assumes "strict_text E str" and "good_parse str P" and "lex_inv str s"
    and "fuel3 E (3 * toks_left (parse s) + 6) f" and "fuel_for E (toks_left (parse s)) n"
  shows "post E (program_loop f n P T) (program_returns str P) s"
  using assms(3-)
proof (induction n arbitrary: s T)
  case 0
  then have "E OutOfFuel" by simp
  then show ?case unfolding program_loop.simps post_simps .
next
  case (Suc n)
  show ?case
    unfolding program_loop.simps
    by (intro try_section[OF sections_return(1)[OF assms(1)] assms(2)] try_section[OF sections_return(2)[OF assms(1)] assms(2)]
        after_section[OF assms(1,2)] Suc.IH)
      (use Suc.prems in auto)
qed

lemma parse_program_restored:
  assumes "strict_text E str" and "lex_inv str s" and "fuel3 E (3 * toks_left (parse s) + 6) n"
  shows "post E (parse_program n) (program_returns str (parse s)) s"
proof -
  have "good_parse str (parse s)" using assms(2) by (simp add: lex_inv_def)
  then show ?thesis
    unfolding parse_program_def PARSE_INIT_def save_parse_def post_gets
    using assms by (intro program_loop_restored) auto
qed

lemma tl_init_parse_file_start:
  assumes "tl_init_parse_file (Some str) = Some P"
  shows "post E (load_parse P) (\<lambda>_ t. lex_inv str t \<and> parse t = P) (initial_lexst P)"
  using assms
  by (auto simp: tl_init_parse_file_def load_parse_def post_simps initial_lexst_def text_at_def post_def bind_apply
      lex_inv_def good_parse_def lex_ok_defs token_ok_def line_at_def col_at_def split: if_splits)

lemma tl_parse_lex_ends:
  assumes "strict_text E str" and "tl_init_parse_file (Some str) = Some P" and "fuel3 E (3 * length str + 6) n"
  shows "post E (tl_parse_lex n P) (\<lambda>_. lex_inv str) (initial_lexst P)"
proof -
  have toks_left: "toks_left (parse t) \<le> length str" if "lex_inv str t" for t
    using that by (auto simp: lex_inv_def good_parse_def place_ok_def toks_left_def split: lexptr.splits)
  have lexed: "post E (if t = lex_none then bind parse_lex (\<lambda>_. ret ()) else ret ()) (\<lambda>_. lex_inv str) u"
    if "lex_inv str u" for t u
    using that by (intro post_ifI post_bindI[OF parse_lex_next[OF assms(1)]]) (auto simp: post_simps)
  have "post E (if t = lex_error then ret None else parse_program n) (\<lambda>_. lex_inv str) u" if "lex_inv str u" for t u
    using that toks_left[OF that] assms(3)
    by (intro post_ifI post_mono[OF parse_program_restored[OF assms(1)]]) (auto simp: post_simps program_returns_def)
  then show ?thesis
    unfolding tl_parse_lex_def
    by (intro post_bindI[OF tl_init_parse_file_start[OF assms(2)]], unfold post_gets, intro post_bindI[OF lexed]) (auto simp: post_gets)
qed

subsection \<open>Concrete runs\<close>

lemma start_lex_inv: "str \<noteq> [] \<Longrightarrow> lex_inv str (start_lexst str)"
  using start_lexst_ok[of str] by (simp add: lex_inv_def good_parse_def lex_ok_def token_ok_def start_lexst_def)

lemma at_sign_run:
  "\<exists>t. tl_parse_lex n \<lparr>ptext = '' @'', ppos = 0, plen = 2, pline = 0, pline_pos = 0,
      plex = \<lparr>lptr = PText 0, llen = 0, ltype = lex_none, lflags = 0\<rparr>\<rparr>
    (initial_lexst \<lparr>ptext = '' @'', ppos = 0, plen = 2, pline = 0, pline_pos = 0,
      plex = \<lparr>lptr = PText 0, llen = 0, ltype = lex_none, lflags = 0\<rparr>\<rparr>) = Inr (None, t) \<and>
   last_error t = Some ''Unknown lexem'' \<and> last_error_pos t = 1"
  by (simp add: tl_parse_lex_def initial_lexst_def load_parse_def text_at_def bind_apply parse_lex_def nextch_def
      lex_fail_def parse_error_def set_lex_def blank_def is_whitespace_def is_punct_def is_letter_def is_uletter_def
      is_lletter_def is_digit_def schar_def eval_nat_numeral)

lemma fails_at_start: "parse_leaf t ok e (start_lexst str) = Inr (None, start_lexst str)"
  if "str \<noteq> []" "\<not> ok (start_lexst str)"
  using that by (simp add: parse_leaf_def PARSE_INIT_def save_parse_def parse_error_def PARSE_FAIL_def load_parse_def
      text_at_def start_lexst_def bind_apply hd_conv_nth)

lemma expect_at_start: "expect w (start_lexst str) = Inr (False, start_lexst str)"
  by (simp add: expect_def start_lexst_def parse_error_def bind_apply)

lemma start_run: "parse_declaration n (start_lexst ''a'') = Inr (None, start_lexst ''a'')"
proof -
  have load: "load_parse (parse (start_lexst ''a'')) (start_lexst ''a'') = Inr ((), start_lexst ''a'')"
    by (simp add: load_parse_def start_lexst_def text_at_def)
  have "cur_type (start_lexst ''a'') = lex_none" "\<And>c. \<not> LEX_CHAR c (start_lexst ''a'')"
    by (simp_all add: start_lexst_def LEX_CHAR_def)
  note leaf = fails_at_start[of "''a''"] expect_at_start this load
  show ?thesis
    by (simp add: leaf parse_declaration_def parse_combinator_decl_def parse_partial_app_decl_def parse_final_decl_def
        parse_builtin_combinator_decl_def parse_partial_type_app_decl_def parse_partial_comb_app_decl_def
        parse_full_combinator_id_def parse_boxed_type_ident_def parse_combinator_id_def
        parse_final_new_def parse_final_final_def parse_final_empty_def
        PARSE_INIT_def save_parse_def PARSE_TRY_OPT_def PARSE_TRY_PES_def PARSE_FAIL_def EXPECT_def bind_apply)
qed

subsection \<open>Properties\<close>

lemma tl_parse_lex_returns:
  assumes "tl_init_parse_file (Some str) = Some P" and "ends_nl str" and "3 * length str + 6 \<le> n"
  shows "\<exists>r t. tl_parse_lex n P (initial_lexst P) = Inr (r, t) \<and> lex_ok str t"
  using post_total[OF tl_parse_lex_ends[of "\<lambda>_. False" str P n]] assms
  by (auto simp: strict_text_def lex_inv_def)

text \<open>
  C11: The parser always returns on a file that ends with a newline: three times its length plus six is
  enough fuel for every recursion and loop of the parser, no function reads outside the text, and the
  lexer's invariant holds at the end. Files without a final newline are excluded because on some of
  them the C code loops forever or reads behind the text.
\<close>

theorem tl_parse_lex_total:
  assumes "tl_init_parse_file (Some str) = Some P" and "ends_nl str" and "3 * length str + 6 \<le> n"
  shows "\<exists>r t. tl_parse_lex n P (initial_lexst P) = Inr (r, t) \<and> lex_ok str t"
  using assms by (rule tl_parse_lex_returns)

theorem tl_parse_lex_total_witness:
  "\<exists>P. tl_init_parse_file (Some (''a b:(%c)=D;'' @ [NL])) = Some P \<and>
    (\<exists>r t. tl_parse_lex 42 P (initial_lexst P) = Inr (r, t) \<and> lex_ok (''a b:(%c)=D;'' @ [NL]) t)"
proof -
  obtain P where P: "tl_init_parse_file (Some (''a b:(%c)=D;'' @ [NL])) = Some P"
    by (simp add: tl_init_parse_file_def)
  from tl_parse_lex_total[OF this, of 42] P show ?thesis by (simp add: ends_nl_def)
qed



text \<open>
  C33: Backtracking: a declaration that cannot be parsed leaves the parser's position, line, column and
  current token as they were.
\<close>

theorem parse_declaration_backtracks:
  assumes "lex_inv str s" and "parse_declaration n s = Inr (None, t)"
  shows "parse t = parse s \<and> lex_inv str t"
proof -
  have "parses (\<lambda>_. True) str (toks_left (parse s)) (parse_declaration n)"
    by (rule parses_declaration) (simp_all add: strict_text_def)
  then have "post (\<lambda>_. True) (parse_declaration n) (parse_returns (\<lambda>_. True) str (parse s)) s"
    using assms(1) by (simp add: parses_def toks_within_def)
  from post_Inr[OF this assms(2)] show ?thesis by (simp add: parse_returns_def)
qed

theorem parse_declaration_backtracks_witness:
  "\<exists>t. parse_declaration 9 (start_lexst ''a'') = Inr (None, t) \<and> parse t = parse (start_lexst ''a'')"
  using parse_declaration_backtracks[OF start_lex_inv start_run] start_run by simp

end
