(* ===== verification/TL_Registry.thy ===== *)
theory TL_Registry
  imports TL_Treap TL_Parser
begin

section \<open>Global tables of the compiler (tl-parser.c, lines 944-1318)\<close>

text \<open>
  The state of the semantic pass: an explicit store for the objects the code shares through
  pointers (combinator-tree nodes, types, combinators, variables), the treaps that index
  them, the nested name spaces, the text buffer and the counters. Addresses come from one
  counter, 0 is the null pointer, \<open>-1\<close> and \<open>-2\<close> are the sentinels of the code. Dereferencing
  anything that is not allocated is a fault. What the C library decides is part of the
  state and arbitrary: \<open>lrand48\<close> is a sequence of numbers, and the bytes a \<open>malloc\<close> leaves in
  a field that is not initialised are \<open>junk\<close>,
  the bytes behind a string literal are \<open>rodata\<close>. Messages to standard error are logged.
\<close>

unbundle bit_operations_syntax

type_synonym addr = int

subsection \<open>Objects\<close>

datatype combinator_tree_action =
    act_var | act_field | act_plus | act_type | act_nat_const | act_array | act_question_mark
  | act_union | act_arg | act_opt_field

datatype combinator_tree_type = type_num | type_num_value | type_type | type_list_item | type_list

text \<open>The \<open>void *data\<close> of a node: null, a name, a type, another node, or \<open>(void *)-1l\<close>.\<close>

datatype cdata = DNull | DStr string | DType addr | DNode addr | DMinus1

record cnode =
  act :: combinator_tree_action
  left :: addr
  right :: addr
  data :: cdata
  flags :: u64
  ctype :: combinator_tree_type
  type_len :: int
  type_flags :: u64

record tl_type =
  ty_id :: string
  ty_print_id :: string
  ty_real_id :: "string option"
  ty_name :: u32
  ty_flags :: u32
  params_num :: int
  params_types :: u64
  constructors :: "addr list"

record tl_constructor =
  c_id :: string
  c_print_id :: string
  c_real_id :: "string option"
  c_name :: u32
  c_type :: addr
  c_left :: addr
  c_right :: addr

record tl_var =
  v_id :: string
  v_ptr :: addr
  v_type :: int
  v_flags :: u32

record tl_var_value =
  vv_ptr :: addr
  vv_val :: addr
  vv_num :: u32

record tlst =
  nodes :: "addr \<Rightarrow> cnode option"
  types :: "addr \<Rightarrow> tl_type option"
  combs :: "addr \<Rightarrow> tl_constructor option"
  varobjs :: "addr \<Rightarrow> tl_var option"
  brk :: addr
  tl_type_tree :: "addr treap"
  tl_constructor_tree :: "addr treap"
  tl_function_tree :: "addr treap"
  total_types_num :: int
  total_constructors_num :: int
  total_functions_num :: int
  namespace_level :: int
  vars :: "int \<Rightarrow> addr treap"
  field_tab :: "int \<Rightarrow> string treap"
  last_num_var :: "int \<Rightarrow> addr"
  buf :: string
  tl_ok :: bool
  lrand48_seq :: "nat \<Rightarrow> int"
  lrand48_count :: nat
  junk :: "addr \<Rightarrow> u64"
  rodata :: "string \<Rightarrow> nat \<Rightarrow> char"
  output_expressions :: int
  log :: "string list"

type_synonym 'a tl = "(tlst, 'a) comp"

definition FLAG_EXCL :: u64 where "FLAG_EXCL = push_bit 18 1"
definition FLAG_OPT_VAR :: u64 where "FLAG_OPT_VAR = push_bit 17 1"
definition FLAG_OPT_FIELD :: u64 where "FLAG_OPT_FIELD = push_bit 20 1"
definition FLAG_IS_VAR :: u64 where "FLAG_IS_VAR = push_bit 21 1"
definition FLAG_DEFAULT_CONSTRUCTOR :: u32 where "FLAG_DEFAULT_CONSTRUCTOR = push_bit 25 1"
definition FLAG_EMPTY :: u32 where "FLAG_EMPTY = push_bit 10 1"

text \<open>\<open>namespace_level\<close> and the indexed globals are zero-initialised.\<close>

definition initial_tlst ::
  "(nat \<Rightarrow> int) \<Rightarrow> (addr \<Rightarrow> u64) \<Rightarrow> (string \<Rightarrow> nat \<Rightarrow> char) \<Rightarrow> int \<Rightarrow> tlst" where
  "initial_tlst rs js rd oe =
     \<lparr>nodes = (\<lambda>_. None), types = (\<lambda>_. None), combs = (\<lambda>_. None), varobjs = (\<lambda>_. None),
      brk = 1, tl_type_tree = TNil, tl_constructor_tree = TNil, tl_function_tree = TNil,
      total_types_num = 0, total_constructors_num = 0, total_functions_num = 0,
      namespace_level = 0, vars = (\<lambda>_. TNil), field_tab = (\<lambda>_. TNil), last_num_var = (\<lambda>_. 0),
      buf = [], tl_ok = False, lrand48_seq = rs, lrand48_count = 0, junk = js, rodata = rd,
      output_expressions = oe, log = []\<rparr>"

subsection \<open>Access\<close>

definition deref :: "(tlst \<Rightarrow> addr \<Rightarrow> 'a option) \<Rightarrow> addr \<Rightarrow> 'a tl" where
  "deref h p = (\<lambda>s. case h s p of None \<Rightarrow> Inl NullDeref | Some x \<Rightarrow> Inr (x, s))"

abbreviation node :: "addr \<Rightarrow> cnode tl" where "node \<equiv> deref nodes"
abbreviation tyobj :: "addr \<Rightarrow> tl_type tl" where "tyobj \<equiv> deref types"
abbreviation comb :: "addr \<Rightarrow> tl_constructor tl" where "comb \<equiv> deref combs"
abbreviation varobj :: "addr \<Rightarrow> tl_var tl" where "varobj \<equiv> deref varobjs"

definition upd_node :: "addr \<Rightarrow> (cnode \<Rightarrow> cnode) \<Rightarrow> unit tl" where
  "upd_node p f = bind (node p) (\<lambda>x. modify (\<lambda>s. s\<lparr>nodes := (nodes s)(p \<mapsto> f x)\<rparr>))"

definition upd_type :: "addr \<Rightarrow> (tl_type \<Rightarrow> tl_type) \<Rightarrow> unit tl" where
  "upd_type p f = bind (tyobj p) (\<lambda>x. modify (\<lambda>s. s\<lparr>types := (types s)(p \<mapsto> f x)\<rparr>))"

definition upd_comb :: "addr \<Rightarrow> (tl_constructor \<Rightarrow> tl_constructor) \<Rightarrow> unit tl" where
  "upd_comb p f = bind (comb p) (\<lambda>x. modify (\<lambda>s. s\<lparr>combs := (combs s)(p \<mapsto> f x)\<rparr>))"

definition upd_var :: "addr \<Rightarrow> (tl_var \<Rightarrow> tl_var) \<Rightarrow> unit tl" where
  "upd_var p f = bind (varobj p) (\<lambda>x. modify (\<lambda>s. s\<lparr>varobjs := (varobjs s)(p \<mapsto> f x)\<rparr>))"

definition new_node :: "cnode \<Rightarrow> addr tl" where
  "new_node x = (\<lambda>s. Inr (brk s, s\<lparr>nodes := (nodes s)(brk s \<mapsto> x), brk := brk s + 1\<rparr>))"

definition new_type :: "tl_type \<Rightarrow> addr tl" where
  "new_type x = (\<lambda>s. Inr (brk s, s\<lparr>types := (types s)(brk s \<mapsto> x), brk := brk s + 1\<rparr>))"

definition new_comb :: "tl_constructor \<Rightarrow> addr tl" where
  "new_comb x = (\<lambda>s. Inr (brk s, s\<lparr>combs := (combs s)(brk s \<mapsto> x), brk := brk s + 1\<rparr>))"

definition new_varobj :: "tl_var \<Rightarrow> addr tl" where
  "new_varobj x = (\<lambda>s. Inr (brk s, s\<lparr>varobjs := (varobjs s)(brk s \<mapsto> x), brk := brk s + 1\<rparr>))"

text \<open>\<open>lrand48\<close>; the priority parameter of the treaps is an \<open>int\<close>.\<close>

definition lrand48 :: "int tl" where
  "lrand48 = (\<lambda>s. Inr (lrand48_seq s (lrand48_count s), s\<lparr>lrand48_count := Suc (lrand48_count s)\<rparr>))"

definition tl_error :: "string \<Rightarrow> unit tl" where
  "tl_error e = modify (\<lambda>s. s\<lparr>log := e # log s\<rparr>)"

definition at_level :: "(tlst \<Rightarrow> int \<Rightarrow> 'a) \<Rightarrow> int \<Rightarrow> 'a tl" where
  "at_level h i = (\<lambda>s. if 0 \<le> i \<and> i < 10 then Inr (h s i, s) else Inl OutOfBounds)"

subsection \<open>Strings\<close>

text \<open>
  \<open>strncmp (b, a, len)\<close> for a token \<open>b\<close> of \<open>len\<close> bytes and a literal \<open>a\<close>, by its sign; then
  \<open>a[len]\<close>, which lies behind the literal when the token is longer (\<open>rodata\<close>).
\<close>

definition literal_byte :: "(string \<Rightarrow> nat \<Rightarrow> char) \<Rightarrow> string \<Rightarrow> nat \<Rightarrow> char" where
  "literal_byte rd a n =
     (if n < length a then a ! n else if n = length a then CHR 0x00 else rd a n)"

definition mystrcmp2 :: "string \<Rightarrow> string \<Rightarrow> int tl" where
  "mystrcmp2 b a =
     (let n = length b; c = strcmp b (take n a) in
      if c \<noteq> 0 then gets (\<lambda>s. if literal_byte (rodata s) a n \<noteq> CHR 0x00 then -1 else 0)
      else ret c)"

text \<open>\<open>mystrdup (T->text, T->len)\<close>\<close>

definition tree_word :: "tree \<Rightarrow> string" where
  "tree_word T = take (tree_len T) (tree_text T)"

definition print_id_of :: "string \<Rightarrow> string" where
  "print_id_of w = map (\<lambda>c. if c = CHR ''.'' \<or> c = CHR ''#'' \<or> c = CHR '' '' then CHR ''$'' else c) w"

subsection \<open>Variable bindings\<close>

definition var_value_cmp :: "addr \<Rightarrow> addr \<Rightarrow> int" where
  "var_value_cmp a b = sint (word_of_int (a - b) :: u32)"

definition vv_find :: "tl_var_value treap \<Rightarrow> addr \<Rightarrow> tl_var_value option" where
  "vv_find V var = tree_lookup (probe var_value_cmp vv_ptr var) V"

definition tl_set_var_value_num ::
  "tl_var_value treap \<Rightarrow> addr \<Rightarrow> addr \<Rightarrow> u64 \<Rightarrow> tl_var_value treap tl" where
  "tl_set_var_value_num V var val n =
     (let t = \<lparr>vv_ptr = var, vv_val = val, vv_num = ucast n\<rparr>;
          present = (case vv_find V var of None \<Rightarrow> False | Some r \<Rightarrow> vv_ptr r \<noteq> 0)
      in bind (if present then lift (tree_delete (probe var_value_cmp vv_ptr var) V) else ret V) (\<lambda>V.
         bind lrand48 (\<lambda>y.
         lift (tree_insert (probe var_value_cmp vv_ptr var) V t y))))"

definition tl_set_var_value :: "tl_var_value treap \<Rightarrow> addr \<Rightarrow> addr \<Rightarrow> tl_var_value treap tl" where
  "tl_set_var_value V var val = tl_set_var_value_num V var val 0"

definition tl_get_var_value :: "tl_var_value treap \<Rightarrow> addr \<Rightarrow> addr" where
  "tl_get_var_value V var =
     (case vv_find V var of None \<Rightarrow> 0 | Some r \<Rightarrow> if vv_ptr r \<noteq> 0 then vv_val r else 0)"

definition tl_get_var_value_num :: "tl_var_value treap \<Rightarrow> addr \<Rightarrow> u32" where
  "tl_get_var_value_num V var =
     (case vv_find V var of None \<Rightarrow> 0 | Some r \<Rightarrow> if vv_ptr r \<noteq> 0 then vv_num r else 0)"

subsection \<open>Fields, variables and name spaces\<close>

definition is_upper_byte :: "char \<Rightarrow> bool" where
  "is_upper_byte c \<longleftrightarrow> schar (CHR ''A'') \<le> schar c \<and> schar c \<le> schar (CHR ''Z'')"

text \<open>The loop of \<open>tl_is_type_name\<close>: the character after the last inner dot decides.\<close>

fun last_part_upper :: "bool \<Rightarrow> string \<Rightarrow> bool" where
  "last_part_upper ok (c # d # cs) =
     last_part_upper (if c = CHR ''.'' then is_upper_byte d else ok) (d # cs)"
| "last_part_upper ok _ = ok"

definition tl_is_type_name :: "tree \<Rightarrow> bool" where
  "tl_is_type_name T =
     (let w = tree_word T in
      if tree_len T = 1 \<and> w = ''#'' then True
      else last_part_upper (case tree_text T of [] \<Rightarrow> False | c # _ \<Rightarrow> is_upper_byte c) w)"

definition tl_add_field :: "string \<Rightarrow> bool tl" where
  "tl_add_field w =
     bind (gets namespace_level) (\<lambda>n.
     bind (check (n < 10)) (\<lambda>_.
     bind (check (0 \<le> n)) (\<lambda>_.
     bind (at_level field_tab n) (\<lambda>F.
     if tree_lookup (probe strcmp id w) F \<noteq> None then ret False
     else
       bind lrand48 (\<lambda>y.
       bind (lift (tree_insert (probe strcmp id w) F w y)) (\<lambda>F.
       bind (modify (\<lambda>s. s\<lparr>field_tab := (field_tab s)(n := F)\<rparr>)) (\<lambda>_.
       ret True)))))))"

definition tl_clear_fields :: "unit tl" where
  "tl_clear_fields =
     bind (gets namespace_level) (\<lambda>n.
     bind (at_level field_tab n) (\<lambda>F.
     modify (\<lambda>s. s\<lparr>field_tab := (field_tab s)(n := tree_clear F)\<rparr>)))"

definition var_key :: "tlst \<Rightarrow> addr \<Rightarrow> string" where
  "var_key s v = (case varobjs s v of None \<Rightarrow> [] | Some x \<Rightarrow> v_id x)"

definition tl_add_var :: "string \<Rightarrow> addr \<Rightarrow> int \<Rightarrow> addr tl" where
  "tl_add_var w ptr t =
     bind (new_varobj \<lparr>v_id = w, v_ptr = ptr, v_type = t, v_flags = 0\<rparr>) (\<lambda>v.
     bind (gets namespace_level) (\<lambda>n.
     bind (at_level vars n) (\<lambda>T.
     bind (gets var_key) (\<lambda>key.
     if tree_lookup (probe strcmp key w) T \<noteq> None then ret 0
     else
       bind lrand48 (\<lambda>y.
       bind (lift (tree_insert (probe strcmp key w) T v y)) (\<lambda>T.
       bind (modify (\<lambda>s. s\<lparr>vars := (vars s)(n := T),
               last_num_var := (if t \<noteq> 0 then (last_num_var s)(n := v) else last_num_var s)\<rparr>)) (\<lambda>_.
       ret v)))))))"

definition tl_del_var :: "addr \<Rightarrow> unit tl" where
  "tl_del_var v = modify (\<lambda>s. s\<lparr>varobjs := (varobjs s)(v := None)\<rparr>)"

definition tl_clear_vars :: "unit tl" where
  "tl_clear_vars =
     bind (gets namespace_level) (\<lambda>n.
     bind (at_level vars n) (\<lambda>T.
     bind (tree_act T tl_del_var) (\<lambda>_.
     modify (\<lambda>s. s\<lparr>vars := (vars s)(n := tree_clear T), last_num_var := (last_num_var s)(n := 0)\<rparr>))))"

definition tl_get_last_num_var :: "addr tl" where
  "tl_get_last_num_var = bind (gets namespace_level) (at_level last_num_var)"

text \<open>The search from the innermost name space outwards, lines 1082-1088.\<close>

primrec search_levels :: "tlst \<Rightarrow> string \<Rightarrow> nat \<Rightarrow> addr" where
  "search_levels s w 0 =
     (case tree_lookup (probe strcmp (var_key s) w) (vars s 0) of Some v \<Rightarrow> v | None \<Rightarrow> 0)"
| "search_levels s w (Suc i) =
     (case tree_lookup (probe strcmp (var_key s) w) (vars s (int (Suc i))) of
        Some v \<Rightarrow> v | None \<Rightarrow> search_levels s w i)"

definition tl_get_var :: "string \<Rightarrow> addr tl" where
  "tl_get_var w =
     bind (gets namespace_level) (\<lambda>n.
     if n < 0 then ret 0
     else bind (at_level vars n) (\<lambda>_. gets (\<lambda>s. search_levels s w (nat n))))"

definition namespace_push :: "unit tl" where
  "namespace_push =
     bind (modify (\<lambda>s. s\<lparr>namespace_level := namespace_level s + 1\<rparr>)) (\<lambda>_.
     bind (gets namespace_level) (\<lambda>n.
     bind (check (n < 10)) (\<lambda>_.
     bind tl_clear_vars (\<lambda>_. tl_clear_fields))))"

definition namespace_pop :: "unit tl" where
  "namespace_pop =
     bind (modify (\<lambda>s. s\<lparr>namespace_level := namespace_level s - 1\<rparr>)) (\<lambda>_.
     bind (gets namespace_level) (\<lambda>n. check (0 \<le> n)))"

subsection \<open>Types\<close>

definition type_key :: "tlst \<Rightarrow> addr \<Rightarrow> string" where
  "type_key s t = (case types s t of None \<Rightarrow> [] | Some x \<Rightarrow> ty_id x)"

definition tl_get_type :: "string \<Rightarrow> addr tl" where
  "tl_get_type w = gets (\<lambda>s.
     case tree_lookup (probe strcmp (type_key s) w) (tl_type_tree s) of Some t \<Rightarrow> t | None \<Rightarrow> 0)"

definition tl_add_type :: "string \<Rightarrow> int \<Rightarrow> u64 \<Rightarrow> addr tl" where
  "tl_add_type w pn pt =
     bind (tl_get_type w) (\<lambda>r.
     if r \<noteq> 0 then
       bind (tyobj r) (\<lambda>t.
       if 0 \<le> pn \<and> (params_num t \<noteq> pn \<or> params_types t \<noteq> pt) then
         bind (tl_error (''Wrong params_num or types for type '' @ ty_id t)) (\<lambda>_. ret 0)
       else ret r)
     else
       bind (check (pn < 0 \<or> pn \<le> 64)) (\<lambda>_.
       bind (gets (\<lambda>s. junk s (brk s))) (\<lambda>j.
       bind (new_type \<lparr>ty_id = w, ty_print_id = print_id_of w, ty_real_id = None, ty_name = 0,
               ty_flags = (if 0 \<le> pn then 0 else 4), params_num = (if 0 \<le> pn then pn else -1),
               params_types = (if 0 \<le> pn then pt else j), constructors = []\<rparr>) (\<lambda>t.
       bind lrand48 (\<lambda>y.
       bind (gets (\<lambda>s. (type_key s, tl_type_tree s))) (\<lambda>(key, T).
       bind (lift (tree_insert (probe strcmp key w) T t y)) (\<lambda>T.
       bind (modify (\<lambda>s. s\<lparr>tl_type_tree := T, total_types_num := total_types_num s + 1\<rparr>)) (\<lambda>_.
       ret t))))))))"

definition tl_add_type_param :: "addr \<Rightarrow> bool \<Rightarrow> unit tl" where
  "tl_add_type_param t x =
     bind (tyobj t) (\<lambda>r.
     bind (check (ty_flags r AND 4 \<noteq> 0)) (\<lambda>_.
     bind (check (params_num r \<le> 64)) (\<lambda>_.
     if x then
       upd_type t (\<lambda>r. r\<lparr>params_types := params_types r OR push_bit (nat (params_num r)) 1,
                         params_num := params_num r + 1\<rparr>)
     else upd_type t (\<lambda>r. r\<lparr>params_num := params_num r + 1\<rparr>))))"

definition tl_type_set_params :: "addr \<Rightarrow> int \<Rightarrow> u64 \<Rightarrow> bool tl" where
  "tl_type_set_params t x y =
     bind (tyobj t) (\<lambda>r.
     if ty_flags r AND 4 \<noteq> 0 then
       bind (upd_type t (\<lambda>r. r\<lparr>params_num := x, params_types := y, ty_flags := ty_flags r AND NOT 4\<rparr>))
         (\<lambda>_. ret True)
     else if params_num r \<noteq> x \<or> params_types r \<noteq> y then
       bind (tl_error (''Wrong num of params (type '' @ ty_id r @ '')'')) (\<lambda>_. ret False)
     else ret True)"

definition tl_type_finalize :: "addr \<Rightarrow> unit tl" where
  "tl_type_finalize t = upd_type t (\<lambda>r. r\<lparr>ty_flags := ty_flags r AND NOT 4\<rparr>)"

subsection \<open>Constructors and functions\<close>

definition comb_key :: "tlst \<Rightarrow> addr \<Rightarrow> string" where
  "comb_key s c = (case combs s c of None \<Rightarrow> [] | Some x \<Rightarrow> c_id x)"

definition tl_get_constructor :: "string \<Rightarrow> addr tl" where
  "tl_get_constructor w = gets (\<lambda>s.
     case tree_lookup (probe strcmp (comb_key s) w) (tl_constructor_tree s) of
       Some c \<Rightarrow> c | None \<Rightarrow> 0)"

definition tl_get_function :: "string \<Rightarrow> addr tl" where
  "tl_get_function w = gets (\<lambda>s.
     case tree_lookup (probe strcmp (comb_key s) w) (tl_function_tree s) of
       Some c \<Rightarrow> c | None \<Rightarrow> 0)"

text \<open>The name before \<open>#\<close> and the explicit tag after it, lines 1194-1208 and 1257-1271.\<close>

definition name_part :: "string \<Rightarrow> bool \<Rightarrow> string" where
  "name_part w force_magic = takeWhile (\<lambda>c. c \<noteq> CHR ''#'' \<or> force_magic) w"

definition magic_digit :: "u32 \<Rightarrow> char \<Rightarrow> u32" where
  "magic_digit m c =
     push_bit 4 m + word_of_int (if schar c \<le> schar (CHR ''9'') then schar c - schar (CHR ''0'')
                                 else schar c - schar (CHR ''a'') + 10)"

definition magic_part :: "string \<Rightarrow> bool \<Rightarrow> fault + u32" where
  "magic_part w force_magic =
     (let rest = drop (length (name_part w force_magic)) w in
      if rest = [] then Inr 0
      else if length rest < 6 \<or> 9 < length rest then Inl Assertion
      else let m = foldl magic_digit 0 (tl rest)
           in if m \<noteq> 0 \<and> m \<noteq> -1 then Inr m else Inl Assertion)"

definition is_default_id :: "string \<Rightarrow> bool" where
  "is_default_id w \<longleftrightarrow> (\<exists>cs. w = CHR ''_'' # cs)"

lemma is_default_id_code [code]:
  "is_default_id [] = False" "is_default_id (c # cs) = (c = CHR ''_'')"
  by (auto simp: is_default_id_def)

definition tl_add_constructor :: "addr \<Rightarrow> string \<Rightarrow> bool \<Rightarrow> addr tl" where
  "tl_add_constructor a w force_magic =
     bind (check (a \<noteq> 0)) (\<lambda>_.
     bind (tyobj a) (\<lambda>t.
     if ty_flags t AND 1 \<noteq> 0 then
       bind (tl_error (''New constructor for type `'' @ ty_id t @ ''` after final statement'')) (\<lambda>_. ret 0)
     else
       let i = name_part w force_magic in
       bind (lift (magic_part w force_magic)) (\<lambda>magic.
       bind (if is_default_id i then bind (check (length i = 1)) (\<lambda>_. ret 0)
             else tl_get_constructor i) (\<lambda>dup.
       if dup \<noteq> 0 then bind (tl_error (''Duplicate constructor id `'' @ i @ ''`'')) (\<lambda>_. ret 0)
       else
         bind (new_comb \<lparr>c_id = i, c_print_id = print_id_of i, c_real_id = None, c_name = magic,
                 c_type = a, c_left = 0, c_right = 0\<rparr>) (\<lambda>c.
         bind (upd_type a (\<lambda>t. t\<lparr>constructors := constructors t @ [c]\<rparr>)) (\<lambda>_.
         bind (if is_default_id i
               then upd_type a (\<lambda>t. t\<lparr>ty_flags := ty_flags t OR FLAG_DEFAULT_CONSTRUCTOR\<rparr>)
               else
                 bind lrand48 (\<lambda>y.
                 bind (gets (\<lambda>s. (comb_key s, tl_constructor_tree s))) (\<lambda>(key, T).
                 bind (lift (tree_insert (probe strcmp key i) T c y)) (\<lambda>T.
                 modify (\<lambda>s. s\<lparr>tl_constructor_tree := T\<rparr>))))) (\<lambda>_.
         bind (modify (\<lambda>s. s\<lparr>total_constructors_num := total_constructors_num s + 1\<rparr>)) (\<lambda>_.
         ret c))))))))"

definition tl_add_function :: "addr \<Rightarrow> string \<Rightarrow> bool \<Rightarrow> addr tl" where
  "tl_add_function a w force_magic =
     (let i = name_part w force_magic in
      bind (lift (magic_part w force_magic)) (\<lambda>magic.
      bind (tl_get_function i) (\<lambda>dup.
      if dup \<noteq> 0 then bind (tl_error (''Duplicate function id `'' @ i @ ''`'')) (\<lambda>_. ret 0)
      else
        bind (new_comb \<lparr>c_id = i, c_print_id = print_id_of i, c_real_id = None, c_name = magic,
                c_type = a, c_left = 0, c_right = 0\<rparr>) (\<lambda>c.
        bind lrand48 (\<lambda>y.
        bind (gets (\<lambda>s. (comb_key s, tl_function_tree s))) (\<lambda>(key, T).
        bind (lift (tree_insert (probe strcmp key i) T c y)) (\<lambda>T.
        bind (modify (\<lambda>s. s\<lparr>tl_function_tree := T,
                total_functions_num := total_functions_num s + 1\<rparr>)) (\<lambda>_.
        ret c))))))))"

subsection \<open>The trees as finite maps: interpretations of the order contract\<close>

lemma strcmp_order: "tree_order strcmp UNIV"
  by unfold_locales (simp, rule strcmp_flip, rule strcmp_trans)

interpretation type_order: tree_order strcmp UNIV "type_key s" for s
  by (rule strcmp_order)

interpretation comb_order: tree_order strcmp UNIV "comb_key s" for s
  by (rule strcmp_order)

interpretation var_order: tree_order strcmp UNIV "var_key s" for s
  by (rule strcmp_order)

interpretation field_order: tree_order strcmp UNIV "id :: string \<Rightarrow> string"
  by (rule strcmp_order)

text \<open>
  Pointer differences are truncated to 32 bits; below \<open>2 ^ 31\<close> the comparison is the order of
  the addresses.
\<close>

definition near :: "addr set" where
  "near = {0..<2 ^ 31}"

lemma var_value_cmp_near: "a \<in> near \<Longrightarrow> b \<in> near \<Longrightarrow> var_value_cmp a b = a - b"
  unfolding var_value_cmp_def near_def sint_sbintrunc' by (rule signed_take_bit_int_eq_self) auto

interpretation value_order: tree_order var_value_cmp near vv_ptr
  by unfold_locales (auto simp: var_value_cmp_near)

subsection \<open>The registry invariant\<close>

text \<open>
  \<open>reg_ok\<close>: objects live at allocated addresses; the type tree is ordered by id and holds every
  type object; the constructor and function trees are ordered by id and hold allocated
  combinators; the constructors of a type are combinators that point back to it; the three counters agree with the trees. The number of constructors is the sum
  over the types, since the constructors named \<open>_\<close> are in no tree.
\<close>

definition constructors_of :: "tlst \<Rightarrow> addr \<Rightarrow> addr list" where
  "constructors_of s t = (case types s t of None \<Rightarrow> [] | Some x \<Rightarrow> constructors x)"

definition owned :: "tlst \<Rightarrow> bool" where
  "owned s \<longleftrightarrow> (\<forall>t x c. types s t = Some x \<longrightarrow> c \<in> set (constructors x) \<longrightarrow> (\<exists>co. combs s c = Some co \<and> c_type co = t))"

definition reg_ok :: "tlst \<Rightarrow> bool" where
  "reg_ok s \<longleftrightarrow>
     0 < brk s \<and> dom (types s) \<subseteq> {0<..<brk s} \<and> dom (combs s) \<subseteq> {0<..<brk s} \<and>
     bst strcmp UNIV (type_key s) (tl_type_tree s) \<and> set (inorder (tl_type_tree s)) = dom (types s) \<and>
     bst strcmp UNIV (comb_key s) (tl_constructor_tree s) \<and>
     set (inorder (tl_constructor_tree s)) \<subseteq> dom (combs s) \<and>
     bst strcmp UNIV (comb_key s) (tl_function_tree s) \<and>
     set (inorder (tl_function_tree s)) \<subseteq> dom (combs s) \<and>
     owned s \<and> total_types_num s = tree_count (tl_type_tree s) \<and>
     total_constructors_num s = sum_list (map (int \<circ> length \<circ> constructors_of s) (inorder (tl_type_tree s))) \<and>
     total_functions_num s = tree_count (tl_function_tree s)"

text \<open>The part of the state \<open>reg_ok\<close> speaks of.\<close>

definition reg_part :: "tlst \<Rightarrow> _" where
  "reg_part s = (types s, combs s, tl_type_tree s, tl_constructor_tree s, tl_function_tree s,
     total_types_num s, total_constructors_num s, total_functions_num s)"

lemma reg_ok_frame: "reg_part t = reg_part s \<Longrightarrow> brk s \<le> brk t \<Longrightarrow> reg_ok s \<Longrightarrow> reg_ok t"
proof -
  assume a: "reg_part t = reg_part s" "brk s \<le> brk t" "reg_ok s"
  then have "type_key t = type_key s" "comb_key t = comb_key s" "constructors_of t = constructors_of s" "owned t = owned s"
    by (simp_all add: reg_part_def type_key_def comb_key_def constructors_of_def fun_eq_iff owned_def)
  with a show "reg_ok t" by (auto simp: reg_ok_def reg_part_def)
qed

lemma reg_ok_initial: "reg_ok (initial_tlst rs js rd oe)"
  by (simp add: reg_ok_def initial_tlst_def owned_def)

subsection \<open>Updates that keep it\<close>

lemma keeps_deref [keeps]: "keeps I (deref h p)"
  by (auto simp: keeps_def deref_def split: option.splits)

lemma keeps_at_level [keeps]: "keeps I (at_level h i)"
  by (auto simp: keeps_def at_level_def split: if_splits)

lemma reg_ok_upd_type:
  assumes "reg_ok s" and "types s p = Some x" and "ty_id y = ty_id x"
    and "length (constructors y) = length (constructors x)" and "set (constructors y) \<subseteq> set (constructors x)"
  shows "reg_ok (s\<lparr>types := (types s)(p \<mapsto> y)\<rparr>)"
proof -
  let ?t = "s\<lparr>types := (types s)(p \<mapsto> y)\<rparr>"
  have "type_key ?t = type_key s" "comb_key ?t = comb_key s"
    using assms by (auto simp: type_key_def comb_key_def fun_eq_iff)
  moreover have "length (constructors_of ?t q) = length (constructors_of s q)" for q
    using assms by (simp add: constructors_of_def)
  then have "int \<circ> length \<circ> constructors_of ?t = int \<circ> length \<circ> constructors_of s"
    by (simp add: fun_eq_iff)
  moreover have "owned ?t" using assms by (auto simp: reg_ok_def owned_def)
  ultimately show ?thesis using assms by (auto simp: reg_ok_def)
qed

lemma reg_ok_upd_comb:
  assumes "reg_ok s" and "combs s p = Some x" and "c_id y = c_id x" and "c_type y = c_type x"
  shows "reg_ok (s\<lparr>combs := (combs s)(p \<mapsto> y)\<rparr>)"
proof -
  let ?t = "s\<lparr>combs := (combs s)(p \<mapsto> y)\<rparr>"
  have "type_key ?t = type_key s" "comb_key ?t = comb_key s" "constructors_of ?t = constructors_of s"
    using assms by (auto simp: type_key_def comb_key_def constructors_of_def fun_eq_iff)
  moreover have "owned s" using assms(1) by (simp add: reg_ok_def)
  then have "owned ?t" using assms(2,4) unfolding owned_def by simp (metis option.inject)
  ultimately show ?thesis using assms by (auto simp: reg_ok_def)
qed

lemma keeps_upd_type:
  "(\<And>x. ty_id (f x) = ty_id x \<and> constructors (f x) = constructors x) \<Longrightarrow>
     keeps reg_ok (upd_type p f)"
  by (auto simp: keeps_def upd_type_def deref_def split: option.splits intro!: reg_ok_upd_type)

lemma keeps_upd_comb: "(\<And>x. c_id (f x) = c_id x \<and> c_type (f x) = c_type x) \<Longrightarrow> keeps reg_ok (upd_comb p f)"
  by (auto simp: keeps_def upd_comb_def deref_def split: option.splits intro!: reg_ok_upd_comb)

lemma keeps_reg_modify: "(\<And>s. reg_part (f s) = reg_part s \<and> brk s \<le> brk (f s)) \<Longrightarrow> keeps reg_ok (modify f)"
  by (rule keeps_modify) (meson reg_ok_frame)

lemma keeps_reg_small [keeps]:
  "keeps reg_ok (upd_node p f)" "keeps reg_ok (upd_var p g)" "keeps reg_ok (new_node x)"
  "keeps reg_ok (new_varobj v)" "keeps reg_ok lrand48" "keeps reg_ok (tl_error e)" "keeps reg_ok (tl_del_var q)"
proof -
  show "keeps reg_ok (upd_node p f)" "keeps reg_ok (upd_var p g)" "keeps reg_ok (tl_error e)"
    "keeps reg_ok (tl_del_var q)"
    unfolding upd_node_def upd_var_def tl_error_def tl_del_var_def
    by (intro keeps keeps_reg_modify; simp add: reg_part_def)+
  show "keeps reg_ok (new_node x)" "keeps reg_ok (new_varobj v)" "keeps reg_ok lrand48"
    unfolding keeps_def new_node_def new_varobj_def lrand48_def
    by (auto simp: reg_part_def elim!: reg_ok_frame[rotated 2])
qed

subsection \<open>Types\<close>

abbreviation type_map :: "tlst \<Rightarrow> string \<Rightarrow> addr option" where
  "type_map s \<equiv> tree_map (type_key s) (tl_type_tree s)"

lemma reg_okD:
  assumes "reg_ok s"
  shows "bst strcmp UNIV (type_key s) (tl_type_tree s)" "set (inorder (tl_type_tree s)) = dom (types s)"
    "bst strcmp UNIV (comb_key s) (tl_constructor_tree s)" "set (inorder (tl_constructor_tree s)) \<subseteq> dom (combs s)"
    "bst strcmp UNIV (comb_key s) (tl_function_tree s)" "set (inorder (tl_function_tree s)) \<subseteq> dom (combs s)"
    "types s (brk s) = None" "combs s (brk s) = None" "0 < brk s"
  using assms by (auto simp: reg_ok_def)

definition addr_of :: "addr option \<Rightarrow> addr" where
  "addr_of r = (case r of None \<Rightarrow> 0 | Some a \<Rightarrow> a)"

lemma addr_of_simps [simp]: "addr_of None = 0" "addr_of (Some a) = a"
  by (simp_all add: addr_of_def)

lemma tl_get_type_map: "reg_ok s \<Longrightarrow> tl_get_type w s = Inr (addr_of (type_map s w), s)"
  by (simp add: tl_get_type_def type_order.lookup_map reg_okD addr_of_def)

lemma type_map_pos: "reg_ok s \<Longrightarrow> type_map s w = Some t \<Longrightarrow> 0 < t \<and> (\<exists>x. types s t = Some x \<and> ty_id x = w)"
  by (drule tree_map_SomeD) (auto simp: reg_ok_def type_key_def split: option.splits)

definition fresh_type :: "tlst \<Rightarrow> string \<Rightarrow> int \<Rightarrow> u64 \<Rightarrow> tl_type" where
  "fresh_type s w pn pt =
     \<lparr>ty_id = w, ty_print_id = print_id_of w, ty_real_id = None, ty_name = 0,
      ty_flags = (if 0 \<le> pn then 0 else 4), params_num = (if 0 \<le> pn then pn else -1),
      params_types = (if 0 \<le> pn then pt else junk s (brk s)), constructors = []\<rparr>"

lemma reg_ok_new_type:
  assumes "reg_ok s" and "type_map s w = None" and "ty_id x = w" and "constructors x = []"
    and t: "t = s\<lparr>types := (types s)(brk s \<mapsto> x), brk := brk s + 1, lrand48_count := k\<rparr>"
  shows "\<exists>T. tree_insert (probe strcmp (type_key t) w) (tl_type_tree t) (brk s) y = Inr T \<and>
     reg_ok (t\<lparr>tl_type_tree := T, total_types_num := total_types_num t + 1\<rparr>) \<and>
     type_map (t\<lparr>tl_type_tree := T, total_types_num := total_types_num t + 1\<rparr>) = (type_map s)(w \<mapsto> brk s)"
proof -
  note d = reg_okD[OF assms(1)]
  have k: "type_key t p = type_key s p" if "p \<in> set (inorder (tl_type_tree s))" for p
    using that d(2,7) t by (auto simp: type_key_def)
  have kb: "type_key t (brk s) = w" using assms(3) t by (simp add: type_key_def)
  have b: "bst strcmp UNIV (type_key t) (tl_type_tree s)" using d(1) k bst_key_cong[of "tl_type_tree s" "type_key t" "type_key s"] by simp
  have m: "tree_map (type_key t) (tl_type_tree s) = type_map s" by (rule tree_map_cong) (simp add: k)
  from type_order.insert_map[OF b, of "brk s" y] assms(2) obtain T where
    T: "tree_insert (probe strcmp (type_key t) w) (tl_type_tree s) (brk s) y = Inr T"
      "bst strcmp UNIV (type_key t) T" "tree_map (type_key t) T = (type_map s)(w \<mapsto> brk s)"
      "set (inorder T) = insert (brk s) (dom (types s))" "tree_count T = tree_count (tl_type_tree s) + 1"
    by (auto simp: kb m d(2))
  let ?u = "t\<lparr>tl_type_tree := T, total_types_num := total_types_num t + 1\<rparr>"
  have key: "type_key ?u = type_key t" "comb_key ?u = comb_key s"
    using t by (simp_all add: type_key_def comb_key_def fun_eq_iff)
  have "length (constructors_of ?u p) = length (constructors_of s p)" for p
    using d(7) assms(4) t by (simp add: constructors_of_def)
  then have c: "int \<circ> length \<circ> constructors_of ?u = int \<circ> length \<circ> constructors_of s" by (simp add: fun_eq_iff)
  have sum: "sum_list (map (int \<circ> length \<circ> constructors_of s) (inorder T)) =
      sum_list (map (int \<circ> length \<circ> constructors_of s) (inorder (tl_type_tree s)))"
  proof -
    have "sum_list (map f (inorder U)) = sum f (set (inorder U))"
      if "bst strcmp UNIV key U" for f :: "addr \<Rightarrow> int" and key :: "addr \<Rightarrow> string" and U
      using tree_order.bst_distinct[OF strcmp_order that] by (simp add: sum_list_distinct_conv_sum_set)
    moreover have "finite (dom (types s))" by (metis d(2) List.finite_set)
    moreover have "brk s \<notin> dom (types s)" "constructors_of s (brk s) = []"
      using d(7) by (auto simp: constructors_of_def)
    ultimately show ?thesis using T(2,4) b d(2) by simp
  qed
  have "owned ?u" using assms(1,4) t by (auto simp: reg_ok_def owned_def)
  then have "reg_ok ?u" using assms(1) T(2,4,5) t key c sum d by (auto simp: reg_ok_def)
  then show ?thesis using T(1,3) t key(1) by auto
qed

lemma tl_add_type_new:
  assumes "reg_ok s" and "type_map s w = None" and "pn \<le> 64"
  shows "\<exists>s'. tl_add_type w pn pt s = Inr (brk s, s') \<and> reg_ok s' \<and>
     type_map s' = (type_map s)(w \<mapsto> brk s) \<and> types s' (brk s) = Some (fresh_type s w pn pt) \<and>
     total_types_num s' = total_types_num s + 1"
proof -
  define t where "t = s\<lparr>types := (types s)(brk s \<mapsto> fresh_type s w pn pt), brk := brk s + 1,
     lrand48_count := Suc (lrand48_count s)\<rparr>"
  from reg_ok_new_type[OF assms(1,2) _ _ t_def, of "lrand48_seq s (lrand48_count s)"] obtain T where
    T: "tree_insert (probe strcmp (type_key t) w) (tl_type_tree t) (brk s) (lrand48_seq s (lrand48_count s)) = Inr T"
      "reg_ok (t\<lparr>tl_type_tree := T, total_types_num := total_types_num t + 1\<rparr>)"
      "type_map (t\<lparr>tl_type_tree := T, total_types_num := total_types_num t + 1\<rparr>) = (type_map s)(w \<mapsto> brk s)"
    by (auto simp: fresh_type_def)
  have "tl_add_type w pn pt s = Inr (brk s, t\<lparr>tl_type_tree := T, total_types_num := total_types_num t + 1\<rparr>)"
    using assms T(1)
    by (simp add: tl_add_type_def bind_apply tl_get_type_map new_type_def lrand48_def t_def fresh_type_def)
  then show ?thesis using T(2,3) by (simp add: t_def)
qed

lemma tl_add_type_known:
  assumes "reg_ok s" and "type_map s w = Some a" and "types s a = Some x"
  shows "tl_add_type w pn pt s =
     (if 0 \<le> pn \<and> (params_num x \<noteq> pn \<or> params_types x \<noteq> pt)
      then Inr (0, s\<lparr>log := (''Wrong params_num or types for type '' @ w) # log s\<rparr>)
      else Inr (a, s))"
  using assms type_map_pos[OF assms(1,2)]
  by (auto simp: tl_add_type_def bind_apply tl_get_type_map deref_def tl_error_def)

lemma reg_ok_log [simp]: "reg_ok (s\<lparr>log := l\<rparr>) = reg_ok s"
  using reg_ok_frame[of "s\<lparr>log := l\<rparr>" s] reg_ok_frame[of s "s\<lparr>log := l\<rparr>"] by (auto simp: reg_part_def)

lemma keeps_tl_add_type [keeps]: "keeps reg_ok (tl_add_type w pn pt)"
proof (rule keepsI)
  fix s x t assume a: "reg_ok s" "tl_add_type w pn pt s = Inr (x, t)"
  show "reg_ok t"
  proof (cases "type_map s w")
    case None
    have "pn \<le> 64"
    proof (rule ccontr)
      assume "\<not> pn \<le> 64"
      then have "tl_add_type w pn pt s = Inl Assertion"
        using a(1) None by (simp add: tl_add_type_def bind_apply tl_get_type_map)
      with a(2) show False by simp
    qed
    from tl_add_type_new[OF a(1) None this, of pt] a(2) show ?thesis by auto
  next
    case (Some p)
    then obtain y where "types s p = Some y" using type_map_pos[OF a(1)] by blast
    from tl_add_type_known[OF a(1) Some this] a show ?thesis by (auto split: if_splits)
  qed
qed

subsection \<open>Constructors and functions\<close>

abbreviation constructor_map :: "tlst \<Rightarrow> string \<Rightarrow> addr option" where
  "constructor_map s \<equiv> tree_map (comb_key s) (tl_constructor_tree s)"

abbreviation function_map :: "tlst \<Rightarrow> string \<Rightarrow> addr option" where
  "function_map s \<equiv> tree_map (comb_key s) (tl_function_tree s)"

lemma comb_map_pos:
  assumes "reg_ok s" and "constructor_map s w = Some c \<or> function_map s w = Some c"
  shows "0 < c \<and> (\<exists>x. combs s c = Some x \<and> c_id x = w)"
proof -
  have "c \<in> dom (combs s)" "comb_key s c = w"
    using assms reg_okD(4,6)[OF assms(1)] by (auto dest!: tree_map_SomeD)
  then show ?thesis using assms(1) by (auto simp: reg_ok_def comb_key_def)
qed

lemma tl_get_constructor_map: "reg_ok s \<Longrightarrow> tl_get_constructor w s = Inr (addr_of (constructor_map s w), s)"
  by (simp add: tl_get_constructor_def comb_order.lookup_map reg_okD addr_of_def)

lemma tl_get_function_map: "reg_ok s \<Longrightarrow> tl_get_function w s = Inr (addr_of (function_map s w), s)"
  by (simp add: tl_get_function_def comb_order.lookup_map reg_okD addr_of_def)

text \<open>Inserting the freshly allocated combinator into a tree of combinators.\<close>

lemma comb_insert:
  assumes "reg_ok s" and "bst strcmp UNIV (comb_key s) T" and "set (inorder T) \<subseteq> dom (combs s)"
    and "tree_map (comb_key s) T i = None" and "c_id x = i" and "combs t = (combs s)(brk s \<mapsto> x)"
  shows "\<exists>T'. tree_insert (probe strcmp (comb_key t) i) T (brk s) y = Inr T' \<and>
     bst strcmp UNIV (comb_key t) T' \<and> tree_map (comb_key t) T' = (tree_map (comb_key s) T)(i \<mapsto> brk s) \<and>
     set (inorder T') = insert (brk s) (set (inorder T)) \<and> tree_count T' = tree_count T + 1"
proof -
  have k: "comb_key t p = comb_key s p" if "p \<in> set (inorder T)" for p
    using that assms(3,6) reg_okD(8)[OF assms(1)] by (auto simp: comb_key_def)
  have kb: "comb_key t (brk s) = i" using assms(5,6) by (simp add: comb_key_def)
  have "bst strcmp UNIV (comb_key t) T" using assms(2) k bst_key_cong[of T "comb_key t" "comb_key s"] by simp
  from comb_order.insert_map[OF this, of "brk s" y] show ?thesis
    using tree_map_cong[of T "comb_key t" "comb_key s"] k assms(4) by (simp add: kb)
qed

lemma comb_key_new:
  assumes "reg_ok s" and "combs t = (combs s)(brk s \<mapsto> x)"
    and "set (inorder T) \<subseteq> dom (combs s)" and "bst strcmp UNIV (comb_key s) T"
  shows "bst strcmp UNIV (comb_key t) T" and "tree_map (comb_key t) T = tree_map (comb_key s) T"
proof -
  have k: "comb_key t p = comb_key s p" if "p \<in> set (inorder T)" for p
    using that assms(2,3) reg_okD(8)[OF assms(1)] by (auto simp: comb_key_def)
  show "bst strcmp UNIV (comb_key t) T" using assms(4) k bst_key_cong[of T "comb_key t" "comb_key s"] by simp
  show "tree_map (comb_key t) T = tree_map (comb_key s) T" by (rule tree_map_cong) (rule k)
qed

definition fresh_comb :: "addr \<Rightarrow> string \<Rightarrow> u32 \<Rightarrow> tl_constructor" where
  "fresh_comb a i m = \<lparr>c_id = i, c_print_id = print_id_of i, c_real_id = None, c_name = m,
     c_type = a, c_left = 0, c_right = 0\<rparr>"

lemma tl_add_function_new:
  assumes "reg_ok s" and "magic_part w fm = Inr m" and "function_map s (name_part w fm) = None"
  shows "\<exists>s'. tl_add_function a w fm s = Inr (brk s, s') \<and> reg_ok s' \<and>
     function_map s' = (function_map s)(name_part w fm \<mapsto> brk s) \<and>
     combs s' (brk s) = Some (fresh_comb a (name_part w fm) m) \<and>
     total_functions_num s' = total_functions_num s + 1 \<and>
     type_map s' = type_map s \<and> constructor_map s' = constructor_map s"
proof -
  let ?i = "name_part w fm"
  define t where "t = s\<lparr>combs := (combs s)(brk s \<mapsto> fresh_comb a ?i m), brk := brk s + 1,
     lrand48_count := Suc (lrand48_count s)\<rparr>"
  note d = reg_okD[OF assms(1)]
  have ct: "combs t = (combs s)(brk s \<mapsto> fresh_comb a ?i m)" by (simp add: t_def)
  from comb_insert[OF assms(1) d(5,6) assms(3) _ ct, of "lrand48_seq s (lrand48_count s)"] obtain T where
    T: "tree_insert (probe strcmp (comb_key t) ?i) (tl_function_tree s) (brk s) (lrand48_seq s (lrand48_count s)) = Inr T"
      "bst strcmp UNIV (comb_key t) T" "tree_map (comb_key t) T = (function_map s)(?i \<mapsto> brk s)"
      "set (inorder T) = insert (brk s) (set (inorder (tl_function_tree s)))"
      "tree_count T = tree_count (tl_function_tree s) + 1"
    by (auto simp: fresh_comb_def)
  note C = comb_key_new[OF assms(1) ct d(4,3)]
  let ?u = "t\<lparr>tl_function_tree := T, total_functions_num := total_functions_num s + 1\<rparr>"
  have key: "type_key ?u = type_key s" "comb_key ?u = comb_key t" "constructors_of ?u = constructors_of s"
    by (simp_all add: t_def type_key_def comb_key_def constructors_of_def fun_eq_iff)
  have "owned ?u" using assms(1) d(8) by (fastforce simp: reg_ok_def owned_def t_def)
  then have "reg_ok ?u"
    using assms(1) T(2,4,5) C(1) key by (auto simp: reg_ok_def t_def)
  moreover have "tl_add_function a w fm s = Inr (brk s, ?u)"
    using assms T(1)
    by (simp add: tl_add_function_def Let_def bind_apply tl_get_function_map new_comb_def lrand48_def t_def fresh_comb_def)
  ultimately show ?thesis using T(3) C(2) key by (simp add: t_def)
qed

lemma sum_list_bump:
  "distinct xs \<Longrightarrow> a \<in> set xs \<Longrightarrow> g a = f a + (1 :: int) \<Longrightarrow> (\<And>x. x \<noteq> a \<Longrightarrow> g x = f x) \<Longrightarrow>
     sum_list (map g xs) = sum_list (map f xs) + 1"
proof (induction xs)
  case (Cons x xs)
  have "sum_list (map g xs) = sum_list (map f xs)" if "a \<notin> set xs"
    using that Cons.prems(4) by (metis (mono_tags, lifting) map_eq_conv)
  with Cons show ?case by (cases "x = a") auto
qed simp

lemma reg_ok_new_constructor:
  assumes "reg_ok s" and "types s a = Some r0" and "ty_id r1 = ty_id r0"
    and "constructors r1 = constructors r0 @ [brk s]" and "c_type x = a"
    and "bst strcmp UNIV (comb_key u) (tl_constructor_tree u)"
    and "set (inorder (tl_constructor_tree u)) \<subseteq> insert (brk s) (dom (combs s))"
    and u: "types u = (types s)(a \<mapsto> r1)" "combs u = (combs s)(brk s \<mapsto> x)" "brk u = brk s + 1"
      "tl_type_tree u = tl_type_tree s" "tl_function_tree u = tl_function_tree s"
      "total_types_num u = total_types_num s" "total_functions_num u = total_functions_num s"
      "total_constructors_num u = total_constructors_num s + 1"
  shows "reg_ok u" and "type_map u = type_map s" and "function_map u = function_map s"
proof -
  note d = reg_okD[OF assms(1)]
  have tk: "type_key u = type_key s" using assms(2,3) u(1) by (auto simp: type_key_def fun_eq_iff)
  then show "type_map u = type_map s" using u by simp
  note F = comb_key_new[OF assms(1) u(2) d(6,5)]
  then show "function_map u = function_map s" using u by simp
  have "a \<in> set (inorder (tl_type_tree s))" using assms(2) d(2) by auto
  then have "sum_list (map (int \<circ> length \<circ> constructors_of u) (inorder (tl_type_tree s))) =
      sum_list (map (int \<circ> length \<circ> constructors_of s) (inorder (tl_type_tree s))) + 1"
    using type_order.bst_distinct[OF d(1)] assms(2,4) u(1)
    by (intro sum_list_bump[of _ a]) (auto simp: constructors_of_def)
  moreover have "0 < brk s" "dom (types s) \<subseteq> {0<..<brk s}" "dom (combs s) \<subseteq> {0<..<brk s}"
    using assms(1) by (simp_all add: reg_ok_def)
  moreover have "dom (types u) = dom (types s)" using assms(2) u(1) by auto
  moreover have "owned u"
  proof -
    have o: "owned s" using assms(1) by (simp add: reg_ok_def)
    have "c \<noteq> brk s" if "types s t = Some y" "c \<in> set (constructors y)" for t y c
      using that o d(8) unfolding owned_def by force
    with o assms(2,4,5) u(1,2) show ?thesis unfolding owned_def by auto
  qed
  ultimately show "reg_ok u"
    using assms(1,6,7) u tk F(1) by (auto simp: reg_ok_def)
qed

text \<open>The type after it has been given one more constructor.\<close>

definition with_constructor :: "tl_type \<Rightarrow> string \<Rightarrow> addr \<Rightarrow> tl_type" where
  "with_constructor r0 i c =
     r0\<lparr>constructors := constructors r0 @ [c],
        ty_flags := (if is_default_id i then ty_flags r0 OR FLAG_DEFAULT_CONSTRUCTOR else ty_flags r0)\<rparr>"

lemma tl_add_constructor_new:
  assumes "reg_ok s" and "types s a = Some r0" and "ty_flags r0 AND 1 = 0"
    and "magic_part w fm = Inr m" and "i = name_part w fm"
    and "is_default_id i \<longrightarrow> length i = 1" and "\<not> is_default_id i \<longrightarrow> constructor_map s i = None"
  shows "\<exists>s'. tl_add_constructor a w fm s = Inr (brk s, s') \<and> reg_ok s' \<and>
     constructor_map s' = (if is_default_id i then constructor_map s else (constructor_map s)(i \<mapsto> brk s)) \<and>
     combs s' (brk s) = Some (fresh_comb a i m) \<and>
     types s' = (types s)(a \<mapsto> with_constructor r0 i (brk s)) \<and>
     total_constructors_num s' = total_constructors_num s + 1 \<and>
     type_map s' = type_map s \<and> function_map s' = function_map s"
proof -
  note d = reg_okD[OF assms(1)]
  have a: "a \<noteq> 0" using assms(1,2) by (auto simp: reg_ok_def)
  let ?x = "fresh_comb a i m" and ?r = "with_constructor r0 i (brk s)"
  show ?thesis
  proof (cases "is_default_id i")
    case True
    let ?u = "s\<lparr>types := (types s)(a \<mapsto> ?r), combs := (combs s)(brk s \<mapsto> ?x), brk := brk s + 1,
       total_constructors_num := total_constructors_num s + 1\<rparr>"
    note C = comb_key_new[OF assms(1) _ d(4,3), of ?u ?x]
    have R: "reg_ok ?u" "type_map ?u = type_map s" "function_map ?u = function_map s"
      using reg_ok_new_constructor[OF assms(1,2), of ?r ?x ?u] C(1) subset_insertI2[OF d(4)]
      by (auto simp: with_constructor_def fresh_comb_def)
    have "tl_add_constructor a w fm s = Inr (brk s, ?u)"
      using assms a True
      by (simp add: tl_add_constructor_def Let_def bind_apply deref_def new_comb_def upd_type_def
          with_constructor_def fresh_comb_def)
    then show ?thesis using R C(2) True by simp
  next
    case False
    define t where "t = s\<lparr>combs := (combs s)(brk s \<mapsto> ?x), brk := brk s + 1, types := (types s)(a \<mapsto> ?r),
       lrand48_count := Suc (lrand48_count s)\<rparr>"
    have ct: "combs t = (combs s)(brk s \<mapsto> ?x)" by (simp add: t_def)
    have n: "constructor_map s i = None" using assms(7) False by simp
    from comb_insert[OF assms(1) d(3,4) n _ ct, of "lrand48_seq s (lrand48_count s)"] obtain T where
      T: "tree_insert (probe strcmp (comb_key t) i) (tl_constructor_tree s) (brk s) (lrand48_seq s (lrand48_count s)) = Inr T"
        "bst strcmp UNIV (comb_key t) T" "tree_map (comb_key t) T = (constructor_map s)(i \<mapsto> brk s)"
        "set (inorder T) = insert (brk s) (set (inorder (tl_constructor_tree s)))"
      by (auto simp: fresh_comb_def)
    let ?u = "t\<lparr>tl_constructor_tree := T, total_constructors_num := total_constructors_num s + 1\<rparr>"
    have key: "comb_key ?u = comb_key t" by (simp add: comb_key_def fun_eq_iff)
    have R: "reg_ok ?u" "type_map ?u = type_map s" "function_map ?u = function_map s"
      using reg_ok_new_constructor[OF assms(1,2), of ?r ?x ?u] T(2,4) subset_insertI2[OF d(4)] key False
      by (auto simp: with_constructor_def fresh_comb_def t_def)
    have "tl_add_constructor a w fm s = Inr (brk s, ?u)"
      using assms a False n T(1)
      by (simp add: tl_add_constructor_def Let_def bind_apply deref_def new_comb_def upd_type_def lrand48_def
          tl_get_constructor_map with_constructor_def fresh_comb_def t_def)
    then show ?thesis using R T(3) False key by (simp add: t_def)
  qed
qed

lemma tl_add_function_dup:
  assumes "reg_ok s" and "magic_part w fm = Inr m" and "function_map s (name_part w fm) = Some c"
  shows "tl_add_function a w fm s =
     Inr (0, s\<lparr>log := (''Duplicate function id `'' @ name_part w fm @ ''`'') # log s\<rparr>)"
  using assms comb_map_pos[OF assms(1)]
  by (auto simp: tl_add_function_def Let_def bind_apply tl_get_function_map tl_error_def)

lemma keeps_tl_add_function [keeps]: "keeps reg_ok (tl_add_function a w fm)"
proof (rule keepsI)
  fix s x t assume a: "reg_ok s" "tl_add_function a w fm s = Inr (x, t)"
  then obtain m where m: "magic_part w fm = Inr m"
    by (auto simp: tl_add_function_def Let_def split: sum.splits)
  show "reg_ok t"
  proof (cases "function_map s (name_part w fm)")
    case None
    from tl_add_function_new[OF a(1) m None, of a] a(2) show ?thesis by auto
  next
    case (Some c)
    from tl_add_function_dup[OF a(1) m Some, of a] a show ?thesis by auto
  qed
qed

lemma tl_add_constructor_final:
  "a \<noteq> 0 \<Longrightarrow> types s a = Some r \<Longrightarrow> ty_flags r AND 1 \<noteq> 0 \<Longrightarrow>
     tl_add_constructor a w fm s =
     Inr (0, s\<lparr>log := (''New constructor for type `'' @ ty_id r @ ''` after final statement'') # log s\<rparr>)"
  by (simp add: tl_add_constructor_def bind_apply deref_def tl_error_def)

lemma tl_add_constructor_dup:
  assumes "reg_ok s" and "types s a = Some r" and "ty_flags r AND 1 = 0" and "magic_part w fm = Inr m"
    and "\<not> is_default_id (name_part w fm)" and "constructor_map s (name_part w fm) = Some c"
  shows "tl_add_constructor a w fm s =
     Inr (0, s\<lparr>log := (''Duplicate constructor id `'' @ name_part w fm @ ''`'') # log s\<rparr>)"
proof -
  have "a \<noteq> 0" using assms(1,2) by (auto simp: reg_ok_def)
  then show ?thesis using assms comb_map_pos[OF assms(1)]
    by (auto simp: tl_add_constructor_def Let_def bind_apply deref_def tl_get_constructor_map tl_error_def)
qed

lemma keeps_tl_add_constructor [keeps]: "keeps reg_ok (tl_add_constructor a w fm)"
proof (rule keepsI)
  fix s x t assume a: "reg_ok s" "tl_add_constructor a w fm s = Inr (x, t)"
  let ?i = "name_part w fm"
  from a(2) have n: "a \<noteq> 0" by (auto simp: tl_add_constructor_def)
  from a(2) obtain r where r: "types s a = Some r"
    by (auto simp: tl_add_constructor_def deref_def split: option.splits if_splits)
  show "reg_ok t"
  proof (cases "ty_flags r AND 1 = 0")
    case False
    from tl_add_constructor_final[OF n r False, of w fm] a show ?thesis by auto
  next
    case True
    then obtain m where m: "magic_part w fm = Inr m"
      using a(2) n r by (auto simp: tl_add_constructor_def deref_def Let_def split: sum.splits)
    have d: "is_default_id ?i \<longrightarrow> length ?i = 1"
      using a(2) n r True m by (auto simp: tl_add_constructor_def deref_def Let_def bind_apply split: if_splits)
    show ?thesis
    proof (cases "\<not> is_default_id ?i \<longrightarrow> constructor_map s ?i = None")
      case new: True
      from tl_add_constructor_new[OF a(1) r True m refl d new] a(2) show ?thesis by auto
    next
      case False
      then obtain c where "\<not> is_default_id ?i" "constructor_map s ?i = Some c" by auto
      from tl_add_constructor_dup[OF a(1) r True m this] a show ?thesis by auto
    qed
  qed
qed

lemma keeps_reg_types [keeps]:
  "keeps reg_ok (tl_add_type_param t x)" "keeps reg_ok (tl_type_set_params t n y)"
  "keeps reg_ok (tl_type_finalize t)"
  unfolding tl_add_type_param_def tl_type_set_params_def tl_type_finalize_def
  by (intro keeps keeps_upd_type; simp)+

lemma keeps_reg_lookup [keeps]:
  "keeps reg_ok (tl_get_type w)" "keeps reg_ok (tl_get_constructor w)" "keeps reg_ok (tl_get_function w)"
  "keeps reg_ok (mystrcmp2 a b)" "keeps reg_ok (tl_get_var w)" "keeps reg_ok tl_get_last_num_var"
  unfolding tl_get_type_def tl_get_constructor_def tl_get_function_def mystrcmp2_def tl_get_var_def
    tl_get_last_num_var_def
  by (intro keeps)+

lemma keeps_reg_values [keeps]:
  "keeps reg_ok (tl_set_var_value_num V var v n)" "keeps reg_ok (tl_set_var_value V var v)"
  unfolding tl_set_var_value_def tl_set_var_value_num_def by (intro keeps)+

lemma keeps_reg_scopes [keeps]:
  "keeps reg_ok (tl_add_field w)" "keeps reg_ok tl_clear_fields" "keeps reg_ok (tl_add_var w p k)"
  "keeps reg_ok tl_clear_vars" "keeps reg_ok namespace_push" "keeps reg_ok namespace_pop"
  unfolding tl_add_field_def tl_clear_fields_def tl_add_var_def tl_clear_vars_def namespace_push_def
    namespace_pop_def
  by (intro keeps keeps_reg_modify; simp add: reg_part_def)+

subsection \<open>Properties\<close>

text \<open>A concrete start state for the examples that instantiate the properties.\<close>

definition sample_tlst :: tlst where
  "sample_tlst = initial_tlst (\<lambda>_. 5) (\<lambda>_. 0) (\<lambda>_ _. CHR 0x00) 0"

lemma sample_tlst:
  "reg_ok sample_tlst" "brk sample_tlst = 1" "type_map sample_tlst = Map.empty"
  "constructor_map sample_tlst = Map.empty" "function_map sample_tlst = Map.empty"
  unfolding sample_tlst_def by (rule reg_ok_initial) (simp_all add: initial_tlst_def)

text \<open>
  C13: Adding a type, on every branch. A known id gives the known object, or null and a message
  when a different number or kind of parameters is requested; more than 64 parameters are
  refused; otherwise a fresh object is entered, the abstract map of types is extended by exactly
  this id, the counter grows by one and the registry stays well formed.
\<close>

theorem tl_add_type_spec:
  assumes "reg_ok s"
  shows "case type_map s w of
      Some a \<Rightarrow>
        (\<exists>x. types s a = Some x \<and>
           tl_add_type w pn pt s =
             (if 0 \<le> pn \<and> (params_num x \<noteq> pn \<or> params_types x \<noteq> pt)
              then Inr (0, s\<lparr>log := (''Wrong params_num or types for type '' @ w) # log s\<rparr>)
              else Inr (a, s)))
    | None \<Rightarrow>
        if pn \<le> 64 then
          \<exists>s'. tl_add_type w pn pt s = Inr (brk s, s') \<and> reg_ok s' \<and>
            type_map s' = (type_map s)(w \<mapsto> brk s) \<and> types s' (brk s) = Some (fresh_type s w pn pt) \<and>
            total_types_num s' = total_types_num s + 1
        else tl_add_type w pn pt s = Inl Assertion"
proof (cases "type_map s w")
  case None
  then show ?thesis using tl_add_type_new[OF assms None]
    by (auto simp: tl_add_type_def bind_apply tl_get_type_map assms)
next
  case (Some a)
  then show ?thesis using type_map_pos[OF assms Some] tl_add_type_known[OF assms Some] by auto
qed

theorem tl_add_type_spec_witness:
  "\<exists>s'. tl_add_type ''Foo'' 0 0 sample_tlst = Inr (1, s') \<and>
     type_map s' ''Foo'' = Some 1"
  using tl_add_type_spec[OF sample_tlst(1), where w = "''Foo''" and pn = 0 and pt = 0] by (auto simp: sample_tlst)

text \<open>
  C23: A constructor with a new id is entered: the abstract map of constructors grows by exactly
  its id (by nothing for the default id \<open>_\<close>), the type gets it as its last constructor, the
  counter grows by one, types and functions are untouched and the registry stays well formed. A
  final type and a known id are refused with a message and no other change.
\<close>

theorem tl_add_constructor_spec:
  assumes "reg_ok s" and "types s a = Some r" and "magic_part w fm = Inr m" and "i = name_part w fm"
    and "is_default_id i \<longrightarrow> length i = 1"
  shows "if ty_flags r AND 1 \<noteq> 0 then
           tl_add_constructor a w fm s =
             Inr (0, s\<lparr>log := (''New constructor for type `'' @ ty_id r @ ''` after final statement'') # log s\<rparr>)
         else if \<not> is_default_id i \<and> constructor_map s i \<noteq> None then
           tl_add_constructor a w fm s = Inr (0, s\<lparr>log := (''Duplicate constructor id `'' @ i @ ''`'') # log s\<rparr>)
         else
           \<exists>s'. tl_add_constructor a w fm s = Inr (brk s, s') \<and> reg_ok s' \<and>
             constructor_map s' = (if is_default_id i then constructor_map s else (constructor_map s)(i \<mapsto> brk s)) \<and>
             combs s' (brk s) = Some (fresh_comb a i m) \<and>
             types s' = (types s)(a \<mapsto> with_constructor r i (brk s)) \<and>
             total_constructors_num s' = total_constructors_num s + 1 \<and>
             type_map s' = type_map s \<and> function_map s' = function_map s"
proof -
  have n: "a \<noteq> 0" using assms(1,2) by (auto simp: reg_ok_def)
  show ?thesis
    using tl_add_constructor_final[OF n assms(2)] tl_add_constructor_dup[OF assms(1,2) _ assms(3)]
      tl_add_constructor_new[OF assms(1,2) _ assms(3,4,5)] assms(4) by auto
qed

definition one_type :: "tlst \<Rightarrow> tlst" where
  "one_type s = (case tl_add_type ''Foo'' 0 0 s of Inr (_, t) \<Rightarrow> t | Inl _ \<Rightarrow> s)"

lemma one_type:
  "reg_ok (one_type sample_tlst)" "types (one_type sample_tlst) 1 = Some (fresh_type sample_tlst ''Foo'' 0 0)"
  "constructor_map (one_type sample_tlst) = Map.empty" "brk (one_type sample_tlst) = 2"
proof -
  show "reg_ok (one_type sample_tlst)" "types (one_type sample_tlst) 1 = Some (fresh_type sample_tlst ''Foo'' 0 0)"
    using tl_add_type_new[OF sample_tlst(1), of "''Foo''" 0 0] by (auto simp: one_type_def sample_tlst)
  show "constructor_map (one_type sample_tlst) = Map.empty" "brk (one_type sample_tlst) = 2"
    by (simp_all add: one_type_def sample_tlst_def initial_tlst_def tl_add_type_def bind_apply tl_get_type_def
        new_type_def lrand48_def new_tree_node_def)
qed

theorem tl_add_constructor_spec_witness:
  "\<exists>s'. tl_add_constructor 1 ''foo#12345678'' False (one_type sample_tlst)
     = Inr (2, s') \<and> constructor_map s' ''foo'' = Some 2 \<and> combs s' 2 = Some (fresh_comb 1 ''foo'' 0x12345678)"
proof -
  have w: "name_part ''foo#12345678'' False = ''foo''" by (simp add: name_part_def)
  have m: "magic_part ''foo#12345678'' False = Inr 0x12345678"
    by (simp add: magic_part_def w Let_def magic_digit_def schar_def push_bit_eq_mult)
  show ?thesis
    using tl_add_constructor_spec[OF one_type(1,2) m refl] one_type(3,4)
    by (auto simp: w is_default_id_def fresh_type_def)
qed

text \<open>
  A function with a new id is entered: the abstract map of functions grows by exactly its id,
  the counter grows by one, types and constructors are untouched and the registry stays well
  formed. A known id is refused with a message and no other change, and a malformed tag aborts.
\<close>

lemma tl_add_function_spec:
  assumes "reg_ok s" and "i = name_part w fm"
  shows "case magic_part w fm of
      Inl e \<Rightarrow> tl_add_function a w fm s = Inl e
    | Inr m \<Rightarrow>
        if function_map s i \<noteq> None then
          tl_add_function a w fm s = Inr (0, s\<lparr>log := (''Duplicate function id `'' @ i @ ''`'') # log s\<rparr>)
        else
          \<exists>s'. tl_add_function a w fm s = Inr (brk s, s') \<and> reg_ok s' \<and>
            function_map s' = (function_map s)(i \<mapsto> brk s) \<and> combs s' (brk s) = Some (fresh_comb a i m) \<and>
            total_functions_num s' = total_functions_num s + 1 \<and>
            type_map s' = type_map s \<and> constructor_map s' = constructor_map s"
proof (cases "magic_part w fm")
  case (Inl e)
  then show ?thesis by (simp add: tl_add_function_def Let_def bind_apply)
next
  case (Inr m)
  then show ?thesis
    using tl_add_function_dup[OF assms(1) Inr] tl_add_function_new[OF assms(1) Inr] assms(2) by auto
qed

end
