(* ===== verification/TL_Scopes.thy ===== *)
theory TL_Scopes
  imports TL_Registry
begin

section \<open>Scopes, fields and variable bindings (tl-parser.c, lines 969-1121)\<close>

text \<open>
  What the tables of the registry mean: the variables are a stack of scopes, searched from the
  innermost outwards; a binding tree is a finite map from variables to values; the fields of a name
  space are a set of names. The contract of the stack is the locale \<open>scope_stack\<close>, interpreted on
  \<open>tl_add_var\<close>, \<open>namespace_push\<close> and \<open>namespace_pop\<close>. The last part is the invariant \<open>prog_ok\<close> of the whole
  state of the semantic pass.
\<close>

subsection \<open>Name spaces as a stack of scopes\<close>

text \<open>
  The variables in sight are a list of finite maps, the innermost scope first. \<open>scopes_ok\<close>: the level is
  in range, the tree of every level is ordered and holds allocated variables, and no variable is in the
  trees of two levels (the trees above the current level are left over from scopes that were closed).
\<close>

definition scope :: "tlst \<Rightarrow> int \<Rightarrow> string \<Rightarrow> addr option" where
  "scope s i = tree_map (var_key s) (vars s i)"

definition env :: "tlst \<Rightarrow> (string \<Rightarrow> addr option) list" where
  "env s = map (\<lambda>i. scope s (int i)) (rev [0..<Suc (nat (namespace_level s))])"

fun env_lookup :: "(string \<Rightarrow> addr option) list \<Rightarrow> string \<Rightarrow> addr option" where
  "env_lookup [] w = None"
| "env_lookup (m # ms) w = (case m w of Some v \<Rightarrow> Some v | None \<Rightarrow> env_lookup ms w)"

definition level_vars :: "tlst \<Rightarrow> int \<Rightarrow> addr set" where
  "level_vars s i = set (inorder (vars s i))"

definition scopes_ok :: "tlst \<Rightarrow> bool" where
  "scopes_ok s \<longleftrightarrow> 0 \<le> namespace_level s \<and> namespace_level s < 10 \<and> 0 < brk s \<and>
     dom (varobjs s) \<subseteq> {0<..<brk s} \<and>
     (\<forall>i \<in> {0..<10}. bst strcmp UNIV (var_key s) (vars s i) \<and> level_vars s i \<subseteq> dom (varobjs s)) \<and>
     (\<forall>i \<in> {0..<10}. \<forall>j \<in> {0..<10}. i \<noteq> j \<longrightarrow> level_vars s i \<inter> level_vars s j = {})"

lemma scopes_okD:
  assumes "scopes_ok s" and "0 \<le> i" and "i < 10"
  shows "bst strcmp UNIV (var_key s) (vars s i)" and "level_vars s i \<subseteq> dom (varobjs s)"
  using assms by (auto simp: scopes_ok_def)

lemma level_vars_alloc:
  assumes "scopes_ok s" and "v \<in> level_vars s i" and "0 \<le> i" and "i < 10"
  shows "0 < v" and "v < brk s" and "v \<in> dom (varobjs s)"
proof -
  show "v \<in> dom (varobjs s)" using scopes_okD(2)[of s i] assms by blast
  then have "v \<in> {0<..<brk s}" using assms(1) unfolding scopes_ok_def by blast
  then show "0 < v" "v < brk s" by auto
qed

lemma level_vars_disjoint:
  "scopes_ok s \<Longrightarrow> v \<in> level_vars s i \<Longrightarrow> v \<in> level_vars s j \<Longrightarrow> 0 \<le> i \<Longrightarrow> i < 10 \<Longrightarrow> 0 \<le> j \<Longrightarrow> j < 10 \<Longrightarrow> i = j"
  unfolding scopes_ok_def by (metis atLeastLessThan_iff disjoint_iff)

lemma var_lookup:
  "scopes_ok s \<Longrightarrow> 0 \<le> i \<Longrightarrow> i < 10 \<Longrightarrow> tree_lookup (probe strcmp (var_key s) w) (vars s i) = scope s i w"
  by (simp add: scope_def scopes_okD(1) var_order.lookup_map)

lemma scope_pos: "scopes_ok s \<Longrightarrow> 0 \<le> i \<Longrightarrow> i < 10 \<Longrightarrow> scope s i w = Some v \<Longrightarrow> 0 < v"
  using level_vars_alloc(1)[of s v i] by (auto simp: scope_def level_vars_def dest!: tree_map_SomeD)

lemma search_levels_env:
  "scopes_ok s \<Longrightarrow> n < 10 \<Longrightarrow> search_levels s w n =
     (case env_lookup (map (\<lambda>i. scope s (int i)) (rev [0..<Suc n])) w of None \<Rightarrow> 0 | Some v \<Rightarrow> v)"
  by (induction n) (auto simp: var_lookup split: option.split)

lemma scope_cong:
  "(\<And>v. v \<in> level_vars s i \<Longrightarrow> varobjs t v = varobjs s v) \<Longrightarrow> vars t i = vars s i \<Longrightarrow> scope t i = scope s i"
  by (auto simp: scope_def level_vars_def var_key_def intro!: tree_map_cong)

lemma bst_vars_cong:
  assumes "\<And>v. v \<in> level_vars s i \<Longrightarrow> varobjs t v = varobjs s v" and "vars t i = vars s i"
  shows "bst strcmp UNIV (var_key t) (vars t i) = bst strcmp UNIV (var_key s) (vars s i)"
  unfolding assms(2) by (rule bst_key_cong) (simp add: var_key_def assms(1) level_vars_def)

lemma env_cong:
  assumes "namespace_level t = namespace_level s"
    and "\<And>i. 0 \<le> i \<Longrightarrow> i \<le> namespace_level s \<Longrightarrow> scope t i = scope s i" and "0 \<le> namespace_level s"
  shows "env t = env s"
  using assms by (auto simp: env_def)

lemma env_Cons: "0 \<le> namespace_level s \<Longrightarrow>
    env s = scope s (namespace_level s) # map (\<lambda>i. scope s (int i)) (rev [0..<nat (namespace_level s)])"
  by (simp add: env_def)

text \<open>A fresh variable object, and clearing the variables of a level.\<close>

lemma scopes_ok_new_varobj:
  assumes "scopes_ok s" and t_def: "t = s\<lparr>varobjs := (varobjs s)(brk s \<mapsto> x), brk := brk s + 1\<rparr>"
  shows "scopes_ok t" and "\<And>i. 0 \<le> i \<Longrightarrow> i < 10 \<Longrightarrow> scope t i = scope s i"
proof -
  have same: "varobjs t v = varobjs s v" if "v \<in> level_vars s i" "0 \<le> i" "i < 10" for v i
    using level_vars_alloc(2)[OF assms(1) that] by (simp add: t_def)
  then show "\<And>i. 0 \<le> i \<Longrightarrow> i < 10 \<Longrightarrow> scope t i = scope s i"
    by (intro scope_cong) (auto simp: t_def)
  have "bst strcmp UNIV (var_key t) (vars t i)" if "0 \<le> i" "i < 10" for i
    using that same scopes_okD(1)[OF assms(1) that] by (subst bst_vars_cong[of s]) (auto simp: t_def)
  then show "scopes_ok t" using assms(1) by (auto simp: scopes_ok_def t_def level_vars_def)
qed

lemma iterate_tl_del_var:
  "iterate tl_del_var xs s = Inr ((), s\<lparr>varobjs := varobjs s |` (- set xs)\<rparr>)"
proof (induction xs arbitrary: s)
  case (Cons x xs)
  show ?case using Cons
    by (simp add: tl_del_var_def) (rule arg_cong[where f = "\<lambda>h. s\<lparr>varobjs := h\<rparr>"], auto simp: restrict_map_def)
qed (simp add: restrict_map_def)

lemma tl_clear_vars_run:
  assumes "0 \<le> namespace_level s" and "namespace_level s < 10"
  shows "tl_clear_vars s = Inr ((), s\<lparr>varobjs := varobjs s |` (- level_vars s (namespace_level s)),
     vars := (vars s)(namespace_level s := TNil), last_num_var := (last_num_var s)(namespace_level s := 0)\<rparr>)"
  using assms by (simp add: tl_clear_vars_def at_level_def tree_act_inorder iterate_tl_del_var tree_clear_eq level_vars_def)

definition clear_level :: "tlst \<Rightarrow> int \<Rightarrow> tlst" where
  "clear_level s n = s\<lparr>namespace_level := n, varobjs := varobjs s |` (- level_vars s n),
     vars := (vars s)(n := TNil), last_num_var := (last_num_var s)(n := 0),
     field_tab := (field_tab s)(n := TNil)\<rparr>"

lemma namespace_push_run:
  "0 \<le> namespace_level s \<Longrightarrow> namespace_push s =
     (if namespace_level s < 9 then Inr ((), clear_level s (namespace_level s + 1)) else Inl Assertion)"
  by (auto simp: namespace_push_def tl_clear_vars_run tl_clear_fields_def at_level_def clear_level_def tree_clear_eq level_vars_def)

lemma clear_level_scopes:
  assumes "scopes_ok s" and "0 \<le> n" and "n < 10"
  shows "scopes_ok (clear_level s n)" and "scope (clear_level s n) n = Map.empty"
    and "\<And>i. 0 \<le> i \<Longrightarrow> i < 10 \<Longrightarrow> i \<noteq> n \<Longrightarrow> scope (clear_level s n) i = scope s i"
proof -
  have same: "varobjs (clear_level s n) v = varobjs s v" if "v \<in> level_vars s i" "0 \<le> i" "i < 10" "i \<noteq> n" for v i
    using level_vars_disjoint[OF assms(1), of v i n] that assms(2,3) by (auto simp: clear_level_def restrict_map_def)
  then show "\<And>i. 0 \<le> i \<Longrightarrow> i < 10 \<Longrightarrow> i \<noteq> n \<Longrightarrow> scope (clear_level s n) i = scope s i"
    by (intro scope_cong) (auto simp: clear_level_def)
  show "scope (clear_level s n) n = Map.empty" by (simp add: scope_def clear_level_def)
  have "bst strcmp UNIV (var_key (clear_level s n)) (vars (clear_level s n) i)" if "0 \<le> i" "i < 10" for i
  proof (cases "i = n")
    case True
    then show ?thesis by (simp add: clear_level_def)
  next
    case False
    then show ?thesis using same[OF _ that False] scopes_okD(1)[OF assms(1) that]
      by (subst bst_vars_cong[of s]) (auto simp: clear_level_def)
  qed
  moreover have "level_vars (clear_level s n) i = (if i = n then {} else level_vars s i)" for i
    by (simp add: clear_level_def level_vars_def)
  moreover have "dom (varobjs (clear_level s n)) \<subseteq> dom (varobjs s)" by (auto simp: clear_level_def restrict_map_def split: if_splits)
  then have "dom (varobjs (clear_level s n)) \<subseteq> {0<..<brk s}" using assms(1) unfolding scopes_ok_def by blast
  moreover have "level_vars s i \<subseteq> dom (varobjs (clear_level s n))" if "0 \<le> i" "i < 10" "i \<noteq> n" for i
    using scopes_okD(2)[OF assms(1) that(1,2)] same[OF _ that] by auto
  moreover have "brk (clear_level s n) = brk s" "namespace_level (clear_level s n) = n"
    by (simp_all add: clear_level_def)
  ultimately show "scopes_ok (clear_level s n)"
    using assms unfolding scopes_ok_def by simp
qed

subsection \<open>The operations on the stack\<close>

lemma get_var_env:
  assumes "scopes_ok s"
  shows "tl_get_var w s = Inr (case env_lookup (env s) w of None \<Rightarrow> 0 | Some v \<Rightarrow> v, s)"
proof -
  have "nat (namespace_level s) < 10" "0 \<le> namespace_level s" "namespace_level s < 10"
    using assms by (auto simp: scopes_ok_def)
  then show ?thesis
    using search_levels_env[OF assms, of "nat (namespace_level s)"] by (simp add: tl_get_var_def at_level_def env_def)
qed

text \<open>Binding a variable that no scope holds yet in the innermost one.\<close>

lemma scopes_ok_bind:
  assumes ok: "scopes_ok s" and n: "n = namespace_level s" and v: "v \<in> dom (varobjs s)"
    and fresh: "\<And>i. 0 \<le> i \<Longrightarrow> i < 10 \<Longrightarrow> v \<notin> level_vars s i"
    and T: "bst strcmp UNIV (var_key s) T" "tree_map (var_key s) T = (scope s n)(w \<mapsto> v)"
      "set (inorder T) = insert v (level_vars s n)"
    and t: "varobjs t = varobjs s" "brk t = brk s" "namespace_level t = n" "vars t = (vars s)(n := T)"
  shows "scopes_ok t" and "env t = (scope s n)(w \<mapsto> v) # tl (env s)"
proof -
  have n10: "0 \<le> n" "n < 10" using ok by (auto simp: scopes_ok_def n)
  have key: "var_key t = var_key s" by (simp add: fun_eq_iff var_key_def t)
  have sc: "scope t i = (if i = n then (scope s n)(w \<mapsto> v) else scope s i)" for i
    using T(2) by (simp add: scope_def key t)
  then show "env t = (scope s n)(w \<mapsto> v) # tl (env s)"
    using env_Cons[of t] env_Cons[of s] n10 by (auto simp: t n[symmetric])
  have lv: "level_vars t i = (if i = n then insert v (level_vars s n) else level_vars s i)" for i
    using T(3) by (simp add: level_vars_def t)
  have "bst strcmp UNIV (var_key t) (vars t i)" if "0 \<le> i" "i < 10" for i
    using T(1) scopes_okD(1)[OF ok that] by (simp add: key t)
  moreover have "level_vars t i \<subseteq> dom (varobjs t)" if "0 \<le> i" "i < 10" for i
    using scopes_okD(2)[OF ok that] v unfolding lv t(1) by auto
  moreover have "level_vars t i \<inter> level_vars t j = {}" if "0 \<le> i" "i < 10" "0 \<le> j" "j < 10" "i \<noteq> j" for i j
    using level_vars_disjoint[OF ok, of _ i j] fresh that by (auto simp: lv)
  moreover have "dom (varobjs s) \<subseteq> {0<..<brk s}" "0 < brk s" using ok unfolding scopes_ok_def by blast+
  ultimately show "scopes_ok t" using n10 unfolding scopes_ok_def t(1-3) by simp
qed

lemma tl_add_var_run:
  fixes w ptr k s
  defines "s1 \<equiv> s\<lparr>varobjs := (varobjs s)(brk s \<mapsto> \<lparr>v_id = w, v_ptr = ptr, v_type = k, v_flags = 0\<rparr>), brk := brk s + 1\<rparr>"
  assumes "scopes_ok s"
  shows "tl_add_var w ptr k s =
     (if scope s (namespace_level s) w \<noteq> None then Inr (0, s1)
      else case tree_insert (probe strcmp (var_key s1) w) (vars s (namespace_level s)) (brk s)
                  (lrand48_seq s (lrand48_count s)) of
          Inl e \<Rightarrow> Inl e
        | Inr T \<Rightarrow> Inr (brk s, s1\<lparr>lrand48_count := Suc (lrand48_count s),
            vars := (vars s)(namespace_level s := T),
            last_num_var := (if k \<noteq> 0 then (last_num_var s)(namespace_level s := brk s) else last_num_var s)\<rparr>))"
proof -
  have n: "0 \<le> namespace_level s" "namespace_level s < 10" using assms by (auto simp: scopes_ok_def)
  note s1 = scopes_ok_new_varobj[OF assms(2) s1_def[THEN meta_eq_to_obj_eq]]
  have "tree_lookup (probe strcmp (var_key s1) w) (vars s (namespace_level s)) = scope s (namespace_level s) w"
    using var_lookup[OF s1(1) n, of w] s1(2)[OF n] by (simp add: s1_def)
  then show ?thesis using n
    by (auto simp: tl_add_var_def new_varobj_def at_level_def lrand48_def bind_apply s1_def split: sum.split)
qed

lemma add_var_env:
  assumes "scopes_ok s" and "env s = m # ms"
  shows "\<exists>v t. tl_add_var w ptr k s = Inr (v, t) \<and> scopes_ok t \<and>
     (if m w \<noteq> None then v = 0 \<and> env t = env s
      else v \<noteq> 0 \<and> env t = m(w \<mapsto> v) # ms \<and>
           varobjs t v = Some \<lparr>v_id = w, v_ptr = ptr, v_type = k, v_flags = 0\<rparr>)"
proof -
  define n where "n = namespace_level s"
  have n: "0 \<le> n" "n < 10" using assms(1) by (auto simp: scopes_ok_def n_def)
  define x where "x = \<lparr>v_id = w, v_ptr = ptr, v_type = k, v_flags = 0\<rparr>"
  define s1 where "s1 = s\<lparr>varobjs := (varobjs s)(brk s \<mapsto> x), brk := brk s + 1\<rparr>"
  note s1 = scopes_ok_new_varobj[OF assms(1) s1_def]
  note run = tl_add_var_run[OF assms(1), of w ptr k, folded n_def x_def, folded s1_def]
  have m: "m = scope s n" using env_Cons[of s] assms(2) n by (simp add: n_def)
  have env1: "env s1 = m # ms" using n s1(2) assms(2) env_cong[of s1 s] by (simp add: s1_def n_def)
  show ?thesis
  proof (cases "m w = None")
    case False
    then show ?thesis using run m s1(1) env1 assms(2) by auto
  next
    case True
    have key: "var_key s1 (brk s) = w" by (simp add: var_key_def s1_def x_def)
    have vars1: "vars s1 = vars s" by (simp add: s1_def)
    have "tree_map (var_key s1) (vars s n) (var_key s1 (brk s)) = None"
      using True s1(2)[OF n] m key by (simp add: scope_def vars1)
    from var_order.insert_map[OF _ UNIV_I this] scopes_okD(1)[OF s1(1) n]
    obtain T where ins: "tree_insert (probe strcmp (var_key s1) w) (vars s n) (brk s) (lrand48_seq s (lrand48_count s)) = Inr T"
      and T: "bst strcmp UNIV (var_key s1) T" "tree_map (var_key s1) T = (scope s1 n)(w \<mapsto> brk s)"
        "set (inorder T) = insert (brk s) (level_vars s1 n)"
      unfolding key vars1 scope_def level_vars_def by metis
    have fresh: "brk s \<notin> level_vars s1 i" if "0 \<le> i" "i < 10" for i
      using level_vars_alloc(2)[OF assms(1) _ that] by (auto simp: level_vars_def vars1)
    note bound = scopes_ok_bind[OF s1(1) _ _ fresh T]
    have "0 < brk s" using assms(1) by (simp add: scopes_ok_def)
    with bound show ?thesis
      using run ins True m env1 s1(2)[OF n] by (simp add: s1_def n_def x_def)
  qed
qed

lemma push_pop_env:
  assumes "scopes_ok s"
  shows "case namespace_push s of
       Inl e \<Rightarrow> e = Assertion \<and> length (env s) = 10
     | Inr (_, t) \<Rightarrow> scopes_ok t \<and> env t = Map.empty # env s \<and> length (env s) < 10" (is ?push) and
    "case namespace_pop s of
       Inl e \<Rightarrow> e = Assertion \<and> length (env s) = 1
     | Inr (_, t) \<Rightarrow> scopes_ok t \<and> env t = tl (env s) \<and> 1 < length (env s)" (is ?pop)
proof -
  define n where "n = namespace_level s"
  have n: "0 \<le> n" "n < 10" using assms by (auto simp: scopes_ok_def n_def)
  have len: "length (env s) = Suc (nat n)" by (simp add: env_def n_def)
  have push: "scopes_ok (clear_level s (n + 1)) \<and> env (clear_level s (n + 1)) = Map.empty # env s" if "n < 9"
  proof -
    let ?t = "clear_level s (n + 1)"
    have lev: "namespace_level ?t = n + 1" by (simp add: clear_level_def)
    have "map (\<lambda>i. scope ?t (int i)) (rev [0..<nat (n + 1)]) = env s"
      using clear_level_scopes(3)[OF assms, of "n + 1"] n that
      by (auto simp: env_def n_def[symmetric] nat_add_distrib)
    then show ?thesis
      using env_Cons[of ?t] clear_level_scopes(1,2)[OF assms, of "n + 1"] lev n that by simp
  qed
  have pop: "scopes_ok (s\<lparr>namespace_level := n - 1\<rparr>) \<and> env (s\<lparr>namespace_level := n - 1\<rparr>) = tl (env s)" if "0 < n"
  proof -
    have "scope (s\<lparr>namespace_level := n - 1\<rparr>) = scope s" by (simp add: fun_eq_iff scope_def var_key_def[abs_def])
    moreover have "Suc (nat (n - 1)) = nat n" using that by simp
    ultimately have "env (s\<lparr>namespace_level := n - 1\<rparr>) = tl (env s)"
      using env_Cons[of s] n that by (simp add: env_def n_def[symmetric])
    moreover have "scopes_ok (s\<lparr>namespace_level := n - 1\<rparr>)"
      using assms that by (simp add: scopes_ok_def level_vars_def var_key_def[abs_def] n_def)
    ultimately show ?thesis by simp
  qed
  show ?push using n push len namespace_push_run[of s] by (auto simp: n_def[symmetric])
  show ?pop using n pop len by (auto simp: namespace_pop_def n_def[symmetric])
qed

lemma scopes_ok_initial: "scopes_ok (initial_tlst rs js rd oe)"
  by (simp add: scopes_ok_def initial_tlst_def level_vars_def)

lemma env_initial: "env (initial_tlst rs js rd oe) = [Map.empty]"
  by (simp add: env_def scope_def initial_tlst_def fun_eq_iff)

lemma sample_scopes: "scopes_ok sample_tlst" "env sample_tlst = [Map.empty]" "namespace_level sample_tlst = 0"
  by (simp_all add: sample_tlst_def scopes_ok_initial env_initial) (simp add: initial_tlst_def)

subsection \<open>Properties of scopes\<close>

text \<open>
  Declaring a variable: a name the innermost scope already binds is refused with null and no scope
  changes; any other name is bound there to a new variable, which hides outer ones. The other scopes and
  the well-formedness of the stack are kept.
\<close>

theorem tl_add_var_spec:
  assumes "scopes_ok s" and "env s = m # ms"
  shows "\<exists>v t. tl_add_var w ptr k s = Inr (v, t) \<and> scopes_ok t \<and>
     (if m w \<noteq> None then v = 0 \<and> env t = env s
      else v \<noteq> 0 \<and> env t = m(w \<mapsto> v) # ms \<and>
           varobjs t v = Some \<lparr>v_id = w, v_ptr = ptr, v_type = k, v_flags = 0\<rparr>)"
  using assms by (rule add_var_env)

text \<open>
  Opening a scope puts an empty one in front of the others, closing it gives them back; the tenth
  scope and closing the outermost one abort.
\<close>

theorem namespace_push_pop:
  assumes "scopes_ok s"
  shows "(case namespace_push s of
       Inl e \<Rightarrow> e = Assertion \<and> length (env s) = 10
     | Inr (_, t) \<Rightarrow> scopes_ok t \<and> env t = Map.empty # env s \<and> length (env s) < 10) \<and>
    (case namespace_pop s of
       Inl e \<Rightarrow> e = Assertion \<and> length (env s) = 1
     | Inr (_, t) \<Rightarrow> scopes_ok t \<and> env t = tl (env s) \<and> 1 < length (env s))"
  using push_pop_env[OF assms] by blast

theorem tl_add_var_spec_witness:
  "\<exists>v t. tl_add_var ''x'' 7 1 sample_tlst = Inr (v, t) \<and> v \<noteq> 0 \<and> env t = [[''x'' \<mapsto> v]]"
  using tl_add_var_spec[OF sample_scopes(1,2), of "''x''" 7 1] by auto

theorem namespace_push_pop_witness:
  "\<exists>t. namespace_push sample_tlst = Inr ((), t) \<and> env t = [Map.empty, Map.empty]"
  using namespace_push_pop[OF sample_scopes(1)] namespace_push_run[of sample_tlst] by (simp add: sample_scopes)

subsection \<open>Variable bindings as a finite map\<close>

abbreviation values_ok :: "tl_var_value treap \<Rightarrow> bool" where
  "values_ok V \<equiv> bst var_value_cmp near vv_ptr V"

lemma vv_find_map: "values_ok V \<Longrightarrow> x \<in> near \<Longrightarrow> vv_find V x = tree_map vv_ptr V x"
  by (simp add: vv_find_def value_order.lookup_map)

lemma tl_get_var_value_map:
  assumes "values_ok V" and "x \<in> near" and "x \<noteq> 0"
  shows "tl_get_var_value V x = (case tree_map vv_ptr V x of None \<Rightarrow> 0 | Some r \<Rightarrow> vv_val r)"
    and "tl_get_var_value_num V x = (case tree_map vv_ptr V x of None \<Rightarrow> 0 | Some r \<Rightarrow> vv_num r)"
  using assms by (auto simp: tl_get_var_value_def tl_get_var_value_num_def vv_find_map dest: tree_map_SomeD split: option.split)

lemma tl_set_var_value_num_map:
  assumes "values_ok V" and "var \<in> near" and "var \<noteq> 0"
  shows "\<exists>V'. tl_set_var_value_num V var val n s = Inr (V', s\<lparr>lrand48_count := Suc (lrand48_count s)\<rparr>) \<and> values_ok V' \<and>
     tree_map vv_ptr V' = (tree_map vv_ptr V)(var \<mapsto> \<lparr>vv_ptr = var, vv_val = val, vv_num = ucast n\<rparr>)"
proof -
  let ?r = "\<lparr>vv_ptr = var, vv_val = val, vv_num = ucast n\<rparr>" and ?y = "lrand48_seq s (lrand48_count s)"
  have insert: "\<exists>V'. tree_insert (probe var_value_cmp vv_ptr var) W ?r ?y = Inr V' \<and> values_ok V' \<and>
      tree_map vv_ptr V' = (tree_map vv_ptr W)(var \<mapsto> ?r)"
    if "values_ok W" "tree_map vv_ptr W var = None" for W
    using value_order.insert_map[OF that(1), of ?r ?y] that(2) assms(2) by auto
  show ?thesis
  proof (cases "tree_map vv_ptr V var")
    case None
    with insert[OF assms(1)] assms show ?thesis
      by (auto simp: tl_set_var_value_num_def Let_def vv_find_map lrand48_def)
  next
    case (Some r)
    then obtain W where W: "tree_delete (probe var_value_cmp vv_ptr var) V = Inr W" "values_ok W"
        "tree_map vv_ptr W = (tree_map vv_ptr V)(var := None)"
      using value_order.delete_map[OF assms(1,2)] by auto
    have "vv_ptr r \<noteq> 0" using tree_map_SomeD[OF Some] assms(3) by simp
    with insert[OF W(2)] W assms Some show ?thesis
      by (auto simp: tl_set_var_value_num_def Let_def vv_find_map lrand48_def)
  qed
qed

text \<open>
  Binding a variable: the new value and number are what later lookups of the variable return,
  whether it was bound before or not, and every other variable keeps its value. This holds as long as
  all addresses lie within two gigabytes of each other.
\<close>

theorem tl_set_var_value_spec:
  assumes "values_ok V" and "var \<in> near" and "var \<noteq> 0"
  shows "\<exists>V' t. tl_set_var_value_num V var val n s = Inr (V', t) \<and> values_ok V' \<and>
     (\<forall>x \<in> near - {0}.
        tl_get_var_value V' x = (if x = var then val else tl_get_var_value V x) \<and>
        tl_get_var_value_num V' x = (if x = var then ucast n else tl_get_var_value_num V x))"
proof -
  obtain V' where V': "tl_set_var_value_num V var val n s = Inr (V', s\<lparr>lrand48_count := Suc (lrand48_count s)\<rparr>)" "values_ok V'"
     "tree_map vv_ptr V' = (tree_map vv_ptr V)(var \<mapsto> \<lparr>vv_ptr = var, vv_val = val, vv_num = ucast n\<rparr>)"
    using tl_set_var_value_num_map[OF assms] by blast
  then show ?thesis using assms(1) by (auto simp: tl_get_var_value_map)
qed

theorem tl_set_var_value_spec_witness:
  "\<exists>V' t. tl_set_var_value_num TNil 3 9 4 sample_tlst = Inr (V', t) \<and> tl_get_var_value V' 3 = 9 \<and>
     tl_get_var_value_num V' 3 = 4"
  using tl_set_var_value_spec[of TNil 3 9 4 sample_tlst] by (auto simp: near_def)

text \<open>
  Beyond that range the comparison of pointers, a 64-bit difference cut to an \<open>int\<close>, confuses
  variables: after a variable is bound, a variable at a distance of exactly four gigabytes has its value.
\<close>

theorem var_value_cmp_truncates:
  assumes "var \<noteq> 0"
  shows "\<exists>V t. tl_set_var_value TNil var val s = Inr (V, t) \<and> tl_get_var_value V (var + 2 ^ 32) = val"
proof -
  have "var_value_cmp (var + 2 ^ 32) var = 0" by (simp add: var_value_cmp_def)
  with assms show ?thesis
    by (simp add: tl_set_var_value_def tl_set_var_value_num_def vv_find_def lrand48_def new_tree_node_def
        tl_get_var_value_def probe_def)
qed

theorem var_value_cmp_truncates_witness:
  "\<exists>V t. tl_set_var_value TNil 1 8 sample_tlst = Inr (V, t) \<and> tl_get_var_value V (1 + 2 ^ 32) = 8"
  by (rule var_value_cmp_truncates) simp

subsection \<open>Fields\<close>

abbreviation field_names :: "tlst \<Rightarrow> int \<Rightarrow> string set" where
  "field_names s i \<equiv> set (inorder (field_tab s i))"

lemma add_field_set:
  assumes "0 \<le> namespace_level s" and "namespace_level s < 10"
    and "bst strcmp UNIV id (field_tab s (namespace_level s))"
  shows "\<exists>t. tl_add_field w s = Inr (w \<notin> field_names s (namespace_level s), t) \<and>
     bst strcmp UNIV id (field_tab t (namespace_level s)) \<and>
     (\<forall>i. i \<noteq> namespace_level s \<longrightarrow> field_tab t i = field_tab s i) \<and>
     (\<forall>i. field_names t i = (if i = namespace_level s then insert w (field_names s i) else field_names s i))"
proof -
  define n where "n = namespace_level s"
  have lookup: "tree_lookup (probe strcmp id w) (field_tab s n) = None \<longleftrightarrow> w \<notin> field_names s n"
    using field_order.lookup_map[OF assms(3)] by (simp add: n_def tree_map_None)
  show ?thesis
  proof (cases "w \<in> field_names s n")
    case True
    with assms lookup show ?thesis
      by (auto simp: tl_add_field_def at_level_def n_def bind_apply)
  next
    case False
    then obtain F where "tree_insert (probe strcmp id w) (field_tab s n) w (lrand48_seq s (lrand48_count s)) = Inr F"
      "bst strcmp UNIV id F" "set (inorder F) = insert w (field_names s n)"
      using field_order.insert_map[OF assms(3), of w] unfolding n_def by (auto simp: tree_map_None)
    with False assms lookup show ?thesis
      by (auto simp: tl_add_field_def at_level_def n_def lrand48_def bind_apply)
  qed
qed

text \<open>
  Declaring a field: accepted exactly when the current name space has no field of that name, and
  then it has; nothing else changes in the table of any level.
\<close>

theorem tl_add_field_spec:
  assumes "0 \<le> namespace_level s" and "namespace_level s < 10"
    and "bst strcmp UNIV id (field_tab s (namespace_level s))"
  shows "\<exists>t. tl_add_field w s = Inr (w \<notin> field_names s (namespace_level s), t) \<and>
     bst strcmp UNIV id (field_tab t (namespace_level s)) \<and>
     (\<forall>i. field_names t i = (if i = namespace_level s then insert w (field_names s i) else field_names s i))"
  using add_field_set[OF assms, of w] by blast

theorem tl_add_field_spec_witness:
  "\<exists>t. tl_add_field ''a'' sample_tlst = Inr (True, t) \<and> field_names t 0 = {''a''}"
  using tl_add_field_spec[of sample_tlst "''a''"] by (auto simp: sample_tlst_def initial_tlst_def)

subsection \<open>The contract of the stack\<close>

text \<open>
  What the semantic pass relies on: a new scope is empty, declaring adds to the innermost scope only,
  closing removes that scope. \<open>scope_stack\<close> proves from it that a block of declarations between
  opening and closing leaves the enclosing scopes as they were.
\<close>

locale scope_stack =
  fixes ok :: "'s \<Rightarrow> bool" and stack :: "'s \<Rightarrow> ('k \<Rightarrow> 'v option) list"
    and push :: "('s, unit) comp" and pop :: "('s, unit) comp" and decl :: "'d \<Rightarrow> ('s, unit) comp"
    and key :: "'d \<Rightarrow> 'k"
  assumes push_law: "ok s \<Longrightarrow> push s = Inr ((), t) \<Longrightarrow> ok t \<and> stack t = Map.empty # stack s"
    and pop_law: "ok s \<Longrightarrow> stack s = m # n # ms \<Longrightarrow> \<exists>t. pop s = Inr ((), t) \<and> ok t \<and> stack t = n # ms"
    and decl_law: "ok s \<Longrightarrow> stack s = m # ms \<Longrightarrow>
      \<exists>t n. decl d s = Inr ((), t) \<and> ok t \<and> stack t = n # ms \<and> m \<subseteq>\<^sub>m n \<and> dom n = insert (key d) (dom m)"
    and stack_nonempty: "ok s \<Longrightarrow> stack s \<noteq> []"
begin

lemma decls_run:
  "ok s \<Longrightarrow> stack s = m # ms \<Longrightarrow>
     \<exists>t n. iterate decl ds s = Inr ((), t) \<and> ok t \<and> stack t = n # ms \<and> m \<subseteq>\<^sub>m n \<and> dom n = key ` set ds \<union> dom m"
proof (induction ds arbitrary: s m)
  case (Cons d ds)
  obtain t n where t: "decl d s = Inr ((), t)" "ok t" "stack t = n # ms" "m \<subseteq>\<^sub>m n" "dom n = insert (key d) (dom m)"
    using decl_law[OF Cons.prems] by blast
  from Cons.IH[OF t(2,3)] t show ?case by (auto intro: map_le_trans)
qed auto

lemma block_restores:
  assumes "ok s" and "push s = Inr ((), s1)"
  shows "\<exists>s2 s3 m. iterate decl ds s1 = Inr ((), s2) \<and> stack s2 = m # stack s \<and> dom m = key ` set ds \<and>
     pop s2 = Inr ((), s3) \<and> ok s3 \<and> stack s3 = stack s"
proof -
  obtain n ms where n: "stack s = n # ms" using stack_nonempty[OF assms(1)] by (cases "stack s") auto
  have "ok s1" "stack s1 = Map.empty # stack s" using push_law[OF assms] by auto
  from decls_run[OF this, of ds] obtain s2 m where
    s2: "iterate decl ds s1 = Inr ((), s2)" "ok s2" "stack s2 = m # stack s" "dom m = key ` set ds" by auto
  from pop_law[OF s2(2)] s2(3) n obtain s3 where "pop s2 = Inr ((), s3)" "ok s3" "stack s3 = stack s" by fastforce
  with s2 show ?thesis by blast
qed

end

abbreviation declare_var :: "string \<times> addr \<times> int \<Rightarrow> unit tl" where
  "declare_var d \<equiv> (case d of (w, p, k) \<Rightarrow> bind (tl_add_var w p k) (\<lambda>_. ret ()))"

lemma declare_var_law:
  assumes "scopes_ok s" and "env s = m # ms"
  shows "\<exists>t n. declare_var d s = Inr ((), t) \<and> scopes_ok t \<and> env t = n # ms \<and> m \<subseteq>\<^sub>m n \<and> dom n = insert (fst d) (dom m)"
proof -
  obtain w p k where d: "d = (w, p, k)" by (cases d) auto
  obtain v t where t: "tl_add_var w p k s = Inr (v, t)" "scopes_ok t"
     "if m w \<noteq> None then v = 0 \<and> env t = env s else v \<noteq> 0 \<and> env t = m(w \<mapsto> v) # ms"
    using add_var_env[OF assms, of w p k] by auto
  show ?thesis
  proof (cases "m w = None")
    case True
    with t d show ?thesis by (auto simp: map_le_def)
  next
    case False
    with t d assms(2) show ?thesis by auto
  qed
qed

interpretation var_scopes: scope_stack scopes_ok env namespace_push namespace_pop declare_var fst
proof unfold_locales
  show "scopes_ok t \<and> env t = Map.empty # env s" if "scopes_ok s" "namespace_push s = Inr ((), t)" for s t
    using push_pop_env(1)[OF that(1)] that(2) by simp
  show "\<exists>t. namespace_pop s = Inr ((), t) \<and> scopes_ok t \<and> env t = n # ms"
    if "scopes_ok s" "env s = m # n # ms" for s m n ms
    using push_pop_env(2)[OF that(1)] that(2) by (auto split: sum.splits)
  show "env s \<noteq> []" if "scopes_ok s" for s by (simp add: env_def)
qed (rule declare_var_law)

text \<open>
  C14: A block of declarations between opening and closing a scope: inside, the new scope binds exactly
  the declared names; after it, every variable means what it meant before. It fails only when ten scopes
  are open.
\<close>

theorem scope_block_restores:
  assumes "scopes_ok s" and "length (env s) < 10"
  shows "\<exists>s1 s2 s3 m. namespace_push s = Inr ((), s1) \<and> iterate declare_var ds s1 = Inr ((), s2) \<and>
     env s2 = m # env s \<and> dom m = fst ` set ds \<and> namespace_pop s2 = Inr ((), s3) \<and>
     (\<forall>w. tl_get_var w s3 = Inr (case env_lookup (env s) w of None \<Rightarrow> 0 | Some v \<Rightarrow> v, s3))"
proof -
  obtain s1 where s1: "namespace_push s = Inr ((), s1)" using push_pop_env(1)[OF assms(1)] assms(2) by (auto split: sum.splits)
  from var_scopes.block_restores[OF assms(1) this, of ds] obtain s2 s3 m where
    s3: "iterate declare_var ds s1 = Inr ((), s2)" "env s2 = m # env s" "dom m = fst ` set ds"
      "namespace_pop s2 = Inr ((), s3)" "scopes_ok s3" "env s3 = env s" by blast
  from get_var_env[OF s3(5)] s1 s3 show ?thesis by auto
qed

theorem scope_block_restores_witness:
  "\<exists>s1 s2 s3 m. namespace_push sample_tlst = Inr ((), s1) \<and>
     iterate declare_var [(''x'', 1, 0), (''y'', 2, 1), (''x'', 3, 1)] s1 = Inr ((), s2) \<and>
     dom m = {''x'', ''y''} \<and> env s2 = [m, Map.empty] \<and> namespace_pop s2 = Inr ((), s3) \<and> tl_get_var ''x'' s3 = Inr (0, s3)"
proof -
  have "fst ` set [(''x'', 1 :: addr, 0 :: int), (''y'', 2, 1), (''x'', 3, 1)] = {''x'', ''y''}" by auto
  with scope_block_restores[OF sample_scopes(1), of "[(''x'', 1, 0), (''y'', 2, 1), (''x'', 3, 1)]"] sample_scopes(2)
  obtain s1 s2 s3 m where "namespace_push sample_tlst = Inr ((), s1)"
    "iterate declare_var [(''x'', 1, 0), (''y'', 2, 1), (''x'', 3, 1)] s1 = Inr ((), s2)"
    "dom m = {''x'', ''y''}" "env s2 = [m, Map.empty]" "namespace_pop s2 = Inr ((), s3)" "tl_get_var ''x'' s3 = Inr (0, s3)"
    by (force simp del: iterate.simps)
  then show ?thesis by blast
qed

subsection \<open>The invariant of the semantic pass\<close>

text \<open>
  \<open>prog_ok\<close>: the registry, the stack of scopes and the tables of fields are well formed, and the nodes
  of combinator trees lie at allocated addresses. The rules below lift it to the operations of the
  registry; the theories of the semantic pass carry it through to \<open>tl_parse\<close>.
\<close>

definition fields_ok :: "tlst \<Rightarrow> bool" where
  "fields_ok s \<longleftrightarrow> (\<forall>i \<in> {0..<10}. bst strcmp UNIV id (field_tab s i))"

definition store_ok :: "tlst \<Rightarrow> bool" where
  "store_ok s \<longleftrightarrow> 0 < brk s \<and> dom (nodes s) \<subseteq> {0<..<brk s}"

definition prog_ok :: "tlst \<Rightarrow> bool" where
  "prog_ok s \<longleftrightarrow> reg_ok s \<and> scopes_ok s \<and> fields_ok s \<and> store_ok s"

definition scope_part :: "tlst \<Rightarrow> _" where
  "scope_part s = (namespace_level s, vars s, varobjs s)"

lemma scopes_ok_frame: "scope_part t = scope_part s \<Longrightarrow> brk s \<le> brk t \<Longrightarrow> scopes_ok s \<Longrightarrow> scopes_ok t"
proof -
  assume a: "scope_part t = scope_part s" "brk s \<le> brk t" "scopes_ok s"
  then have "var_key t = var_key s" "level_vars t = level_vars s"
    by (simp_all add: scope_part_def var_key_def level_vars_def fun_eq_iff)
  moreover have "dom (varobjs s) \<subseteq> {0<..<brk t}" "0 < brk t" using a(2,3) by (auto simp: scopes_ok_def)
  ultimately show "scopes_ok t" using a(1,3) by (simp add: scopes_ok_def scope_part_def)
qed

lemma fields_ok_frame: "field_tab t = field_tab s \<Longrightarrow> fields_ok s \<Longrightarrow> fields_ok t"
  by (simp add: fields_ok_def)

lemma store_ok_frame: "dom (nodes t) \<subseteq> dom (nodes s) \<Longrightarrow> brk s \<le> brk t \<Longrightarrow> store_ok s \<Longrightarrow> store_ok t"
  unfolding store_ok_def by force

lemma prog_ok_frame:
  assumes "prog_ok s" and "reg_ok t" and "scope_part t = scope_part s" and "brk s \<le> brk t"
    and "field_tab t = field_tab s" and "dom (nodes t) \<subseteq> dom (nodes s)"
  shows "prog_ok t"
  using assms scopes_ok_frame fields_ok_frame store_ok_frame unfolding prog_ok_def by blast

lemma prog_ok_initial: "prog_ok (initial_tlst rs js rd oe)"
  by (simp add: prog_ok_def reg_ok_initial scopes_ok_initial fields_ok_def store_ok_def) (simp add: initial_tlst_def)

lemma keeps_prog_modify:
  "(\<And>s. reg_part (f s) = reg_part s \<and> scope_part (f s) = scope_part s \<and> brk s \<le> brk (f s) \<and>
     field_tab (f s) = field_tab s \<and> dom (nodes (f s)) \<subseteq> dom (nodes s)) \<Longrightarrow> keeps prog_ok (modify f)"
  by (rule keeps_modify) (metis prog_ok_frame prog_ok_def reg_ok_frame)

text \<open>Operations on types and combinators leave the rest alone.\<close>

definition rest_of :: "tlst \<Rightarrow> tlst \<Rightarrow> bool" where
  "rest_of s t \<longleftrightarrow> scope_part t = scope_part s \<and> field_tab t = field_tab s \<and> brk s \<le> brk t \<and> nodes t = nodes s"

lemma keeps_prog_rest:
  assumes "keeps reg_ok m" and "\<And>s. keeps (rest_of s) m"
  shows "keeps prog_ok m"
proof (rule keepsI)
  fix s x t
  assume a: "prog_ok s" "m s = Inr (x, t)"
  then have "reg_ok t" using keepsD[OF assms(1)] by (auto simp: prog_ok_def)
  moreover have "rest_of s s" by (simp add: rest_of_def)
  then have "rest_of s t" using keepsD[OF assms(2)] a(2) by blast
  ultimately show "prog_ok t" using a(1) by (auto simp: rest_of_def intro: prog_ok_frame)
qed

lemma keeps_rest [keeps]:
  "keeps (rest_of s) (upd_type p f)" "keeps (rest_of s) (upd_comb p g)" "keeps (rest_of s) (new_type x)"
  "keeps (rest_of s) (new_comb c)" "keeps (rest_of s) lrand48" "keeps (rest_of s) (tl_error e)"
proof -
  show "keeps (rest_of s) (upd_type p f)" "keeps (rest_of s) (upd_comb p g)" "keeps (rest_of s) (tl_error e)"
    unfolding upd_type_def upd_comb_def tl_error_def
    by (intro keeps keeps_modify; simp add: rest_of_def scope_part_def)+
  show "keeps (rest_of s) (new_type x)" "keeps (rest_of s) (new_comb c)" "keeps (rest_of s) lrand48"
    by (auto simp: keeps_def new_type_def new_comb_def lrand48_def rest_of_def scope_part_def)
qed

lemma keeps_rest_lookup [keeps]:
  "keeps (rest_of s) (tl_get_type w)" "keeps (rest_of s) (tl_get_constructor w)" "keeps (rest_of s) (tl_get_function w)"
  unfolding tl_get_type_def tl_get_constructor_def tl_get_function_def by (intro keeps)+

lemma keeps_prog_upd:
  "(\<And>x. ty_id (f x) = ty_id x \<and> constructors (f x) = constructors x) \<Longrightarrow> keeps prog_ok (upd_type p f)"
  "(\<And>x. c_id (g x) = c_id x \<and> c_type (g x) = c_type x) \<Longrightarrow> keeps prog_ok (upd_comb p g)"
  by (rule keeps_prog_rest, erule keeps_upd_type keeps_upd_comb, rule keeps)+

lemma keeps_prog_small [keeps]: "keeps prog_ok lrand48" "keeps prog_ok (tl_error e)"
  by (rule keeps_prog_rest; rule keeps)+

lemma keeps_prog_types [keeps]:
  "keeps prog_ok (tl_add_type_param t x)" "keeps prog_ok (tl_type_set_params t n y)" "keeps prog_ok (tl_type_finalize t)"
  unfolding tl_add_type_param_def tl_type_set_params_def tl_type_finalize_def
  by (intro keeps keeps_prog_upd; simp)+

lemma keeps_prog_add [keeps]:
  "keeps prog_ok (tl_add_type w pn pt)" "keeps prog_ok (tl_add_constructor a w fm)" "keeps prog_ok (tl_add_function a w fm)"
proof -
  have "keeps (rest_of s) (tl_add_type w pn pt)" "keeps (rest_of s) (tl_add_constructor a w fm)"
    "keeps (rest_of s) (tl_add_function a w fm)" for s
    unfolding tl_add_type_def tl_add_constructor_def tl_add_function_def
    by (intro keeps keeps_modify; simp add: rest_of_def scope_part_def)+
  then show "keeps prog_ok (tl_add_type w pn pt)" "keeps prog_ok (tl_add_constructor a w fm)"
    "keeps prog_ok (tl_add_function a w fm)"
    by (simp_all add: keeps_prog_rest keeps_tl_add_type keeps_tl_add_constructor keeps_tl_add_function)
qed

lemma keeps_prog_lookup [keeps]:
  "keeps prog_ok (tl_get_type w)" "keeps prog_ok (tl_get_constructor w)" "keeps prog_ok (tl_get_function w)"
  "keeps prog_ok (mystrcmp2 a b)" "keeps prog_ok (tl_get_var w)" "keeps prog_ok tl_get_last_num_var"
  unfolding tl_get_type_def tl_get_constructor_def tl_get_function_def mystrcmp2_def tl_get_var_def
    tl_get_last_num_var_def
  by (intro keeps)+

lemma keeps_prog_values [keeps]:
  "keeps prog_ok (tl_set_var_value_num V var v n)" "keeps prog_ok (tl_set_var_value V var v)"
  unfolding tl_set_var_value_def tl_set_var_value_num_def by (intro keeps)+

text \<open>Nodes, and the marks on variables.\<close>

lemma keeps_prog_nodes [keeps]: "keeps prog_ok (upd_node p f)" "keeps prog_ok (new_node x)"
proof (auto simp: keeps_def upd_node_def deref_def new_node_def split: option.splits)
  fix s :: tlst and y
  assume a: "prog_ok s" "nodes s p = Some y"
  let ?t = "s\<lparr>nodes := (nodes s)(p \<mapsto> f y)\<rparr>"
  have "dom (nodes ?t) \<subseteq> dom (nodes s)" using a(2) by auto
  moreover have "reg_ok ?t" using a(1) reg_ok_frame[of ?t s] by (simp add: reg_part_def prog_ok_def)
  ultimately show "prog_ok ?t" using prog_ok_frame[OF a(1), of ?t] by (simp add: scope_part_def)
next
  fix s :: tlst
  let ?t = "s\<lparr>nodes := (nodes s)(brk s \<mapsto> x), brk := brk s + 1\<rparr>"
  assume a: "prog_ok s"
  have "scopes_ok ?t" "reg_ok ?t"
    using a scopes_ok_frame[of ?t s] reg_ok_frame[of ?t s] by (simp_all add: prog_ok_def scope_part_def reg_part_def)
  moreover have "store_ok ?t" using a unfolding prog_ok_def store_ok_def by force
  ultimately show "prog_ok ?t" using a fields_ok_frame[of ?t s] by (simp add: prog_ok_def)
qed

lemma scopes_ok_upd_var:
  assumes "scopes_ok s" and "varobjs s p = Some x" and "v_id y = v_id x"
  shows "scopes_ok (s\<lparr>varobjs := (varobjs s)(p \<mapsto> y)\<rparr>)"
proof -
  let ?t = "s\<lparr>varobjs := (varobjs s)(p \<mapsto> y)\<rparr>"
  have "var_key ?t = var_key s" "level_vars ?t = level_vars s" "dom (varobjs ?t) = dom (varobjs s)"
    using assms by (auto simp: var_key_def level_vars_def fun_eq_iff)
  moreover have "brk ?t = brk s" "namespace_level ?t = namespace_level s" "vars ?t = vars s" by simp_all
  ultimately show ?thesis using assms(1) unfolding scopes_ok_def by presburger
qed

lemma keeps_prog_flags [keeps]: "keeps prog_ok (upd_var p (\<lambda>x. x\<lparr>v_flags := F x\<rparr>))"
proof (auto simp: keeps_def upd_var_def deref_def split: option.splits)
  fix s :: tlst and x
  let ?t = "s\<lparr>varobjs := (varobjs s)(p \<mapsto> x\<lparr>v_flags := F x\<rparr>)\<rparr>"
  assume a: "prog_ok s" "varobjs s p = Some x"
  then show "prog_ok ?t"
    using scopes_ok_upd_var[of s p x] reg_ok_frame[of ?t s] fields_ok_frame[of ?t s] store_ok_frame[of ?t s]
    by (simp add: prog_ok_def reg_part_def)
qed

text \<open>Variables, fields and name spaces.\<close>

lemma keeps_prog_parts:
  assumes "keeps reg_ok m" and "keeps scopes_ok m" and "keeps fields_ok m"
    and "\<And>s :: tlst. keeps (\<lambda>t :: tlst. nodes t = nodes s \<and> brk s \<le> brk t) m"
  shows "keeps prog_ok m"
proof (rule keepsI)
  fix s x t
  assume a: "prog_ok s" "m s = Inr (x, t)"
  have "nodes t = nodes s \<and> brk s \<le> brk t" using keepsD[OF assms(4) _ a(2), of s] by simp
  then have "store_ok t" using a(1) store_ok_frame[of t s] by (simp add: prog_ok_def)
  moreover have "reg_ok t" "scopes_ok t" "fields_ok t"
    using a keepsD[OF assms(1) _ a(2)] keepsD[OF assms(2) _ a(2)] keepsD[OF assms(3) _ a(2)] by (simp_all add: prog_ok_def)
  ultimately show "prog_ok t" by (simp add: prog_ok_def)
qed

lemma keeps_scopes_ok:
  "keeps scopes_ok (tl_add_field w)" "keeps scopes_ok tl_clear_fields" "keeps scopes_ok (tl_add_var w p k)"
  "keeps scopes_ok tl_clear_vars" "keeps scopes_ok namespace_push" "keeps scopes_ok namespace_pop"
proof -
  have mod: "keeps scopes_ok (modify f)" if "\<And>s. scope_part (f s) = scope_part s \<and> brk s \<le> brk (f s)" for f
    using that scopes_ok_frame by (intro keeps_modify) blast
  have "keeps scopes_ok lrand48" by (auto simp: keeps_def lrand48_def scope_part_def elim!: scopes_ok_frame[rotated 2])
  then show "keeps scopes_ok (tl_add_field w)" "keeps scopes_ok tl_clear_fields"
    unfolding tl_add_field_def tl_clear_fields_def by (intro keeps mod; simp add: scope_part_def)+
  show "keeps scopes_ok (tl_add_var w p k)"
  proof (rule keepsI)
    fix s x t
    assume a: "scopes_ok s" "tl_add_var w p k s = Inr (x, t)"
    have "0 \<le> namespace_level s" using a(1) by (simp add: scopes_ok_def)
    from add_var_env[OF a(1) env_Cons[OF this], of w p k] a(2) show "scopes_ok t" by auto
  qed
  show "keeps scopes_ok tl_clear_vars"
  proof (rule keepsI)
    fix s x t
    assume a: "scopes_ok s" "tl_clear_vars s = Inr (x, t)"
    then have n: "0 \<le> namespace_level s" "namespace_level s < 10" by (simp_all add: scopes_ok_def)
    with a have "scope_part t = scope_part (clear_level s (namespace_level s)) \<and> brk t = brk (clear_level s (namespace_level s))"
      by (auto simp: tl_clear_vars_run scope_part_def clear_level_def)
    with clear_level_scopes(1)[OF a(1) n] show "scopes_ok t" by (auto elim: scopes_ok_frame[rotated 2])
  qed
  show "keeps scopes_ok namespace_push" "keeps scopes_ok namespace_pop"
    by (rule keepsI, use push_pop_env in fastforce)+
qed

lemma keeps_fields_ok:
  "keeps fields_ok (tl_add_field w)" "keeps fields_ok tl_clear_fields" "keeps fields_ok (tl_add_var w p k)"
  "keeps fields_ok tl_clear_vars" "keeps fields_ok namespace_push" "keeps fields_ok namespace_pop"
proof -
  have mod: "keeps fields_ok (modify f)" if "\<And>s. field_tab (f s) = field_tab s" for f
    using that fields_ok_frame by (intro keeps_modify) blast
  have r: "keeps fields_ok lrand48" "keeps fields_ok (new_varobj v)" "keeps fields_ok (tl_del_var q)" for v q
    unfolding tl_del_var_def by (auto simp: keeps_def lrand48_def new_varobj_def fields_ok_def)
  show "keeps fields_ok (tl_add_field w)"
  proof (rule keepsI)
    fix s x t
    assume a: "fields_ok s" "tl_add_field w s = Inr (x, t)"
    then have n: "0 \<le> namespace_level s" "namespace_level s < 10"
      by (auto simp: tl_add_field_def bind_apply split: if_splits sum.splits)
    then have "bst strcmp UNIV id (field_tab s (namespace_level s))" using a(1) by (simp add: fields_ok_def)
    from add_field_set[OF n this, of w] a have "bst strcmp UNIV id (field_tab t (namespace_level s))"
      "\<forall>i. i \<noteq> namespace_level s \<longrightarrow> field_tab t i = field_tab s i" by auto
    with a(1) show "fields_ok t" unfolding fields_ok_def by metis
  qed
  show c: "keeps fields_ok tl_clear_fields" unfolding tl_clear_fields_def
    by (intro keeps keeps_modify) (auto simp: fields_ok_def tree_clear_eq)
  show "keeps fields_ok (tl_add_var w p k)" unfolding tl_add_var_def by (intro keeps r mod) simp
  show v: "keeps fields_ok tl_clear_vars" unfolding tl_clear_vars_def tree_act_inorder
    by (intro keeps keeps_iterate r mod) simp
  show "keeps fields_ok namespace_push" "keeps fields_ok namespace_pop"
    unfolding namespace_push_def namespace_pop_def by (intro keeps mod v c; simp)+
qed

lemma keeps_prog_scopes [keeps]:
  "keeps prog_ok (tl_add_field w)" "keeps prog_ok tl_clear_fields" "keeps prog_ok (tl_add_var w p k)"
  "keeps prog_ok tl_clear_vars" "keeps prog_ok namespace_push" "keeps prog_ok namespace_pop"
proof -
  let ?N = "\<lambda>s t :: tlst. nodes t = nodes s \<and> brk s \<le> brk t"
  have r: "keeps (?N s) lrand48" "keeps (?N s) (new_varobj v)" "keeps (?N s) (tl_del_var q)" for s v q
    unfolding tl_del_var_def by (auto simp: keeps_def lrand48_def new_varobj_def)
  have f: "keeps (?N s) (tl_add_field w)" "keeps (?N s) tl_clear_fields" "keeps (?N s) (tl_add_var w p k)"
    "keeps (?N s) tl_clear_vars" for s
    unfolding tl_add_field_def tl_clear_fields_def tl_add_var_def tl_clear_vars_def tree_act_inorder
    by (intro keeps keeps_iterate keeps_modify r; simp)+
  have "keeps (?N s) namespace_push" "keeps (?N s) namespace_pop" for s
    unfolding namespace_push_def namespace_pop_def by (intro keeps keeps_modify f; simp)+
  with f show "keeps prog_ok (tl_add_field w)" "keeps prog_ok tl_clear_fields" "keeps prog_ok (tl_add_var w p k)"
    "keeps prog_ok tl_clear_vars" "keeps prog_ok namespace_push" "keeps prog_ok namespace_pop"
    using keeps_prog_parts[OF keeps_reg_scopes(1) keeps_scopes_ok(1) keeps_fields_ok(1)]
      keeps_prog_parts[OF keeps_reg_scopes(2) keeps_scopes_ok(2) keeps_fields_ok(2)]
      keeps_prog_parts[OF keeps_reg_scopes(3) keeps_scopes_ok(3) keeps_fields_ok(3)]
      keeps_prog_parts[OF keeps_reg_scopes(4) keeps_scopes_ok(4) keeps_fields_ok(4)]
      keeps_prog_parts[OF keeps_reg_scopes(5) keeps_scopes_ok(5) keeps_fields_ok(5)]
      keeps_prog_parts[OF keeps_reg_scopes(6) keeps_scopes_ok(6) keeps_fields_ok(6)] by blast+
qed

text \<open>The outermost scope is entered anew for every combinator.\<close>

lemma keeps_prog_level [keeps]: "keeps prog_ok (modify (\<lambda>s. s\<lparr>namespace_level := 0\<rparr>))"
proof (rule keeps_modify)
  fix s :: tlst
  let ?t = "s\<lparr>namespace_level := 0\<rparr>"
  assume a: "prog_ok s"
  then have "scopes_ok ?t" by (simp add: prog_ok_def scopes_ok_def level_vars_def var_key_def[abs_def])
  with a show "prog_ok ?t"
    using reg_ok_frame[of ?t s] fields_ok_frame[of ?t s] store_ok_frame[of ?t s] by (simp add: prog_ok_def reg_part_def)
qed

end
