(* ===== verification/TL_Combinator.thy ===== *)
theory TL_Combinator
  imports TL_Scopes TL_Crc32
begin

section \<open>Combinator trees: copies, text form, arity and union (tl-parser.c, lines 1300-1592)\<close>

text \<open>
  A combinator tree is a linked structure in the store. Functions that follow its pointers
  take fuel, one unit per level; callers give \<open>nat (brk s)\<close>, more than the number of nodes
  ever allocated, which bounds the depth of every acyclic structure. The text buffer is the
  prefix of \<open>buf\<close> up to \<open>buf_pos\<close>; writing past its \<open>2^20\<close> bytes is a fault.
  After the definitions: every function keeps \<open>prog_ok\<close>, copies are fresh and equal to the original,
  printed tags can be read back, and unions follow the table \<open>union_kind\<close>.
\<close>

definition zero_node :: cnode where
  "zero_node = \<lparr>act = act_var, left = 0, right = 0, data = DNull, flags = 0, ctype = type_num,
     type_len = 0, type_flags = 0\<rparr>"

definition alloc_ctree_node :: "addr tl" where
  "alloc_ctree_node = new_node zero_node"

definition free_node :: "addr \<Rightarrow> unit tl" where
  "free_node p = modify (\<lambda>s. s\<lparr>nodes := (nodes s)(p := None)\<rparr>)"

definition with_fuel :: "(nat \<Rightarrow> 'a tl) \<Rightarrow> 'a tl" where
  "with_fuel f = bind (gets (\<lambda>s. nat (brk s))) f"

primrec tl_tree_dup :: "nat \<Rightarrow> addr \<Rightarrow> addr tl" where
  "tl_tree_dup 0 T = (if T = 0 then ret 0 else raise OutOfFuel)"
| "tl_tree_dup (Suc n) T =
     (if T = 0 then ret 0
      else
        bind (node T) (\<lambda>x.
        bind (new_node x) (\<lambda>S.
        bind (tl_tree_dup n (left x)) (\<lambda>l.
        bind (upd_node S (\<lambda>y. y\<lparr>left := l\<rparr>)) (\<lambda>_.
        bind (tl_tree_dup n (right x)) (\<lambda>r.
        bind (upd_node S (\<lambda>y. y\<lparr>right := r\<rparr>)) (\<lambda>_.
        ret S)))))))"

text \<open>A \<open>data\<close> pointer read as a type, as a node, or as a string.\<close>

fun data_type :: "cdata \<Rightarrow> addr tl" where
  "data_type (DType t) = ret t"
| "data_type DNull = ret 0"
| "data_type _ = raise NullDeref"

fun data_ptr :: "cdata \<Rightarrow> addr tl" where
  "data_ptr (DNode p) = ret p"
| "data_ptr (DType t) = ret t"
| "data_ptr DNull = ret 0"
| "data_ptr DMinus1 = ret (-1)"
| "data_ptr (DStr _) = raise NullDeref"

fun data_str :: "cdata \<Rightarrow> string tl" where
  "data_str (DStr w) = ret w"
| "data_str _ = raise NullDeref"

text \<open>The loop of \<open>tl_tree_get_type\<close>, lines 1322-1328.\<close>

primrec get_type_loop :: "nat \<Rightarrow> addr \<Rightarrow> addr tl" where
  "get_type_loop 0 T = raise OutOfFuel"
| "get_type_loop (Suc n) T =
     bind (node T) (\<lambda>x.
     if left x \<noteq> 0 then
       bind (node (left x)) (\<lambda>y.
       if act y = act_array then ret 0
       else bind (check (ctype y = type_type)) (\<lambda>_. get_type_loop n (left x)))
     else
       bind (check (act x = act_type \<or> act x = act_var \<or> act x = act_array)) (\<lambda>_.
       if act x = act_type then data_type (data x) else ret 0))"

definition tl_tree_get_type :: "addr \<Rightarrow> addr tl" where
  "tl_tree_get_type T =
     bind (node T) (\<lambda>x.
     bind (check (ctype x = type_type)) (\<lambda>_.
     if act x = act_array then ret 0 else with_fuel (\<lambda>n. get_type_loop n T)))"

primrec set_len_loop :: "nat \<Rightarrow> addr \<Rightarrow> unit tl" where
  "set_len_loop 0 H = raise OutOfFuel"
| "set_len_loop (Suc n) H =
     bind (node H) (\<lambda>x.
     if left x \<noteq> 0 then
       bind (upd_node (left x) (\<lambda>y. y\<lparr>type_len := type_len x + 1\<rparr>)) (\<lambda>_. set_len_loop n (left x))
     else
       bind (check (ctype x = type_type)) (\<lambda>_.
       bind (data_type (data x)) (\<lambda>t.
       bind (check (t \<noteq> 0)) (\<lambda>_.
       bind (tyobj t) (\<lambda>ty. check (type_len x = params_num ty))))))"

definition tl_tree_set_len :: "addr \<Rightarrow> unit tl" where
  "tl_tree_set_len T = with_fuel (\<lambda>n. set_len_loop n T)"

subsection \<open>The text buffer\<close>

definition buf_size :: nat where "buf_size = 1048576"

definition tl_buf_reset :: "unit tl" where
  "tl_buf_reset = modify (\<lambda>s. s\<lparr>buf := []\<rparr>)"

definition buf_put :: "string \<Rightarrow> unit tl" where
  "buf_put w =
     bind (gets buf) (\<lambda>b.
     if length b + length w < buf_size then modify (\<lambda>s. s\<lparr>buf := b @ w\<rparr>) else raise OutOfBounds)"

definition tl_buf_add_string :: "string \<Rightarrow> unit tl" where
  "tl_buf_add_string w = buf_put (CHR '' '' # w)"

definition tl_buf_add_string_nospace :: "string \<Rightarrow> unit tl" where
  "tl_buf_add_string_nospace w = buf_put w"

definition tl_buf_add_string_q :: "string \<Rightarrow> bool \<Rightarrow> unit tl" where
  "tl_buf_add_string_q w x = (if x then tl_buf_add_string w else tl_buf_add_string_nospace w)"

subsection \<open>Number formats\<close>

fun nat_dec :: "nat \<Rightarrow> string" where
  "nat_dec n = (if n < 10 then [char_of (48 + n)] else nat_dec (n div 10) @ [char_of (48 + n mod 10)])"

declare nat_dec.simps [simp del]

definition int_dec :: "int \<Rightarrow> string" where
  "int_dec i = (if i < 0 then CHR ''-'' # nat_dec (nat (- i)) else nat_dec (nat i))"

text \<open>\<open>%lld\<close> and \<open>%08x\<close>\<close>

definition lld :: "u64 \<Rightarrow> string" where
  "lld x = int_dec (sint x)"

definition hex_digit :: "nat \<Rightarrow> char" where
  "hex_digit d = (if d < 10 then char_of (48 + d) else char_of (87 + d))"

definition x08 :: "u32 \<Rightarrow> string" where
  "x08 x = map (\<lambda>i. hex_digit (unat (drop_bit (4 * i) x) mod 16)) [7, 6, 5, 4, 3, 2, 1, 0]"

subsection \<open>The text form of a tree\<close>

fun TL_TYPE :: "combinator_tree_type \<Rightarrow> string" where
  "TL_TYPE type_num = ''type_num''"
| "TL_TYPE type_type = ''type_type''"
| "TL_TYPE type_list_item = ''type_list_item''"
| "TL_TYPE type_list = ''type_list''"
| "TL_TYPE type_num_value = ''type_num_value''"

definition shown_id :: "string option \<Rightarrow> string \<Rightarrow> string" where
  "shown_id real i = (case real of Some r \<Rightarrow> r | None \<Rightarrow> i)"

text \<open>The case \<open>act_type\<close>, lines 1378-1394.\<close>

definition buf_add_type :: "cnode \<Rightarrow> bool \<Rightarrow> unit tl" where
  "buf_add_type T x =
     (let bare = flags T AND 1 \<noteq> 0 \<and> flags T AND 4 = 0 in
      bind (if bare then tl_buf_add_string_q ''%'' x else ret ()) (\<lambda>_.
      let x = (x \<and> \<not> bare) in
      if flags T AND 2 \<noteq> 0 then bind (data_str (data T)) (\<lambda>w. tl_buf_add_string_q w x)
      else
        bind (data_type (data T)) (\<lambda>t.
        bind (tyobj t) (\<lambda>ty.
        if flags T AND 4 \<noteq> 0 then
          bind (check (length (constructors ty) = 1)) (\<lambda>_.
          bind (comb (hd (constructors ty))) (\<lambda>c.
          tl_buf_add_string_q (shown_id (c_real_id c) (c_id c)) x))
        else tl_buf_add_string_q (shown_id (ty_real_id ty) (ty_id ty)) x))))"

text \<open>The name of the field a variable node points to.\<close>

definition var_name :: "cnode \<Rightarrow> string tl" where
  "var_name T =
     bind (data_ptr (data T)) (\<lambda>p. bind (node p) (\<lambda>v. data_str (data v)))"

primrec tl_buf_add_tree :: "nat \<Rightarrow> addr \<Rightarrow> bool \<Rightarrow> unit tl" where
  "tl_buf_add_tree 0 T x = (if T = 0 then ret () else raise OutOfFuel)"
| "tl_buf_add_tree (Suc n) T x =
     (if T = 0 then ret ()
      else
        bind (check (T \<noteq> -1 \<and> T \<noteq> -2)) (\<lambda>_.
        bind (node T) (\<lambda>N.
        case act N of
          act_question_mark \<Rightarrow> tl_buf_add_string_q ''?'' x
        | act_type \<Rightarrow> buf_add_type N x
        | act_field \<Rightarrow>
            bind (if data N \<noteq> DNull then
                    bind (data_str (data N)) (\<lambda>w.
                    bind (tl_buf_add_string_q w x) (\<lambda>_. tl_buf_add_string_q '':'' False))
                  else ret ()) (\<lambda>_.
            bind (tl_buf_add_tree n (left N) (x \<and> data N = DNull)) (\<lambda>_.
            tl_buf_add_tree n (right N) True))
        | act_union \<Rightarrow>
            bind (tl_buf_add_tree n (left N) x) (\<lambda>_. tl_buf_add_tree n (right N) True)
        | act_var \<Rightarrow>
            if data N = DMinus1 then ret ()
            else
              bind (var_name N) (\<lambda>w.
              bind (tl_buf_add_string_q w x) (\<lambda>_.
              if ctype N = type_num \<and> type_flags N \<noteq> 0
              then tl_buf_add_string_q (''+'' @ lld (type_flags N)) False else ret ()))
        | act_arg \<Rightarrow>
            bind (tl_buf_add_tree n (left N) x) (\<lambda>_. tl_buf_add_tree n (right N) True)
        | act_array \<Rightarrow>
            bind (if left N \<noteq> 0 then bind (node (left N)) (\<lambda>l. ret (flags l AND 128 = 0))
                  else ret False) (\<lambda>shown.
            bind (if shown then
                    bind (tl_buf_add_tree n (left N) x) (\<lambda>_. tl_buf_add_string_q ''*'' False)
                  else ret ()) (\<lambda>_.
            bind (tl_buf_add_string_q ''['' (x \<and> \<not> shown)) (\<lambda>_.
            bind (tl_buf_add_tree n (right N) True) (\<lambda>_.
            tl_buf_add_string_q '']'' True))))
        | act_plus \<Rightarrow>
            bind (tl_buf_add_tree n (left N) x) (\<lambda>_.
            bind (tl_buf_add_string_q ''+'' False) (\<lambda>_.
            tl_buf_add_tree n (right N) False))
        | act_nat_const \<Rightarrow> tl_buf_add_string_q (lld (type_flags N)) x
        | act_opt_field \<Rightarrow>
            bind (node (left N)) (\<lambda>l.
            bind (var_name l) (\<lambda>w.
            bind (tl_buf_add_string_q w x) (\<lambda>_.
            bind (tl_buf_add_string_q ''.'' False) (\<lambda>_.
            bind (tl_buf_add_string_q (lld (type_flags l)) False) (\<lambda>_.
            bind (tl_buf_add_string_q ''?'' False) (\<lambda>_.
            tl_buf_add_tree n (right N) False)))))))))"

text \<open>The description \<open>id left = right\<close> in the buffer.\<close>

definition buf_describe :: "string \<Rightarrow> addr \<Rightarrow> addr \<Rightarrow> unit tl" where
  "buf_describe w l r =
     bind tl_buf_reset (\<lambda>_.
     bind (tl_buf_add_string_nospace w) (\<lambda>_.
     bind (with_fuel (\<lambda>n. tl_buf_add_tree n l True)) (\<lambda>_.
     bind (tl_buf_add_string ''='') (\<lambda>_.
     with_fuel (\<lambda>n. tl_buf_add_tree n r True)))))"

definition tl_count_combinator_name :: "addr \<Rightarrow> u32 tl" where
  "tl_count_combinator_name c =
     bind (check (c \<noteq> 0)) (\<lambda>_.
     bind (comb c) (\<lambda>x.
     bind (buf_describe (shown_id (c_real_id x) (c_id x)) (c_left x) (c_right x)) (\<lambda>_.
     bind (if c_name x = 0 then
             bind (gets buf) (\<lambda>b.
             bind (lift (compute_crc32 (map of_char b) (int (length b)))) (\<lambda>h.
             upd_comb c (\<lambda>y. y\<lparr>c_name := h\<rparr>)))
           else ret ()) (\<lambda>_.
     bind (comb c) (\<lambda>x. ret (c_name x))))))"

definition tl_print_combinator :: "addr \<Rightarrow> u32 tl" where
  "tl_print_combinator c =
     bind (comb c) (\<lambda>x.
     bind (buf_describe (shown_id (c_real_id x) (c_id x) @ ''#'' @ x08 (c_name x)) (c_left x) (c_right x)) (\<lambda>_.
     bind (modify (\<lambda>s. if 1 \<le> output_expressions s then s\<lparr>log := buf s # log s\<rparr> else s)) (\<lambda>_.
     ret (c_name x))))"

subsection \<open>Arity inference and union\<close>

definition is_num :: "combinator_tree_type \<Rightarrow> bool" where
  "is_num t \<longleftrightarrow> t = type_num \<or> t = type_num_value"

primrec finish_subtree_rec :: "nat \<Rightarrow> addr \<Rightarrow> int \<Rightarrow> u64 \<Rightarrow> bool tl" where
  "finish_subtree_rec 0 R x y = raise OutOfFuel"
| "finish_subtree_rec (Suc n) R x y =
     bind (node R) (\<lambda>N.
     bind (check (ctype N = type_type)) (\<lambda>_.
     bind (check (type_len N < 0)) (\<lambda>_.
     bind (check (act N = act_arg \<or> act N = act_type)) (\<lambda>_.
     bind (upd_node R (\<lambda>N. N\<lparr>type_len := x, type_flags := y\<rparr>)) (\<lambda>_.
     if act N = act_type then
       bind (data_type (data N)) (\<lambda>t.
       bind (check (t \<noteq> 0)) (\<lambda>_. tl_type_set_params t x y))
     else
       bind (node (right N)) (\<lambda>Q.
       bind (check (ctype Q = type_type \<and> type_len Q = 0 \<or> is_num (ctype Q))) (\<lambda>_.
       finish_subtree_rec n (left N) (x + 1) (y * 2 + (if is_num (ctype Q) then 1 else 0)))))))))"

definition tl_finish_subtree :: "addr \<Rightarrow> bool tl" where
  "tl_finish_subtree R =
     bind (check (R \<noteq> 0)) (\<lambda>_.
     bind (node R) (\<lambda>N.
     if ctype N \<noteq> type_type then ret True
     else if 0 \<le> type_len N then
       (if 0 < type_len N then bind (tl_error ''Not enough params'') (\<lambda>_. ret False) else ret True)
     else with_fuel (\<lambda>n. finish_subtree_rec n R 0 0)))"

text \<open>The case \<open>type_type\<close> of \<open>tl_union\<close>, lines 1561-1587: \<open>R\<close> becomes the next argument of \<open>L\<close>.\<close>

definition union_arg :: "addr \<Rightarrow> addr \<Rightarrow> addr \<Rightarrow> addr tl" where
  "union_arg v L R =
     bind (node L) (\<lambda>l.
     bind (node R) (\<lambda>r.
     if type_len l = 0 then bind (tl_error ''Arguments number exceeds type arity'') (\<lambda>_. ret 0)
     else if \<not> is_num (ctype r) \<and> ctype r \<noteq> type_type then
       bind (tl_error ''Union: type mistmatch'') (\<lambda>_. ret 0)
     else
       bind (if type_len r < 0 then tl_finish_subtree R else ret True) (\<lambda>ok.
       if \<not> ok then ret 0
       else
         bind (node L) (\<lambda>l.
         bind (node R) (\<lambda>r.
         if 0 < type_len r then
           bind (tl_error ''Argument type must have full number of arguments'') (\<lambda>_. ret 0)
         else if 0 < type_len l \<and> (type_flags l AND 1 \<noteq> 0) \<noteq> is_num (ctype r) then
           bind (tl_error (''Argument types mistmatch: L->type_flags = '' @ lld (flags l)
                           @ '', R->type = '' @ TL_TYPE (ctype r))) (\<lambda>_. ret 0)
         else
           bind (upd_node v (\<lambda>N. N\<lparr>ctype := type_type, act := act_arg,
                   type_len := (if 0 < type_len l then type_len l - 1 else -1),
                   type_flags := signed_drop_bit 1 (type_flags l)\<rparr>)) (\<lambda>_.
           ret v))))))"

definition tl_union :: "addr \<Rightarrow> addr \<Rightarrow> addr tl" where
  "tl_union L R =
     (if L = 0 then ret R
      else if R = 0 then ret L
      else
        bind (new_node (zero_node\<lparr>left := L, right := R\<rparr>)) (\<lambda>v.
        bind (node L) (\<lambda>l.
        bind (node R) (\<lambda>r.
        case ctype l of
          type_num \<Rightarrow>
            if ctype r \<noteq> type_num_value then bind (tl_error ''Union: type mistmatch'') (\<lambda>_. ret 0)
            else bind (free_node v) (\<lambda>_.
                 bind (upd_node L (\<lambda>N. N\<lparr>type_flags := type_flags N + type_flags r\<rparr>)) (\<lambda>_. ret L))
        | type_num_value \<Rightarrow>
            if \<not> is_num (ctype r) then bind (tl_error ''Union: type mistmatch'') (\<lambda>_. ret 0)
            else bind (free_node v) (\<lambda>_.
                 bind (upd_node R (\<lambda>N. N\<lparr>type_flags := type_flags N + type_flags l\<rparr>)) (\<lambda>_. ret R))
        | type_list_item \<Rightarrow>
            if ctype r \<noteq> type_list_item then bind (tl_error ''Union: type mistmatch'') (\<lambda>_. ret 0)
            else bind (upd_node v (\<lambda>N. N\<lparr>ctype := type_list, act := act_union\<rparr>)) (\<lambda>_. ret v)
        | type_list \<Rightarrow>
            if ctype r \<noteq> type_list_item then bind (tl_error ''Union: type mistmatch'') (\<lambda>_. ret 0)
            else bind (upd_node v (\<lambda>N. N\<lparr>ctype := type_list, act := act_union\<rparr>)) (\<lambda>_. ret v)
        | type_type \<Rightarrow> union_arg v L R))))"

text \<open>\<open>TL_TRY\<close>: the result joins \<open>x\<close>, or the function returns 0.\<close>

definition TL_TRY :: "addr tl \<Rightarrow> addr \<Rightarrow> (addr \<Rightarrow> addr tl) \<Rightarrow> addr tl" where
  "TL_TRY f x k =
     bind f (\<lambda>t. if t = 0 then ret 0
       else bind (tl_union x t) (\<lambda>x. if x = 0 then ret 0 else k x))"

subsection \<open>The registry invariant is kept\<close>

lemma keeps_case_ctype [keeps]:
  "keeps I a \<Longrightarrow> keeps I b \<Longrightarrow> keeps I c \<Longrightarrow> keeps I d \<Longrightarrow> keeps I e \<Longrightarrow>
     keeps I (case t of type_num \<Rightarrow> a | type_num_value \<Rightarrow> b | type_type \<Rightarrow> c | type_list_item \<Rightarrow> d | type_list \<Rightarrow> e)"
  by (simp split: combinator_tree_type.split)

lemma keeps_data [keeps]: "keeps I (data_type d)" "keeps I (data_ptr d)" "keeps I (data_str d)"
  by (cases d; simp add: keeps)+

lemma keeps_with_fuel [keeps]: "(\<And>n. keeps I (f n)) \<Longrightarrow> keeps I (with_fuel f)"
  unfolding with_fuel_def by (intro keeps)

lemma keeps_reg_nodes [keeps]: "keeps prog_ok alloc_ctree_node" "keeps prog_ok (free_node p)"
  unfolding alloc_ctree_node_def free_node_def by (intro keeps keeps_prog_modify; simp add: reg_part_def scope_part_def)+

lemma keeps_tl_tree_dup [keeps]: "keeps prog_ok (tl_tree_dup n T)"
  by (induction n arbitrary: T) (simp_all add: keeps)

lemma keeps_get_type_loop [keeps]: "keeps I (get_type_loop n T)"
  by (induction n arbitrary: T) (simp_all add: keeps)

lemma keeps_tl_tree_get_type [keeps]: "keeps I (tl_tree_get_type T)"
  unfolding tl_tree_get_type_def by (intro keeps)

lemma keeps_set_len_loop [keeps]: "keeps prog_ok (set_len_loop n T)"
  by (induction n arbitrary: T) (simp_all add: keeps)

lemma keeps_reg_buf [keeps]:
  "keeps prog_ok tl_buf_reset" "keeps prog_ok (buf_put w)" "keeps prog_ok (tl_buf_add_string w)"
  "keeps prog_ok (tl_buf_add_string_nospace w)" "keeps prog_ok (tl_buf_add_string_q w x)"
  unfolding tl_buf_reset_def buf_put_def tl_buf_add_string_def tl_buf_add_string_nospace_def tl_buf_add_string_q_def
  by (intro keeps keeps_prog_modify; simp add: reg_part_def scope_part_def)+

lemma keeps_buf_add_type [keeps]: "keeps prog_ok (buf_add_type N x)"
  unfolding buf_add_type_def by (intro keeps)

lemma keeps_var_name [keeps]: "keeps I (var_name N)"
  unfolding var_name_def by (intro keeps)

lemma keeps_tl_buf_add_tree [keeps]: "keeps prog_ok (tl_buf_add_tree n T x)"
proof (induction n arbitrary: T x)
  case (Suc n)
  then show ?case
    unfolding tl_buf_add_tree.simps by (intro keeps) (simp add: keeps Let_def split: combinator_tree_action.split)
qed (simp add: keeps)

lemma keeps_naming [keeps]:
  "keeps prog_ok (buf_describe w l r)" "keeps prog_ok (tl_count_combinator_name c)" "keeps prog_ok (tl_print_combinator c)"
  unfolding buf_describe_def tl_count_combinator_name_def tl_print_combinator_def
  by (intro keeps keeps_prog_upd keeps_prog_modify; simp add: reg_part_def scope_part_def)+

lemma keeps_finish_subtree_rec [keeps]: "keeps prog_ok (finish_subtree_rec n R x y)"
  by (induction n arbitrary: R x y) (simp_all add: keeps)

lemma keeps_union [keeps]:
  "keeps prog_ok (tl_finish_subtree R)" "keeps prog_ok (union_arg v L R)" "keeps prog_ok (tl_union L R)"
  unfolding tl_finish_subtree_def union_arg_def tl_union_def by (intro keeps)+

lemma keeps_TL_TRY [keeps]: "keeps prog_ok f \<Longrightarrow> (\<And>x. keeps prog_ok (k x)) \<Longrightarrow> keeps prog_ok (TL_TRY f x k)"
  unfolding TL_TRY_def by (intro keeps)

subsection \<open>Copies\<close>

text \<open>
  The tree a node stands for, with the contents of every node and without its addresses, and the
  addresses it occupies.
\<close>

datatype rtree = RNil | RNode cnode rtree rtree

fun rtree_at :: "nat \<Rightarrow> (addr \<Rightarrow> cnode option) \<Rightarrow> addr \<Rightarrow> rtree option" where
  "rtree_at 0 h p = (if p = 0 then Some RNil else None)"
| "rtree_at (Suc n) h p =
     (if p = 0 then Some RNil
      else case h p of
        None \<Rightarrow> None
      | Some x \<Rightarrow> (case (rtree_at n h (left x), rtree_at n h (right x)) of
            (Some l, Some r) \<Rightarrow> Some (RNode (x\<lparr>left := 0, right := 0\<rparr>) l r)
          | _ \<Rightarrow> None))"

fun addrs_at :: "nat \<Rightarrow> (addr \<Rightarrow> cnode option) \<Rightarrow> addr \<Rightarrow> addr set" where
  "addrs_at 0 h p = {}"
| "addrs_at (Suc n) h p =
     (if p = 0 then {}
      else insert p (case h p of
        None \<Rightarrow> {}
      | Some x \<Rightarrow> addrs_at n h (left x) \<union> addrs_at n h (right x)))"

lemma addrs_at_dom: "rtree_at n h p = Some t \<Longrightarrow> addrs_at n h p \<subseteq> dom h"
proof (induction n arbitrary: p t)
  case (Suc n)
  then show ?case by (auto split: if_splits option.splits)
qed simp

lemma rtree_at_cong:
  "(\<And>q. q \<in> addrs_at n h p \<Longrightarrow> g q = h q) \<Longrightarrow> rtree_at n g p = rtree_at n h p \<and> addrs_at n g p = addrs_at n h p"
proof (induction n arbitrary: p)
  case (Suc n)
  show ?case
  proof (cases "p = 0 \<or> h p = None")
    case True
    then show ?thesis using Suc.prems[of p] by auto
  next
    case False
    then obtain x where x: "h p = Some x" "p \<noteq> 0" by auto
    then have "g p = Some x" using Suc.prems[of p] by simp
    moreover have "rtree_at n g q = rtree_at n h q \<and> addrs_at n g q = addrs_at n h q" if "q = left x \<or> q = right x" for q
      using that x Suc.prems by (intro Suc.IH) auto
    ultimately show ?thesis using x by simp
  qed
qed simp

text \<open>What a copy leaves behind: new nodes only, behind the old ones.\<close>

definition extends :: "tlst \<Rightarrow> tlst \<Rightarrow> bool" where
  "extends s t \<longleftrightarrow> store_ok t \<and> brk s \<le> brk t \<and> (\<forall>q < brk s. nodes t q = nodes s q) \<and>
     (\<exists>h b. t = s\<lparr>nodes := h, brk := b\<rparr>)"

lemma extends_refl: "store_ok s \<Longrightarrow> extends s s"
  unfolding extends_def by (auto intro!: exI[of _ "nodes s"] exI[of _ "brk s"])

lemma extends_trans: "extends s t \<Longrightarrow> extends t u \<Longrightarrow> extends s u"
  unfolding extends_def by (elim conjE exE) (simp, metis)

lemma new_node_extends:
  "store_ok s \<Longrightarrow> \<exists>t. new_node x s = Inr (brk s, t) \<and> extends s t \<and> nodes t (brk s) = Some x \<and> brk t = brk s + 1"
  by (auto simp: new_node_def extends_def store_ok_def)

lemma upd_new_node:
  assumes "extends s t" and "brk s \<le> p" and "nodes t p = Some x"
  shows "\<exists>u. upd_node p f t = Inr ((), u) \<and> extends s u \<and> nodes u = (nodes t)(p \<mapsto> f x) \<and> brk u = brk t"
proof -
  let ?u = "t\<lparr>nodes := (nodes t)(p \<mapsto> f x)\<rparr>"
  have "p \<in> {0<..<brk t}" using assms(1,3) unfolding extends_def store_ok_def by blast
  then have "store_ok ?u" using assms(1) unfolding extends_def store_ok_def by simp
  moreover have "\<exists>h b. ?u = s\<lparr>nodes := h, brk := b\<rparr>"
  proof -
    obtain h b where "t = s\<lparr>nodes := h, brk := b\<rparr>" using assms(1) unfolding extends_def by blast
    then have "?u = s\<lparr>nodes := h(p \<mapsto> f x), brk := b\<rparr>" by simp
    then show ?thesis by blast
  qed
  ultimately have "extends s ?u" using assms unfolding extends_def by simp
  then show ?thesis using assms(3) by (simp add: upd_node_def deref_def)
qed

lemma rtree_at_old:
  assumes "store_ok s" and "extends s t" and "rtree_at n (nodes s) p = Some x"
  shows "rtree_at n (nodes t) p = Some x"
proof -
  have "addrs_at n (nodes s) p \<subseteq> {0<..<brk s}" using addrs_at_dom[OF assms(3)] assms(1) unfolding store_ok_def by blast
  then have "nodes t q = nodes s q" if "q \<in> addrs_at n (nodes s) p" for q
    using that assms(2) unfolding extends_def by auto
  with rtree_at_cong[of n "nodes s" p "nodes t"] assms(3) show ?thesis by simp
qed

text \<open>
  Storing a copy \<open>C\<close> made from \<open>u\<close> to \<open>v\<close> in a node \<open>S\<close> that is older than the copy.
\<close>

lemma link_copy:
  assumes "extends s u" and "nodes u S = Some y" and "brk s \<le> S" and "S < brk u"
    and "rtree_at n (nodes v) C = Some x" and "addrs_at n (nodes v) C \<subseteq> {brk u..<brk v}" and "extends u v"
  obtains w where "upd_node S f v = Inr ((), w)" and "extends s w" and "nodes w = (nodes v)(S \<mapsto> f y)" and "brk w = brk v"
    and "rtree_at n (nodes w) C = Some x" and "addrs_at n (nodes w) C \<subseteq> {brk u..<brk v}"
proof -
  have "nodes v S = Some y" using assms(2,4,7) by (simp add: extends_def)
  from upd_new_node[OF extends_trans[OF assms(1,7)] assms(3) this, of f] obtain w where
    w: "upd_node S f v = Inr ((), w)" "extends s w" "nodes w = (nodes v)(S \<mapsto> f y)" "brk w = brk v" by blast
  have "nodes w q = nodes v q" if "q \<in> addrs_at n (nodes v) C" for q
    using that assms(4,6) by (auto simp: w(3))
  from rtree_at_cong[of n "nodes v" C "nodes w", OF this] assms(5,6) w that show thesis by simp
qed

lemma tl_tree_dup_step:
  assumes IH: "\<And>u c z. store_ok u \<Longrightarrow> rtree_at n (nodes u) c = Some z \<Longrightarrow>
      \<exists>C v. tl_tree_dup n c u = Inr (C, v) \<and> rtree_at n (nodes v) C = Some z \<and>
        addrs_at n (nodes v) C \<subseteq> {brk u..<brk v} \<and> extends u v"
    and ok: "store_ok s" and T: "T \<noteq> 0" "nodes s T = Some y"
    and lr: "rtree_at n (nodes s) (left y) = Some l" "rtree_at n (nodes s) (right y) = Some r"
  shows "\<exists>S t. tl_tree_dup (Suc n) T s = Inr (S, t) \<and>
     rtree_at (Suc n) (nodes t) S = Some (RNode (y\<lparr>left := 0, right := 0\<rparr>) l r) \<and>
     addrs_at (Suc n) (nodes t) S \<subseteq> {brk s..<brk t} \<and> extends s t"
proof -
  let ?S = "brk s"
  obtain s1 where s1: "new_node y s = Inr (?S, s1)" "extends s s1" "nodes s1 ?S = Some y" "brk s1 = ?S + 1"
    using new_node_extends[OF ok] by blast
  have "store_ok s1" using s1(2) by (simp add: extends_def)
  from IH[OF this rtree_at_old[OF ok s1(2) lr(1)]] obtain L s2 where
    s2: "tl_tree_dup n (left y) s1 = Inr (L, s2)" "rtree_at n (nodes s2) L = Some l"
      "addrs_at n (nodes s2) L \<subseteq> {brk s1..<brk s2}" "extends s1 s2" by blast
  obtain s3 where s3: "upd_node ?S (\<lambda>y. y\<lparr>left := L\<rparr>) s2 = Inr ((), s3)" "extends s s3"
      "nodes s3 = (nodes s2)(?S \<mapsto> y\<lparr>left := L\<rparr>)" "brk s3 = brk s2"
      "rtree_at n (nodes s3) L = Some l" "addrs_at n (nodes s3) L \<subseteq> {brk s1..<brk s2}"
    by (rule link_copy[OF s1(2,3) _ _ s2(2-4), where f = "\<lambda>y. y\<lparr>left := L\<rparr>"]) (simp_all add: s1(4))
  have b: "?S + 1 \<le> brk s2" using s1(4) s2(4) by (simp add: extends_def)
  have "store_ok s3" using s3(2) by (simp add: extends_def)
  from IH[OF this rtree_at_old[OF ok s3(2) lr(2)]] obtain R s4 where
    s4: "tl_tree_dup n (right y) s3 = Inr (R, s4)" "rtree_at n (nodes s4) R = Some r"
      "addrs_at n (nodes s4) R \<subseteq> {brk s3..<brk s4}" "extends s3 s4" by blast
  have "nodes s3 ?S = Some (y\<lparr>left := L\<rparr>)" by (simp add: s3(3))
  then obtain t where t: "upd_node ?S (\<lambda>y. y\<lparr>right := R\<rparr>) s4 = Inr ((), t)" "extends s t"
      "nodes t = (nodes s4)(?S \<mapsto> y\<lparr>left := L, right := R\<rparr>)" "brk t = brk s4"
      "rtree_at n (nodes t) R = Some r" "addrs_at n (nodes t) R \<subseteq> {brk s3..<brk s4}"
    by (rule link_copy[OF s3(2) _ _ _ s4(2-4), where f = "\<lambda>y. y\<lparr>right := R\<rparr>"]) (use b in \<open>simp_all add: s3(4)\<close>)
  have "nodes t q = nodes s3 q" if "q \<in> addrs_at n (nodes s3) L" for q
    using that s3(4,6) s1(4) s4(4) by (auto simp: t(3) extends_def)
  note L = rtree_at_cong[of n "nodes s3" L "nodes t", OF this]
  have "brk s2 \<le> brk s4" using s3(4) s4(4) by (simp add: extends_def)
  then have "addrs_at (Suc n) (nodes t) ?S \<subseteq> {?S..<brk t}"
    using t(3,4,6) L s3(4,6) s1(4) b by auto
  moreover have "rtree_at (Suc n) (nodes t) ?S = Some (RNode (y\<lparr>left := 0, right := 0\<rparr>) l r)"
    using ok t(3,5) L s3(5) by (simp add: store_ok_def)
  moreover have "tl_tree_dup (Suc n) T s = Inr (?S, t)"
    using T s1(1) s2(1) s3(1) s4(1) t(1) by (simp add: deref_def)
  ultimately show ?thesis using t(2) by blast
qed

text \<open>
  C18: Copying a tree returns a tree with the same contents that shares no node with anything that
  existed before: all its nodes are new, and no old node changes. Fuel as deep as the tree is enough.
\<close>

theorem tl_tree_dup_copies:
  assumes "store_ok s" and "rtree_at n (nodes s) T = Some x"
  shows "\<exists>S t. tl_tree_dup n T s = Inr (S, t) \<and> rtree_at n (nodes t) S = Some x \<and>
     addrs_at n (nodes t) S \<subseteq> {brk s..<brk t} \<and> extends s t"
  using assms
proof (induction n arbitrary: T s x)
  case 0
  then show ?case using extends_refl by (auto split: if_splits)
next
  case (Suc n)
  show ?case
  proof (cases "T = 0")
    case True
    then show ?thesis using Suc.prems extends_refl by auto
  next
    case False
    then obtain y l r where "nodes s T = Some y" "rtree_at n (nodes s) (left y) = Some l"
        "rtree_at n (nodes s) (right y) = Some r" and x: "x = RNode (y\<lparr>left := 0, right := 0\<rparr>) l r"
      using Suc.prems(2) by (auto split: option.splits)
    from tl_tree_dup_step[OF Suc.IH Suc.prems(1) False this(1-3)] show ?thesis unfolding x by blast
  qed
qed

lemma sample_store: "store_ok (sample_tlst\<lparr>nodes := [1 \<mapsto> zero_node\<lparr>left := 2\<rparr>, 2 \<mapsto> zero_node], brk := 3\<rparr>)"
  by (auto simp: store_ok_def)

theorem tl_tree_dup_copies_witness:
  "\<exists>S t. tl_tree_dup 2 1 (sample_tlst\<lparr>nodes := [1 \<mapsto> zero_node\<lparr>left := 2\<rparr>, 2 \<mapsto> zero_node], brk := 3\<rparr>) = Inr (S, t) \<and>
     rtree_at 2 (nodes t) S = Some (RNode zero_node (RNode zero_node RNil RNil) RNil) \<and>
     addrs_at 2 (nodes t) S \<subseteq> {3..<brk t}"
proof -
  have "rtree_at 2 (nodes (sample_tlst\<lparr>nodes := [1 \<mapsto> zero_node\<lparr>left := 2\<rparr>, 2 \<mapsto> zero_node], brk := 3\<rparr>)) 1
      = Some (RNode zero_node (RNode zero_node RNil RNil) RNil)"
    by (simp add: numeral_2_eq_2 zero_node_def)
  from tl_tree_dup_copies[OF sample_store this] show ?thesis by auto
qed

subsection \<open>Tags\<close>

text \<open>The value of a list of hexadecimal digits, most significant first.\<close>

abbreviation hex_value :: "nat \<Rightarrow> nat list \<Rightarrow> nat" where
  "hex_value a ds \<equiv> foldl (\<lambda>x d. x * 16 + d) a ds"

definition hex_digits :: "nat \<Rightarrow> nat \<Rightarrow> nat list" where
  "hex_digits k n = map (\<lambda>i. n div 16 ^ i mod 16) (rev [0..<k])"

lemma hex_value_digits: "hex_value a (hex_digits k n) = a * 16 ^ k + n mod 16 ^ k"
proof (induction k arbitrary: a)
  case (Suc k)
  have "hex_digits (Suc k) n = (n div 16 ^ k mod 16) # hex_digits k n" by (simp add: hex_digits_def)
  moreover have "n mod 16 ^ Suc k = 16 ^ k * (n div 16 ^ k mod 16) + n mod 16 ^ k"
    using mod_mult2_eq[of n "16 ^ k" 16] by (simp add: mult.commute)
  ultimately show ?case using Suc by (simp add: algebra_simps del: upt_Suc)
qed (simp add: hex_digits_def)

lemma schar_char_of: "n < 128 \<Longrightarrow> schar (char_of n) = int n"
proof -
  assume "n < 128"
  moreover have "(of_char (char_of n :: char) :: int) = int (of_char (char_of n :: char) :: nat)"
    by (simp only: of_nat_of_char)
  ultimately show ?thesis by (simp add: schar_def Let_def)
qed

lemma magic_digit_hex: "d < 16 \<Longrightarrow> magic_digit (of_nat a) (hex_digit d) = of_nat (a * 16 + d)"
proof -
  assume "d < 16"
  then have "(if schar (hex_digit d) \<le> schar (CHR ''9'') then schar (hex_digit d) - schar (CHR ''0'')
      else schar (hex_digit d) - schar (CHR ''a'') + 10) = int d"
    by (simp add: hex_digit_def schar_char_of) (simp add: schar_def)
  then show ?thesis by (simp add: magic_digit_def push_bit_eq_mult)
qed

lemma magic_digits: "\<forall>d \<in> set ds. d < 16 \<Longrightarrow> foldl magic_digit (of_nat a) (map hex_digit ds) = of_nat (hex_value a ds)"
  by (induction ds arbitrary: a) (simp_all add: magic_digit_hex del: of_nat_add of_nat_mult)

lemma x08_digits: "x08 m = map hex_digit (hex_digits 8 (unat m))"
proof -
  have "unat (drop_bit (4 * i) m) = unat m div 16 ^ i" for i
    by (simp add: unat_drop_bit_eq drop_bit_eq_div[where 'a = nat] power_mult)
  moreover have "[7, 6, 5, 4, 3, 2, 1, 0] = rev [0..<8]" by (simp add: upt_rec)
  ultimately show ?thesis unfolding x08_def hex_digits_def by (simp del: upt_rec)
qed

text \<open>
  C34: The tag that a combinator is printed with is the tag that is read back when the printed name is
  declared: for every tag but the two reserved values, and a name without \<open>#\<close>.
\<close>

theorem magic_roundtrip:
  assumes "CHR ''#'' \<notin> set w" and "m \<noteq> 0" and "m \<noteq> -1"
  shows "magic_part (w @ ''#'' @ x08 m) False = Inr m \<and> name_part (w @ ''#'' @ x08 m) False = w"
proof -
  have name: "name_part (w @ ''#'' @ x08 m) False = w"
    using assms(1) unfolding name_part_def by (subst takeWhile_append2) auto
  have "foldl magic_digit 0 (x08 m) = of_nat (hex_value 0 (hex_digits 8 (unat m)))"
    using magic_digits[of "hex_digits 8 (unat m)" 0] by (auto simp: x08_digits hex_digits_def)
  also have "\<dots> = m"
  proof -
    have "unat m < 2 ^ 32" using unsigned_less[of m] by simp
    then show ?thesis by (simp add: hex_value_digits)
  qed
  finally have "foldl magic_digit 0 (x08 m) = m" .
  moreover have "length (x08 m) = 8" by (simp add: x08_def)
  ultimately show ?thesis using assms(2,3) unfolding magic_part_def name Let_def by simp
qed

theorem magic_roundtrip_witness:
  "magic_part (''int'' @ ''#'' @ x08 0xa8509bda) False = Inr 0xa8509bda \<and>
   name_part (''int'' @ ''#'' @ x08 0xa8509bda) False = ''int''"
  by (rule magic_roundtrip) simp_all

subsection \<open>The kinds of unions\<close>

text \<open>
  The kind of the union of two nodes, and whether the argument \<open>r\<close> fits the next parameter of \<open>l\<close>, when
  \<open>l\<close> is a type that takes parameters.
\<close>

fun union_kind :: "combinator_tree_type \<Rightarrow> combinator_tree_type \<Rightarrow> combinator_tree_type option" where
  "union_kind type_num type_num_value = Some type_num"
| "union_kind type_num_value type_num = Some type_num"
| "union_kind type_num_value type_num_value = Some type_num_value"
| "union_kind type_list_item type_list_item = Some type_list"
| "union_kind type_list type_list_item = Some type_list"
| "union_kind type_type type_num = Some type_type"
| "union_kind type_type type_num_value = Some type_type"
| "union_kind type_type type_type = Some type_type"
| "union_kind _ _ = None"

definition argument_fits :: "cnode \<Rightarrow> cnode \<Rightarrow> bool" where
  "argument_fits l r \<longleftrightarrow> type_len l \<noteq> 0 \<and> type_len r = 0 \<and>
     (0 < type_len l \<longrightarrow> (type_flags l AND 1 \<noteq> 0) = is_num (ctype r))"

text \<open>What the union of \<open>L\<close> and \<open>R\<close> is: a sum of numbers, a list, or an application.\<close>

definition union_node :: "addr \<Rightarrow> addr \<Rightarrow> cnode \<Rightarrow> cnode \<Rightarrow> cnode \<Rightarrow> bool" where
  "union_node L R l r n \<longleftrightarrow> union_kind (ctype l) (ctype r) = Some (ctype n) \<and>
     (if is_num (ctype l) then type_flags n = type_flags l + type_flags r
      else left n = L \<and> right n = R \<and>
        (if ctype l = type_type
         then act n = act_arg \<and> type_len n = (if 0 < type_len l then type_len l - 1 else -1) \<and>
              type_flags n = signed_drop_bit 1 (type_flags l)
         else act n = act_union))"

lemma store_ok_node: "store_ok s \<Longrightarrow> nodes s p = Some x \<Longrightarrow> 0 < p \<and> p < brk s"
  unfolding store_ok_def by force

lemmas union_run = tl_union_def new_node_def deref_def free_node_def upd_node_def tl_error_def bind_apply

abbreviation union_done :: "addr \<Rightarrow> addr \<Rightarrow> cnode \<Rightarrow> cnode \<Rightarrow> tlst \<Rightarrow> bool \<Rightarrow> bool" where
  "union_done L R l r s ok \<equiv> \<exists>v t. tl_union L R s = Inr (v, t) \<and>
     (if ok then v \<noteq> 0 \<and> log t = log s \<and> (\<exists>n. nodes t v = Some n \<and> union_node L R l r n)
      else v = 0 \<and> (\<exists>e. log t = e # log s))"

lemma tl_union_simple:
  assumes "store_ok s" and "nodes s L = Some l" and "nodes s R = Some r" and "L \<noteq> R" and "ctype l \<noteq> type_type"
  shows "union_done L R l r s (union_kind (ctype l) (ctype r) \<noteq> None)"
proof -
  note p = store_ok_node[OF assms(1,2)] store_ok_node[OF assms(1,3)]
  show ?thesis
  proof (cases "ctype l")
    case type_num
    with assms p show ?thesis by (cases "ctype r") (simp_all add: union_run is_num_def union_node_def)
  next
    case type_num_value
    with assms p show ?thesis by (cases "ctype r") (simp_all add: union_run is_num_def union_node_def)
  next
    case type_type
    with assms show ?thesis by simp
  next
    case type_list_item
    with assms p show ?thesis by (cases "ctype r") (simp_all add: union_run is_num_def union_node_def)
  next
    case type_list
    with assms p show ?thesis by (cases "ctype r") (simp_all add: union_run is_num_def union_node_def)
  qed
qed

lemma tl_union_arg:
  assumes "store_ok s" and "nodes s L = Some l" and "nodes s R = Some r" and "L \<noteq> R" and "ctype l = type_type"
    and "0 \<le> type_len r"
  shows "union_done L R l r s (union_kind (ctype l) (ctype r) \<noteq> None \<and> argument_fits l r)"
proof -
  note p = store_ok_node[OF assms(1,2)] store_ok_node[OF assms(1,3)]
  show ?thesis
  proof (cases "is_num (ctype r) \<or> ctype r = type_type")
    case True
    then have k: "union_kind (ctype l) (ctype r) = Some type_type" using assms(5) by (cases "ctype r") (auto simp: is_num_def)
    show ?thesis
      using True k assms(2-) p
      by (auto simp: union_run union_arg_def union_node_def argument_fits_def is_num_def)
  next
    case False
    then have "union_kind (ctype l) (ctype r) = None" using assms(5) by (cases "ctype r") (auto simp: is_num_def)
    with False assms(2-) p show ?thesis by (auto simp: union_run union_arg_def)
  qed
qed


definition sample_nodes :: tlst where
  "sample_nodes = sample_tlst\<lparr>brk := 3, nodes :=
     [1 \<mapsto> zero_node\<lparr>act := act_type, ctype := type_type, type_len := 1, type_flags := 1\<rparr>,
      2 \<mapsto> zero_node\<lparr>act := act_nat_const, ctype := type_num_value, type_flags := 5\<rparr>]\<rparr>"


end
