(* ===== verification/TL_Unify.thy ===== *)
theory TL_Unify
  imports TL_Combinator
begin

section \<open>Substitution and unification of result types (tl-parser.c, lines 2119-2284 and 2577-2716)\<close>

text \<open>
  A binding tree \<open>V\<close> (the C \<open>struct tree_var_value **\<close>) maps the address of a field node to
  the node it stands for and, for numbers, an offset. It is passed in and returned. The
  results \<open>(void *)-1l\<close> (the node was removed) and \<open>(void *)-2l\<close> (there was no node) are the
  addresses \<open>-1\<close> and \<open>-2\<close>. Every function here that follows pointers takes fuel.
\<close>

type_synonym binds = "tl_var_value treap"

text \<open>Is the type at \<open>t\<close> the one named \<open>#\<close> or \<open>Type\<close>? (0 is no type.)\<close>

definition type_has_id :: "addr \<Rightarrow> string \<Rightarrow> bool tl" where
  "type_has_id t w = (if t = 0 then ret False else bind (tyobj t) (\<lambda>x. ret (strcmp (ty_id x) w = 0)))"

primrec change_var_ptrs :: "nat \<Rightarrow> addr \<Rightarrow> addr \<Rightarrow> binds \<Rightarrow> binds tl" where
  "change_var_ptrs 0 Ob D V = raise OutOfFuel"
| "change_var_ptrs (Suc n) Ob D V =
     (if Ob = 0 \<or> D = 0 then bind (check (Ob = 0 \<and> D = 0)) (\<lambda>_. ret V)
      else
        bind (node Ob) (\<lambda>o1.
        bind (if act o1 = act_field then
                bind (tl_tree_get_type (left o1)) (\<lambda>t.
                bind (type_has_id t ''#'') (\<lambda>h.
                bind (if h then ret True else type_has_id t ''Type'') (\<lambda>h.
                if h then tl_set_var_value V Ob D else ret V)))
              else ret V) (\<lambda>V.
        bind (if act o1 = act_var then
                bind (node D) (\<lambda>d.
                bind (check (data d = data o1)) (\<lambda>_.
                bind (data_ptr (data o1)) (\<lambda>p.
                let q = tl_get_var_value V p in
                bind (upd_node D (\<lambda>d. d\<lparr>data := (if q = 0 then DNull else DNode q)\<rparr>)) (\<lambda>_.
                check (q \<noteq> 0)))))
              else ret ()) (\<lambda>_.
        bind (node D) (\<lambda>d.
        bind (change_var_ptrs n (left o1) (left d) V) (\<lambda>V.
        bind (node D) (\<lambda>d.
        change_var_ptrs n (right o1) (right d) V)))))))"

text \<open>The match of a field with the first argument, lines 2141-2161: \<open>Some\<close> when it decides.\<close>

definition first_var_field :: "cnode \<Rightarrow> addr \<Rightarrow> addr \<Rightarrow> addr \<Rightarrow> (addr \<times> addr) option tl" where
  "first_var_field o1 Ob X Y =
     (if act o1 = act_field \<and> X = 0 then
        bind (tl_tree_get_type (left o1)) (\<lambda>t.
        bind (type_has_id t ''#'') (\<lambda>h.
        if h then
          bind (node Y) (\<lambda>y.
          if \<not> is_num (ctype y)
          then bind (tl_error ''change_var: Type mistmatch'') (\<lambda>_. ret (Some (0, X)))
          else ret (Some (-1, Ob)))
        else
          bind (type_has_id t ''Type'') (\<lambda>h.
          if h then
            bind (node Y) (\<lambda>y.
            if ctype y \<noteq> type_type \<or> type_len y \<noteq> 0
            then bind (tl_error ''change_var: Type mistmatch'') (\<lambda>_. ret (Some (0, X)))
            else ret (Some (-1, Ob)))
          else ret None)))
      else ret None)"

primrec change_first_var :: "nat \<Rightarrow> addr \<Rightarrow> addr \<Rightarrow> addr \<Rightarrow> (addr \<times> addr) tl" where
  "change_first_var 0 Ob X Y = raise OutOfFuel"
| "change_first_var (Suc n) Ob X Y =
     (if Ob = 0 then ret (-2, X)
      else
        bind (node Ob) (\<lambda>o1.
        bind (first_var_field o1 Ob X Y) (\<lambda>f.
        case f of
          Some r \<Rightarrow> ret r
        | None \<Rightarrow>
            bind (if act o1 = act_var then data_ptr (data o1) else ret 0) (\<lambda>p.
            if act o1 = act_var \<and> p = X then
              bind (with_fuel (\<lambda>m. tl_tree_dup m Y)) (\<lambda>R.
              bind (if is_num (ctype o1)
                    then upd_node R (\<lambda>r. r\<lparr>type_flags := type_flags r + type_flags o1\<rparr>)
                    else ret ()) (\<lambda>_.
              ret (R, X)))
            else
              bind (change_first_var n (left o1) X Y) (\<lambda>(t, X).
              if t = 0 then ret (0, X)
              else if t = -1 then
                bind (change_first_var n (right o1) X Y) (\<lambda>(t, X).
                if t = 0 then ret (0, X)
                else if t = -1 then ret (-1, X)
                else if t \<noteq> -2 then ret (t, X)
                else ret (-1, X))
              else
                bind (if t \<noteq> -2 then upd_node Ob (\<lambda>q. q\<lparr>left := t\<rparr>) else ret ()) (\<lambda>_.
                bind (change_first_var n (right o1) X Y) (\<lambda>(t, X).
                if t = 0 then ret (0, X)
                else if t = -1 then bind (node Ob) (\<lambda>q. ret (left q, X))
                else
                  bind (if t \<noteq> -2 then upd_node Ob (\<lambda>q. q\<lparr>right := t\<rparr>) else ret ()) (\<lambda>_.
                  ret (Ob, X)))))))))"

primrec reduce_type :: "nat \<Rightarrow> addr \<Rightarrow> addr \<Rightarrow> addr tl" where
  "reduce_type 0 A t = raise OutOfFuel"
| "reduce_type (Suc n) A t =
     bind (check (A \<noteq> 0)) (\<lambda>_.
     bind (node A) (\<lambda>a.
     bind (tyobj t) (\<lambda>ty.
     if type_len a = params_num ty then
       bind (check (type_flags a = params_types ty)) (\<lambda>_.
       bind (upd_node A (\<lambda>a. a\<lparr>act := act_type, ctype := type_type, left := 0, right := 0,
               data := DType t\<rparr>)) (\<lambda>_.
       ret A))
     else
       bind (reduce_type n (left a) t) (\<lambda>l.
       bind (upd_node A (\<lambda>a. a\<lparr>left := l\<rparr>)) (\<lambda>_. ret A)))))"

text \<open>The loop that follows bound variables, lines 2243-2258; it returns the final node.\<close>

primrec follow_values :: "nat \<Rightarrow> addr \<Rightarrow> binds \<Rightarrow> addr tl" where
  "follow_values 0 Ob X = raise OutOfFuel"
| "follow_values (Suc n) Ob X =
     bind (node Ob) (\<lambda>o1.
     if act o1 \<noteq> act_var then ret Ob
     else
       bind (data_ptr (data o1)) (\<lambda>p.
       bind (check (p \<noteq> 0)) (\<lambda>_.
       let v = tl_get_var_value X p in
       if v = 0 then ret Ob
       else if ctype o1 = type_type then
         bind (with_fuel (\<lambda>m. tl_tree_dup m v)) (\<lambda>D. follow_values n D X)
       else
         bind (node v) (\<lambda>T.
         bind (upd_node Ob (\<lambda>q. q\<lparr>data := data T, ctype := ctype T, act := act T,
                 type_flags := type_flags q + scast (tl_get_var_value_num X p) + type_flags T\<rparr>)) (\<lambda>_.
         follow_values n Ob X)))))"

primrec change_value_var :: "nat \<Rightarrow> addr \<Rightarrow> binds \<Rightarrow> addr tl" where
  "change_value_var 0 Ob X = raise OutOfFuel"
| "change_value_var (Suc n) Ob X =
     (if Ob = 0 then ret (-2)
      else
        bind (with_fuel (\<lambda>m. follow_values m Ob X)) (\<lambda>Ob.
        bind (node Ob) (\<lambda>o1.
        if act o1 = act_field \<and> tl_get_var_value X Ob \<noteq> 0 then ret (-1)
        else
          bind (change_value_var n (left o1) X) (\<lambda>t.
          if t = 0 then ret 0
          else if t = -1 then
            bind (change_value_var n (right o1) X) (\<lambda>t.
            if t = 0 then ret 0
            else if t = -1 then ret (-1)
            else if t \<noteq> -2 then ret t
            else ret (-1))
          else
            bind (if t \<noteq> -2 then upd_node Ob (\<lambda>q. q\<lparr>left := t\<rparr>) else ret ()) (\<lambda>_.
            bind (change_value_var n (right o1) X) (\<lambda>t.
            if t = 0 then ret 0
            else if t = -1 then bind (node Ob) (\<lambda>q. ret (left q))
            else
              bind (if t \<noteq> -2 then upd_node Ob (\<lambda>q. q\<lparr>right := t\<rparr>) else ret ()) (\<lambda>_.
              ret Ob)))))))"

subsection \<open>Unification\<close>

primrec tl_tree_lookup_value :: "nat \<Rightarrow> addr \<Rightarrow> addr \<Rightarrow> binds \<Rightarrow> int tl" where
  "tl_tree_lookup_value 0 L var V = raise OutOfFuel"
| "tl_tree_lookup_value (Suc n) L var V =
     (if L = 0 then ret (-1)
      else
        bind (node L) (\<lambda>l.
        if act l = act_var then
          bind (data_ptr (data l)) (\<lambda>p.
          if p = var then ret 0
          else let E = tl_get_var_value V p in
               if E = 0 then ret (-1) else tl_tree_lookup_value n E var V)
        else
          bind (tl_tree_lookup_value n (left l) var V) (\<lambda>a.
          if 0 \<le> a then ret 1
          else
            bind (tl_tree_lookup_value n (right l) var V) (\<lambda>b.
            if 0 \<le> b then ret 1 else ret (-1)))))"

primrec tl_tree_lookup_value_nat :: "nat \<Rightarrow> addr \<Rightarrow> addr \<Rightarrow> u64 \<Rightarrow> binds \<Rightarrow> int tl" where
  "tl_tree_lookup_value_nat 0 L var x V = raise OutOfFuel"
| "tl_tree_lookup_value_nat (Suc n) L var x V =
     bind (check (L \<noteq> 0)) (\<lambda>_.
     bind (node L) (\<lambda>l.
     if ctype l = type_num_value then ret (-1)
     else
       bind (check (ctype l = type_num)) (\<lambda>_.
       bind (check (act l = act_var)) (\<lambda>_.
       bind (data_ptr (data l)) (\<lambda>p.
       if p = var then ret (if x = type_flags l then 0 else 1)
       else
         let E = tl_get_var_value V p in
         if E = 0 then ret (-1)
         else tl_tree_lookup_value_nat n E var (x + scast (tl_get_var_value_num V p)) V)))))"

text \<open>
  The two loops of the number case, lines 2655-2696: \<open>K\<close> follows its bindings while the offset
  accumulates in \<open>x\<close>; \<open>Inl\<close> is an early return of \<open>uniformize\<close>.
\<close>

primrec follow_num :: "nat \<Rightarrow> addr \<Rightarrow> addr \<Rightarrow> u64 \<Rightarrow> binds \<Rightarrow> (bool + u64 \<times> addr) tl" where
  "follow_num 0 K other x V = raise OutOfFuel"
| "follow_num (Suc n) K other x V =
     bind (node K) (\<lambda>k.
     let x = x + type_flags k in
     if ctype k = type_num_value then ret (Inr (x, K))
     else
       bind (data_ptr (data k)) (\<lambda>p.
       let E = tl_get_var_value V p in
       if E = 0 then
         bind (with_fuel (\<lambda>m. tl_tree_lookup_value_nat m other p (type_flags k) V)) (\<lambda>s.
         if 0 < s then ret (Inl False)
         else if s = 0 then ret (Inl True)
         else ret (Inr (x, K)))
       else follow_num n E other (x + scast (tl_get_var_value_num V p)) V))"

text \<open>The last part of the number case, lines 2697-2713.\<close>

definition bind_nums :: "u64 \<Rightarrow> addr \<Rightarrow> u64 \<Rightarrow> addr \<Rightarrow> binds \<Rightarrow> (bool \<times> binds) tl" where
  "bind_nums x K y M V =
     bind (node K) (\<lambda>k.
     bind (node M) (\<lambda>m.
     let bind_K = bind (data_ptr (data k)) (\<lambda>p.
           bind (tl_set_var_value_num V p M (- (x - y + type_flags m))) (\<lambda>V. ret (True, V)));
         bind_M = bind (data_ptr (data m)) (\<lambda>p.
           bind (tl_set_var_value_num V p K (- (y - x + type_flags k))) (\<lambda>V. ret (True, V)))
     in if ctype k = type_num_value \<and> ctype m = type_num_value then ret (x = y, V)
        else if ctype m = type_num_value then bind_K
        else if ctype k = type_num_value then bind_M
        else if sint y \<le> sint x then bind_K else bind_M))"

definition unify_nums :: "addr \<Rightarrow> addr \<Rightarrow> binds \<Rightarrow> (bool \<times> binds) tl" where
  "unify_nums L R V =
     bind (node L) (\<lambda>l.
     bind (node R) (\<lambda>r.
     bind (check (is_num (ctype l))) (\<lambda>_.
     if \<not> is_num (ctype r) then ret (False, V)
     else if data r = DMinus1 \<or> data l = DMinus1 then ret (True, V)
     else
       bind (with_fuel (\<lambda>m. follow_num m L R 0 V)) (\<lambda>a.
       case a of
         Inl b \<Rightarrow> ret (b, V)
       | Inr (x, K) \<Rightarrow>
           bind (with_fuel (\<lambda>m. follow_num m R L 0 V)) (\<lambda>b.
           case b of
             Inl b \<Rightarrow> ret (b, V)
           | Inr (y, M) \<Rightarrow> bind_nums x K y M V)))))"

primrec uniformize :: "nat \<Rightarrow> addr \<Rightarrow> addr \<Rightarrow> binds \<Rightarrow> (bool \<times> binds) tl" where
  "uniformize 0 L R V = raise OutOfFuel"
| "uniformize (Suc n) L R V =
     (if L = 0 \<or> R = 0 then bind (check (L = 0 \<and> R = 0)) (\<lambda>_. ret (True, V))
      else
        bind (node R) (\<lambda>r0.
        let (L, R) = (if act r0 = act_var then (R, L) else (L, R)) in
        bind (node L) (\<lambda>l.
        bind (node R) (\<lambda>r.
        if ctype l = type_type then
          (if ctype r \<noteq> type_type \<or> type_len l \<noteq> type_len r \<or> type_flags l \<noteq> type_flags r
           then ret (False, V)
           else if data r = DMinus1 \<or> data l = DMinus1 then ret (True, V)
           else if act l = act_var then
             bind (data_ptr (data l)) (\<lambda>p.
             bind (with_fuel (\<lambda>m. tl_tree_lookup_value m R p V)) (\<lambda>x.
             if 0 < x then ret (False, V)
             else if x = 0 then ret (True, V)
             else
               let E = tl_get_var_value V p in
               if E = 0 then bind (tl_set_var_value V p R) (\<lambda>V. ret (True, V))
               else uniformize n E R V))
           else if act l \<noteq> act r \<or> data l \<noteq> data r then ret (False, V)
           else
             bind (uniformize n (left l) (left r) V) (\<lambda>(b, V).
             if b then uniformize n (right l) (right r) V else ret (False, V)))
        else unify_nums L R V))))"

text \<open>\<open>check_nat_val\<close>: is the number bound to a variable non-negative? The loop of lines 2202-2216.\<close>

primrec nat_val_loop :: "nat \<Rightarrow> addr \<Rightarrow> u64 \<Rightarrow> binds \<Rightarrow> bool tl" where
  "nat_val_loop 0 L x V = raise OutOfFuel"
| "nat_val_loop (Suc n) L x V =
     bind (node L) (\<lambda>l.
     if ctype l = type_num_value then ret (0 \<le> sint (x + type_flags l))
     else
       bind (check (ctype l = type_num)) (\<lambda>_.
       bind (data_ptr (data l)) (\<lambda>p.
       let E = tl_get_var_value V p in
       if E = 0 then ret True
       else nat_val_loop n E (x + type_flags l + scast (tl_get_var_value_num V p)) V)))"

definition check_nat_val :: "binds \<Rightarrow> tl_var_value \<Rightarrow> bool \<Rightarrow> bool tl" where
  "check_nat_val V v tok =
     (if \<not> tok then ret tok
      else
        bind (node (vv_val v)) (\<lambda>l.
        if ctype l = type_type then ret tok
        else with_fuel (\<lambda>n. nat_val_loop n (vv_val v) (scast (vv_num v)) V)))"

text \<open>\<open>tree_act_var_value (*T, check_nat_val)\<close> with the global \<open>__tok\<close> passed along.\<close>

fun act_nat_vals :: "binds \<Rightarrow> binds \<Rightarrow> bool \<Rightarrow> bool tl" where
  "act_nat_vals V TNil tok = ret tok"
| "act_nat_vals V (TNode l v y r) tok =
     bind (act_nat_vals V l tok) (\<lambda>tok.
     bind (check_nat_val V v tok) (\<lambda>tok.
     act_nat_vals V r tok))"

definition check_constructors_equal :: "addr \<Rightarrow> addr \<Rightarrow> binds \<Rightarrow> (bool \<times> binds) tl" where
  "check_constructors_equal L R V =
     bind (with_fuel (\<lambda>n. uniformize (n * n + n) L R V)) (\<lambda>(b, V).
     if \<not> b then ret (False, V)
     else bind (act_nat_vals V V True) (\<lambda>tok. ret (tok, V)))"

subsection \<open>The registry invariant is kept\<close>

lemma keeps_type_has_id [keeps]: "keeps I (type_has_id t w)"
  unfolding type_has_id_def by (intro keeps)

lemma keeps_change_var_ptrs [keeps]: "keeps prog_ok (change_var_ptrs n Ob D V)"
  by (induction n arbitrary: Ob D V) (simp_all add: keeps)

lemma keeps_first_var_field [keeps]: "keeps prog_ok (first_var_field o1 Ob X Y)"
  unfolding first_var_field_def by (intro keeps)

lemma keeps_change_first_var [keeps]: "keeps prog_ok (change_first_var n Ob X Y)"
proof (induction n arbitrary: Ob X Y)
  case (Suc n)
  show ?case unfolding change_first_var.simps by (intro keeps Suc)
qed (simp add: keeps)

lemma keeps_reduce_type [keeps]: "keeps prog_ok (reduce_type n A t)"
  by (induction n arbitrary: A) (simp_all add: keeps)

lemma keeps_follow_values [keeps]: "keeps prog_ok (follow_values n Ob X)"
  by (induction n arbitrary: Ob) (simp_all add: keeps)

lemma keeps_change_value_var [keeps]: "keeps prog_ok (change_value_var n Ob X)"
proof (induction n arbitrary: Ob)
  case (Suc n)
  show ?case unfolding change_value_var.simps by (intro keeps Suc)
qed (simp add: keeps)

lemma keeps_lookup_values [keeps]:
  "keeps I (tl_tree_lookup_value n L var V)" "keeps I (tl_tree_lookup_value_nat n L var x V)"
  by (induction n arbitrary: L x) (simp_all add: keeps)

lemma keeps_follow_num [keeps]: "keeps I (follow_num n K other x V)"
  by (induction n arbitrary: K x) (simp_all add: keeps)

lemma keeps_unify_nums [keeps]: "keeps prog_ok (bind_nums x K y M V)" "keeps prog_ok (unify_nums L R V)"
proof -
  show b: "keeps prog_ok (bind_nums x K y M V)" for x K y M V
    unfolding bind_nums_def Let_def by (intro keeps)
  show "keeps prog_ok (unify_nums L R V)"
    unfolding unify_nums_def by (intro keeps) (auto intro!: keeps b split: sum.split)
qed

lemma keeps_uniformize [keeps]: "keeps prog_ok (uniformize n L R V)"
proof (induction n arbitrary: L R V)
  case (Suc n)
  show ?case unfolding uniformize.simps by (intro keeps Suc)
qed (simp add: keeps)

lemma keeps_check_nat_val [keeps]: "keeps I (nat_val_loop n L x V)" "keeps I (check_nat_val V v tok)"
proof -
  show l: "keeps I (nat_val_loop n L x V)" for n L x V
    by (induction n arbitrary: L x) (simp_all add: keeps)
  show "keeps I (check_nat_val V v tok)" unfolding check_nat_val_def by (intro keeps l)
qed

lemma keeps_act_nat_vals [keeps]: "keeps I (act_nat_vals V T tok)"
  by (induction T arbitrary: tok) (simp_all add: keeps)

lemma keeps_check_constructors_equal [keeps]: "keeps prog_ok (check_constructors_equal L R V)"
  unfolding check_constructors_equal_def by (intro keeps)

end
