(* ===== verification/TL_Semantic.thy ===== *)
theory TL_Semantic
  imports TL_Unify
begin

section \<open>The semantic pass (tl-parser.c, lines 1594-2117, 2286-2575 and 2719-2785)\<close>

text \<open>
  From parse trees to combinators: terms become combinator trees, fields and variables enter
  the name spaces, declarations add types, constructors and functions. A null result is the
  address 0. The recursion follows the parse tree, so it needs no fuel.
\<close>

lemma tree_child_size [simp]: "c \<in> set (tree_c T) \<Longrightarrow> size c < size T"
proof (cases T)
  case (Tree t x n f l p cs)
  assume "c \<in> set (tree_c T)"
  then have "size c \<le> size_list size cs"
    using Tree by (auto intro: size_list_estimation')
  then show ?thesis using Tree by simp
qed

subsection \<open>Terms\<close>

text \<open>\<open>TL_TRY\<close> over a list of children; the modifier \<open>s\<close> is for the first only.\<close>

primrec union_loop :: "(tree \<Rightarrow> int \<Rightarrow> addr tl) \<Rightarrow> tree list \<Rightarrow> int \<Rightarrow> addr \<Rightarrow> addr tl" where
  "union_loop f [] s L = ret L"
| "union_loop f (c # cs) s L = TL_TRY (f c s) L (\<lambda>L. union_loop f cs 0 L)"

lemma union_loop_cong [fundef_cong]:
  "cs = ds \<Longrightarrow> s = t \<Longrightarrow> L = M \<Longrightarrow> (\<And>c u. c \<in> set ds \<Longrightarrow> f c u = g c u) \<Longrightarrow>
   union_loop f cs s L = union_loop g ds t M"
proof (induction cs arbitrary: ds s t L M)
  case Nil
  then show ?case by auto
next
  case (Cons c cs)
  then have "union_loop f cs 0 = union_loop g cs 0" by (intro ext) auto
  with Cons show ?case by auto
qed

definition decimal :: "string \<Rightarrow> u64" where
  "decimal w = foldl (\<lambda>x c. x * 10 + word_of_int (schar c) - word_of_int (schar (CHR ''0''))) 0 w"

definition tl_parse_nat_const :: "tree \<Rightarrow> int \<Rightarrow> addr tl" where
  "tl_parse_nat_const T s =
     bind (check (tree_type T = type_nat_const)) (\<lambda>_.
     bind (check (tree_c T = [])) (\<lambda>_.
     if 0 < s then bind (tl_error ''Nat const can not preceed with %'') (\<lambda>_. ret 0)
     else new_node (zero_node\<lparr>act := act_nat_const, ctype := type_num_value,
            type_flags := decimal (tree_word T)\<rparr>)))"

definition tl_parse_ident :: "tree \<Rightarrow> int \<Rightarrow> addr tl" where
  "tl_parse_ident T s =
     bind (check (tree_type T = type_type_ident \<or> tree_type T = type_var_ident
                  \<or> tree_type T = type_boxed_type_ident)) (\<lambda>_.
     bind (check (tree_c T = [])) (\<lambda>_.
     bind (tl_get_var (tree_word T)) (\<lambda>v.
     if v \<noteq> 0 then
       bind (varobj v) (\<lambda>vo.
       bind (new_node (zero_node\<lparr>act := act_var, ctype := (if v_type vo \<noteq> 0 then type_num else type_type)\<rparr>)) (\<lambda>L.
       if v_type vo \<noteq> 0 \<and> s \<noteq> 0 then
         bind (tl_error ''Nat var can not preceed with %'') (\<lambda>_. ret 0)
       else
         bind (upd_node L (\<lambda>N. N\<lparr>flags := (if s \<noteq> 0 then flags N OR 1 else flags N), type_len := 0,
                 type_flags := 0, data := DNode (v_ptr vo)\<rparr>)) (\<lambda>_. ret L)))
     else
       bind (tl_get_constructor (tree_word T)) (\<lambda>c.
       if c \<noteq> 0 then
         bind (comb c) (\<lambda>co.
         bind (check (c_type co \<noteq> 0)) (\<lambda>_.
         bind (tyobj (c_type co)) (\<lambda>ty.
         if length (constructors ty) \<noteq> 1 then
           bind (tl_error ''Constructor can be used only if it is the only constructor of the type'')
             (\<lambda>_. ret 0)
         else
           bind (upd_type (c_type co) (\<lambda>t. t\<lparr>ty_flags := ty_flags t OR 1\<rparr>)) (\<lambda>_.
           new_node (zero_node\<lparr>act := act_type, flags := 5, data := DType (c_type co),
             ctype := type_type, type_len := params_num ty, type_flags := params_types ty\<rparr>)))))
       else if tl_is_type_name T then
         bind (tl_add_type (tree_word T) (-1) 0) (\<lambda>t.
         bind (if s \<noteq> 0 then upd_type t (\<lambda>t. t\<lparr>ty_flags := ty_flags t OR 8\<rparr>) else ret ()) (\<lambda>_.
         bind (tyobj t) (\<lambda>ty.
         new_node (zero_node\<lparr>act := act_type, flags := (if s \<noteq> 0 then 1 else 0), data := DType t,
           ctype := type_type, type_len := params_num ty, type_flags := params_types ty\<rparr>))))
       else
         bind (tl_error (''Not a type/var ident `'' @ tree_word T @ ''`'')) (\<lambda>_. ret 0)))))"

text \<open>The type test of \<open>tl_parse_type_term\<close> and \<open>tl_parse_nat_term\<close> on their result \<open>Z\<close>.\<close>

definition require_type :: "(combinator_tree_type \<Rightarrow> bool) \<Rightarrow> string \<Rightarrow> addr \<Rightarrow> addr tl" where
  "require_type ok what Z =
     (if Z = 0 then ret 0
      else bind (node Z) (\<lambda>z.
        if ok (ctype z) then ret Z
        else bind (tl_error (what @ '': found type '' @ TL_TYPE (ctype z))) (\<lambda>_. ret 0)))"

definition percents :: "tree \<Rightarrow> nat" where
  "percents T = length (takeWhile (\<lambda>c. tree_type c = type_percent) (tree_c T))"

function tl_parse_any_term :: "tree \<Rightarrow> int \<Rightarrow> addr tl"
and tl_parse_term :: "tree \<Rightarrow> int \<Rightarrow> addr tl"
and tl_parse_type_term :: "tree \<Rightarrow> int \<Rightarrow> addr tl"
and tl_parse_nat_term :: "tree \<Rightarrow> int \<Rightarrow> addr tl"
and tl_parse_subexpr :: "tree \<Rightarrow> int \<Rightarrow> addr tl"
and tl_parse_expr :: "tree \<Rightarrow> int \<Rightarrow> addr tl" where
  "tl_parse_any_term T s =
     (if tree_type T = type_type_term then tl_parse_type_term T s
      else if tree_type T = type_nat_term then tl_parse_nat_term T s
      else if tree_type T = type_term then tl_parse_term T s
      else if tree_type T = type_expr then tl_parse_expr T s
      else if tree_type T = type_subexpr then tl_parse_subexpr T s
      else if tree_type T = type_nat_const then tl_parse_nat_const T s
      else if tree_type T = type_type_ident \<or> tree_type T = type_var_ident then tl_parse_ident T s
      else raise Assertion)"
| "tl_parse_term T s =
     bind (check (tree_type T = type_term)) (\<lambda>_.
     bind (check (percents T < tree_nc T)) (\<lambda>_.
     union_loop tl_parse_any_term (drop (percents T) (tree_c T)) (s + int (percents T)) 0))"
| "tl_parse_type_term T s =
     bind (check (tree_type T = type_type_term)) (\<lambda>_.
     bind (check (tree_nc T = 1)) (\<lambda>_.
     if tree_c T = [] then raise Assertion
     else bind (tl_parse_term (hd (tree_c T)) s)
            (require_type (\<lambda>t. t = type_type) ''type_term'')))"
| "tl_parse_nat_term T s =
     bind (check (tree_type T = type_nat_term)) (\<lambda>_.
     bind (check (tree_nc T = 1)) (\<lambda>_.
     if tree_c T = [] then raise Assertion
     else bind (tl_parse_term (hd (tree_c T)) s) (require_type is_num ''nat_term'')))"
| "tl_parse_subexpr T s =
     bind (check (tree_type T = type_subexpr)) (\<lambda>_.
     bind (check (1 \<le> tree_nc T)) (\<lambda>_.
     union_loop tl_parse_any_term (tree_c T) s 0))"
| "tl_parse_expr T s =
     bind (check (tree_type T = type_expr)) (\<lambda>_.
     bind (check (1 \<le> tree_nc T)) (\<lambda>_.
     union_loop tl_parse_subexpr (tree_c T) s 0))"
  by pat_completeness auto
termination
proof (relation "measures [\<lambda>x. case x of
    Inl (Inl (T, _)) \<Rightarrow> size T
  | Inl (Inr (Inl (T, _))) \<Rightarrow> size T
  | Inl (Inr (Inr (T, _))) \<Rightarrow> size T
  | Inr (Inl (T, _)) \<Rightarrow> size T
  | Inr (Inr (Inl (T, _))) \<Rightarrow> size T
  | Inr (Inr (Inr (T, _))) \<Rightarrow> size T,
  \<lambda>x. case x of Inl (Inl _) \<Rightarrow> 1 | _ \<Rightarrow> 0]", goal_cases)
qed (auto dest: in_set_dropD)

declare tl_parse_any_term.simps [simp del] tl_parse_term.simps [simp del]
  tl_parse_type_term.simps [simp del] tl_parse_nat_term.simps [simp del]
  tl_parse_subexpr.simps [simp del] tl_parse_expr.simps [simp del]

subsection \<open>Fields\<close>

definition tl_parse_multiplicity :: "tree \<Rightarrow> addr tl" where
  "tl_parse_multiplicity T =
     bind (check (tree_type T = type_multiplicity)) (\<lambda>_.
     bind (check (tree_nc T = 1)) (\<lambda>_.
     tl_parse_nat_term (hd (tree_c T)) 0))"

text \<open>The variable \<open>tt\<close>: 1 for \<open>#\<close>, 0 for \<open>Type\<close>, otherwise -1.\<close>

definition var_kind :: "addr \<Rightarrow> int tl" where
  "var_kind R =
     bind (tl_tree_get_type R) (\<lambda>t.
     bind (type_has_id t ''#'') (\<lambda>h.
     if h then ret 1
     else bind (type_has_id t ''Type'') (\<lambda>h. if h then ret 0 else ret (-1))))"

definition is_underscore :: "tree \<Rightarrow> bool" where
  "is_underscore c \<longleftrightarrow> (case tree_text c of x # _ \<Rightarrow> x = CHR ''_'' | [] \<Rightarrow> False)"

text \<open>A new field node whose type is \<open>R\<close>, or a copy of it for all but the last name.\<close>

definition new_field :: "addr \<Rightarrow> bool \<Rightarrow> cdata \<Rightarrow> addr tl" where
  "new_field R last_one d =
     bind alloc_ctree_node (\<lambda>S.
     bind (if last_one then ret R else with_fuel (\<lambda>n. tl_tree_dup n R)) (\<lambda>l.
     bind (upd_node S (\<lambda>N. N\<lparr>left := l, right := 0, ctype := type_list_item, type_len := 0,
             act := act_field, data := d\<rparr>)) (\<lambda>_.
     ret S)))"

primrec opt_args_fields :: "tree list \<Rightarrow> addr \<Rightarrow> int \<Rightarrow> addr \<Rightarrow> addr tl" where
  "opt_args_fields [] R tt H = ret H"
| "opt_args_fields (c # cs) R tt H =
     bind (new_field R (cs = []) (DStr (tree_word c))) (\<lambda>S.
     bind (tl_add_var (tree_word c) S tt) (\<lambda>_.
     bind (upd_node S (\<lambda>N. N\<lparr>flags := 33\<rparr>)) (\<lambda>_.
     bind (tl_union H S) (\<lambda>H.
     opt_args_fields cs R tt H))))"

definition tl_parse_opt_args :: "tree \<Rightarrow> addr tl" where
  "tl_parse_opt_args T =
     bind (check (tree_type T = type_opt_args)) (\<lambda>_.
     bind (check (2 \<le> tree_nc T)) (\<lambda>_.
     TL_TRY (tl_parse_type_term (last (tree_c T)) 0) 0 (\<lambda>R.
     bind (node R) (\<lambda>N.
     bind (check (ctype N = type_type \<and> type_len N = 0)) (\<lambda>_.
     bind (tl_finish_subtree R) (\<lambda>ok.
     bind (check ok) (\<lambda>_.
     bind (var_kind R) (\<lambda>tt.
     if tt < 0 then bind (tl_error ''Optargs can be only of type # or Type'') (\<lambda>_. ret 0)
     else
       let names = butlast (tree_c T) in
       case find (\<lambda>c. tree_type c \<noteq> type_var_ident \<or> tree_len c = 1 \<and> is_underscore c) names of
         Some c \<Rightarrow>
           bind (tl_error (if tree_type c \<noteq> type_var_ident then ''Variable name expected''
                           else ''Variables can not be unnamed'')) (\<lambda>_. ret 0)
       | None \<Rightarrow> opt_args_fields names R tt 0))))))))"

text \<open>\<open>tl_mark_vars\<close>: variables of the result type and of \<open>!\<close> fields count as used.\<close>

primrec tl_mark_vars :: "nat \<Rightarrow> addr \<Rightarrow> unit tl" where
  "tl_mark_vars 0 T = (if T = 0 then ret () else raise OutOfFuel)"
| "tl_mark_vars (Suc n) T =
     (if T = 0 then ret ()
      else
        bind (node T) (\<lambda>N.
        bind (if act N = act_var then
                bind (var_name N) (\<lambda>w.
                bind (tl_get_var w) (\<lambda>v.
                bind (check (v \<noteq> 0)) (\<lambda>_.
                upd_var v (\<lambda>x. x\<lparr>v_flags := v_flags x OR 1\<rparr>))))
              else ret ()) (\<lambda>_.
        bind (tl_mark_vars n (left N)) (\<lambda>_.
        tl_mark_vars n (right N)))))"

text \<open>The condition \<open>name.number?\<close> of a field, lines 1915-1932.\<close>

definition opt_field :: "tree \<Rightarrow> addr \<Rightarrow> addr tl" where
  "opt_field d R =
     bind (check (tree_nc d = 2)) (\<lambda>_.
     bind (new_node (zero_node\<lparr>ctype := type_type, act := act_opt_field\<rparr>)) (\<lambda>E.
     bind (tl_parse_ident (tree_c d ! 0) 0) (\<lambda>l.
     bind (upd_node E (\<lambda>N. N\<lparr>left := l\<rparr>)) (\<lambda>_.
     bind (upd_node l (\<lambda>N. N\<lparr>type_flags := decimal (tree_word (tree_c d ! 1))\<rparr>)) (\<lambda>_.
     bind (node R) (\<lambda>r.
     bind (upd_node E (\<lambda>N. N\<lparr>type_flags := type_flags r, type_len := type_len r, right := R\<rparr>)) (\<lambda>_.
     ret E)))))))"

text \<open>The name of an anonymous variable: two random numbers in decimal, line 1967.\<close>

definition random_name :: "string tl" where
  "random_name = bind lrand48 (\<lambda>a. bind lrand48 (\<lambda>b. ret (lld (word_of_int (a * 2 ^ 32 + b)))))"

text \<open>One iteration of the loop at line 1946; \<open>c = None\<close> is the iteration \<open>i = -1\<close>.\<close>

definition args134_field :: "tree option \<Rightarrow> bool \<Rightarrow> addr \<Rightarrow> int \<Rightarrow> bool \<Rightarrow> addr \<Rightarrow> addr tl" where
  "args134_field c last_one R tt excl H =
     bind (new_field R last_one (case c of Some c \<Rightarrow> DStr (tree_word c) | None \<Rightarrow> DNull)) (\<lambda>S.
     bind (if excl then upd_node S (\<lambda>N. N\<lparr>flags := flags N OR FLAG_EXCL\<rparr>) else ret ()) (\<lambda>_.
     bind (case c of
             Some c \<Rightarrow> if 2 \<le> tree_len c \<or> \<not> is_underscore c then tl_add_field (tree_word c) else ret True
           | None \<Rightarrow> ret True) (\<lambda>ok.
     if \<not> ok then
       bind (tl_error (''Duplicate field name '' @ (case c of Some c \<Rightarrow> tree_word c | None \<Rightarrow> []))) (\<lambda>_. ret 0)
     else
       bind (if 0 \<le> tt then
               bind (case c of Some c \<Rightarrow> ret (tree_word c) | None \<Rightarrow> random_name) (\<lambda>w.
               bind (tl_add_var w S tt) (\<lambda>v.
               if v = 0 then ret False
               else bind (upd_var v (\<lambda>x. x\<lparr>v_flags := v_flags x OR 2\<rparr>)) (\<lambda>_. ret True)))
             else ret True) (\<lambda>ok.
       if \<not> ok then ret 0 else tl_union H S))))"

primrec args134_fields :: "tree list \<Rightarrow> addr \<Rightarrow> int \<Rightarrow> bool \<Rightarrow> addr \<Rightarrow> addr tl" where
  "args134_fields [] R tt excl H = ret H"
| "args134_fields (c # cs) R tt excl H =
     bind (args134_field (Some c) (cs = []) R tt excl H) (\<lambda>H'.
     if H' = 0 then ret 0 else args134_fields cs R tt excl H')"

definition is_var_tree :: "tree \<Rightarrow> bool" where
  "is_var_tree c \<longleftrightarrow> tree_type c = type_var_ident \<or> tree_type c = type_var_ident_opt"

definition tl_parse_args134 :: "tree \<Rightarrow> addr tl" where
  "tl_parse_args134 T =
     bind (check (tree_type T = type_args1 \<or> tree_type T = type_args3 \<or> tree_type T = type_args4)) (\<lambda>_.
     bind (check (1 \<le> tree_nc T)) (\<lambda>_.
     TL_TRY (tl_parse_type_term (last (tree_c T)) 0) 0 (\<lambda>R.
     bind (tl_finish_subtree R) (\<lambda>ok.
     bind (check ok) (\<lambda>_.
     bind (node R) (\<lambda>N.
     bind (check (ctype N = type_type \<and> type_len N = 0)) (\<lambda>_.
     bind (var_kind R) (\<lambda>tt.
     let cs = butlast (tree_c T);
         excl = (cs \<noteq> [] \<and> tree_type (last cs) = type_exclam);
         cs1 = (if excl then butlast cs else cs);
         opt = (cs1 \<noteq> [] \<and> tree_type (last cs1) = type_optional_arg_def);
         names = (if opt then butlast cs1 else cs1)
     in
     bind (if excl then with_fuel (\<lambda>n. tl_mark_vars n R) else ret ()) (\<lambda>_.
     bind (if opt then opt_field (last cs1) R else ret R) (\<lambda>R.
     if \<not> list_all is_var_tree (butlast names) then
       bind (tl_error ''Variable name expected'') (\<lambda>_. ret 0)
     else if names = [] then args134_field None True R tt excl 0
     else args134_fields names R tt excl 0))))))))))"

text \<open>The multiplicity of an array: given, or the last number variable (lines 1843-1861).\<close>

definition args2_multiplicity :: "tree \<Rightarrow> addr tl" where
  "args2_multiplicity c =
     (if tree_type c = type_multiplicity then tl_parse_multiplicity c
      else
        bind tl_get_last_num_var (\<lambda>v.
        if v = 0 then bind (tl_error ''Expected multiplicity or nat var'') (\<lambda>_. ret 0)
        else
          bind (varobj v) (\<lambda>vo.
          bind (new_node (zero_node\<lparr>act := act_var, ctype := type_num, flags := 128,
                  data := DNode (v_ptr vo)\<rparr>)) (\<lambda>L.
          bind (upd_node (v_ptr vo) (\<lambda>N. N\<lparr>flags := flags N OR 256\<rparr>)) (\<lambda>_.
          ret L)))))"

function tl_parse_args2 :: "tree \<Rightarrow> addr tl"
and tl_parse_args :: "tree \<Rightarrow> addr tl" where
  "tl_parse_args2 T =
     bind (check (tree_type T = type_args2)) (\<lambda>_.
     bind (check (1 \<le> tree_nc T)) (\<lambda>_.
     let named = is_var_tree (hd (tree_c T));
         w = tree_word (hd (tree_c T));
         x = (if named then 1 else 0)
     in
     bind (if named then tl_add_field w else ret True) (\<lambda>ok.
     if \<not> ok then bind (tl_error (''Duplicate field name '' @ w)) (\<lambda>_. ret 0)
     else if tree_nc T \<le> x then raise OutOfBounds
     else
       bind (args2_multiplicity (tree_c T ! x)) (\<lambda>L.
       if L = 0 then ret 0
       else
         let cs = drop (if tree_type (tree_c T ! x) = type_multiplicity then x + 1 else x) (tree_c T) in
         bind namespace_push (\<lambda>_.
         bind (union_loop (\<lambda>c _. tl_parse_args c) cs 0 0) (\<lambda>R.
         if R = 0 \<and> cs \<noteq> [] then ret 0
         else
           bind namespace_pop (\<lambda>_.
           bind (new_node (zero_node\<lparr>ctype := type_type, act := act_array, left := L, right := R\<rparr>)) (\<lambda>S.
           new_node (zero_node\<lparr>ctype := type_list_item, act := act_field, left := S,
             data := (if named then DStr w else DNull)\<rparr>))))))))) "
| "tl_parse_args T =
     bind (check (tree_type T = type_args)) (\<lambda>_.
     bind (check (tree_nc T = 1)) (\<lambda>_.
     if tree_c T = [] then raise Assertion
     else
       let c = hd (tree_c T) in
       if tree_type c = type_args2 then tl_parse_args2 c
       else if tree_type c = type_args1 \<or> tree_type c = type_args3 \<or> tree_type c = type_args4
       then tl_parse_args134 c
       else raise Assertion))"
  by pat_completeness auto
termination
  by (relation "measure (\<lambda>x. case x of Inl T \<Rightarrow> size T | Inr T \<Rightarrow> size T)") (auto dest: in_set_dropD)

declare tl_parse_args2.simps [simp del] tl_parse_args.simps [simp del]

text \<open>The arguments of a result type, lines 2044-2048.\<close>

primrec result_args :: "tree list \<Rightarrow> addr \<Rightarrow> addr tl" where
  "result_args [] L = ret L"
| "result_args (c # cs) L =
     TL_TRY (tl_parse_any_term c 0) L (\<lambda>L.
     bind (node L) (\<lambda>N.
     bind (check (right N \<noteq> 0)) (\<lambda>_.
     bind (node (right N)) (\<lambda>Q.
     bind (check (is_num (ctype Q) \<or> ctype Q = type_type \<and> type_len Q = 0)) (\<lambda>_.
     result_args cs L)))))"

definition tl_parse_result_type :: "tree \<Rightarrow> addr tl" where
  "tl_parse_result_type T =
     bind (check (tree_type T = type_result_type)) (\<lambda>_.
     bind (check (1 \<le> tree_nc T)) (\<lambda>_.
     bind (check (tree_nc T \<le> 64)) (\<lambda>_.
     let w = tree_word (hd (tree_c T)) in
     bind (tl_get_var w) (\<lambda>v.
     bind (if v \<noteq> 0 then
             if tree_nc T \<noteq> 1 then bind (tl_error ''Variable can not take params'') (\<lambda>_. ret 0)
             else
               bind (new_node (zero_node\<lparr>act := act_var, ctype := type_type\<rparr>)) (\<lambda>L.
               bind (varobj v) (\<lambda>vo.
               if v_type vo \<noteq> 0 then bind (tl_error ''Type mistmatch'') (\<lambda>_. ret 0)
               else bind (upd_node L (\<lambda>N. N\<lparr>data := DNode (v_ptr vo)\<rparr>)) (\<lambda>_. ret L)))
           else
             bind (new_node (zero_node\<lparr>act := act_type, ctype := type_type\<rparr>)) (\<lambda>L.
             bind (tl_add_type w (-1) 0) (\<lambda>t.
             bind (check (t \<noteq> 0)) (\<lambda>_.
             bind (tyobj t) (\<lambda>ty.
             bind (upd_node L (\<lambda>N. N\<lparr>type_len := params_num ty, type_flags := params_types ty,
                     data := DType t\<rparr>)) (\<lambda>_.
             result_args (tl (tree_c T)) L)))))) (\<lambda>L.
     if L = 0 then ret 0
     else
       bind (tl_finish_subtree L) (\<lambda>ok.
       if \<not> ok then ret 0
       else bind (with_fuel (\<lambda>n. tl_mark_vars n L)) (\<lambda>_. ret L)))))))"

subsection \<open>The registry invariant is kept\<close>

lemma keeps_union_loop:
  "(\<And>c u. c \<in> set cs \<Longrightarrow> keeps prog_ok (f c u)) \<Longrightarrow> keeps prog_ok (union_loop f cs s L)"
  by (induction cs arbitrary: s L) (simp_all add: keeps)

lemma keeps_tl_parse_nat_const [keeps]: "keeps prog_ok (tl_parse_nat_const T s)"
  unfolding tl_parse_nat_const_def by (intro keeps)

lemma keeps_tl_parse_ident [keeps]: "keeps prog_ok (tl_parse_ident T s)"
  unfolding tl_parse_ident_def by (intro keeps keeps_prog_upd; simp)

lemma keeps_require_type [keeps]: "keeps prog_ok (require_type ok what Z)"
  unfolding require_type_def by (intro keeps)

lemma keeps_terms [keeps]:
  "keeps prog_ok (tl_parse_any_term T s)" "keeps prog_ok (tl_parse_term T s)" "keeps prog_ok (tl_parse_type_term T s)"
  "keeps prog_ok (tl_parse_nat_term T s)" "keeps prog_ok (tl_parse_subexpr T s)" "keeps prog_ok (tl_parse_expr T s)"
proof (induction T s and T s and T s and T s and T s and T s
    rule: tl_parse_any_term_tl_parse_term_tl_parse_type_term_tl_parse_nat_term_tl_parse_subexpr_tl_parse_expr.induct)
  case (1 T s)
  then show ?case by (subst tl_parse_any_term.simps) (intro keeps; simp)
next
  case (2 T s)
  then show ?case by (subst tl_parse_term.simps) (intro keeps keeps_union_loop; simp)
next
  case (3 T s)
  then show ?case by (subst tl_parse_type_term.simps) (intro keeps; simp)
next
  case (4 T s)
  then show ?case by (subst tl_parse_nat_term.simps) (intro keeps; simp)
next
  case (5 T s)
  then show ?case by (subst tl_parse_subexpr.simps) (intro keeps keeps_union_loop; simp)
next
  case (6 T s)
  then show ?case by (subst tl_parse_expr.simps) (intro keeps keeps_union_loop; simp)
qed

lemma keeps_fields [keeps]:
  "keeps prog_ok (tl_parse_multiplicity T)" "keeps prog_ok (var_kind R)" "keeps prog_ok (new_field R b d)"
  "keeps prog_ok random_name"
  unfolding tl_parse_multiplicity_def var_kind_def new_field_def random_name_def by (intro keeps)+

lemma keeps_opt_args_fields [keeps]: "keeps prog_ok (opt_args_fields cs R tt H)"
  by (induction cs arbitrary: H) (simp_all add: keeps)

lemma keeps_tl_parse_opt_args [keeps]: "keeps prog_ok (tl_parse_opt_args T)"
  unfolding tl_parse_opt_args_def by (intro keeps)

lemma keeps_tl_mark_vars [keeps]: "keeps prog_ok (tl_mark_vars n T)"
  by (induction n arbitrary: T) (simp_all add: keeps)

lemma keeps_args134 [keeps]:
  "keeps prog_ok (opt_field d R)" "keeps prog_ok (args134_field c b R tt excl H)"
  unfolding opt_field_def args134_field_def by (intro keeps)+

lemma keeps_args134_fields [keeps]: "keeps prog_ok (args134_fields cs R tt excl H)"
  by (induction cs arbitrary: H) (simp_all add: keeps)

lemma keeps_tl_parse_args134 [keeps]: "keeps prog_ok (tl_parse_args134 T)" "keeps prog_ok (args2_multiplicity T)"
  unfolding tl_parse_args134_def args2_multiplicity_def by (intro keeps)+

lemma keeps_tl_parse_args [keeps]: "keeps prog_ok (tl_parse_args2 T)" "keeps prog_ok (tl_parse_args T)"
proof (induction "size T" arbitrary: T rule: less_induct)
  case less
  have IH: "keeps prog_ok (tl_parse_args2 c)" "keeps prog_ok (tl_parse_args c)" if "c \<in> set (drop k (tree_c T))" for c k
    using less tree_child_size[OF in_set_dropD[OF that]] by auto
  show "keeps prog_ok (tl_parse_args2 T)"
    unfolding tl_parse_args2.simps[of T] Let_def by (intro keeps keeps_union_loop) (erule IH)
  show "keeps prog_ok (tl_parse_args T)"
    unfolding tl_parse_args.simps[of T] Let_def using IH(1)[of _ 0] by (intro keeps) simp
qed

lemma keeps_result_args [keeps]: "keeps prog_ok (result_args cs L)"
  by (induction cs arbitrary: L) (simp_all add: keeps)

lemma keeps_tl_parse_result_type [keeps]: "keeps prog_ok (tl_parse_result_type T)"
  unfolding tl_parse_result_type_def by (intro keeps)

end
