(* ===== verification/TL_Declare.thy ===== *)
theory TL_Declare
  imports TL_Semantic
begin

section \<open>Declarations and the whole program (tl-parser.c, lines 2059-2117, 2286-2575, 2719-2785)\<close>

text \<open>
  Each declaration handler returns the C result: 0 for failure, 1 for success, and -1 for a
  built-in type in the function section (which its caller takes for success).
  At the end: the invariant of the state through \<open>tl_parse\<close>, the reading of numbers, and what the test
  for built-in types accepts.
\<close>

subsection \<open>Combinators\<close>

definition tl_var_check_used :: "addr \<Rightarrow> unit tl" where
  "tl_var_check_used v =
     bind (varobj v) (\<lambda>x. modify (\<lambda>s. s\<lparr>tl_ok := tl_ok s \<and> v_flags x AND 3 \<noteq> 0\<rparr>))"

text \<open>The parts of a combinator between its name and \<open>=\<close>: lines 2073-2083.\<close>

definition combinator_left :: "tree \<Rightarrow> (addr \<Rightarrow> addr tl) \<Rightarrow> addr tl" where
  "combinator_left T k =
     (let mid = butlast (butlast (tl (tree_c T)));
          opts = takeWhile (\<lambda>c. tree_type c = type_opt_args) mid;
          rest = drop (length opts) mid;
          args = takeWhile (\<lambda>c. tree_type c = type_args) rest
      in
      bind (union_loop (\<lambda>c _. tl_parse_opt_args c) opts 0 0) (\<lambda>L.
      if L = 0 \<and> opts \<noteq> [] then ret 0
      else
        bind (union_loop (\<lambda>c _. tl_parse_args c) args 0 L) (\<lambda>L'.
        if L' = 0 \<and> args \<noteq> [] then ret 0
        else
          bind (check (args = rest \<and> tree_type (last (butlast (tree_c T))) = type_equals)) (\<lambda>_.
          k L'))))"

text \<open>\<open>if (!c->name) { tl_count_combinator_name (c); } tl_print_combinator (c);\<close>\<close>

definition name_and_print :: "addr \<Rightarrow> unit tl" where
  "name_and_print c =
     bind (comb c) (\<lambda>x.
     bind (if c_name x = 0 then bind (tl_count_combinator_name c) (\<lambda>_. ret ()) else ret ()) (\<lambda>_.
     bind (tl_print_combinator c) (\<lambda>_. ret ())))"

definition tl_parse_combinator_decl :: "tree \<Rightarrow> bool \<Rightarrow> int tl" where
  "tl_parse_combinator_decl T fn =
     bind (check (tree_type T = type_combinator_decl)) (\<lambda>_.
     bind (check (3 \<le> tree_nc T)) (\<lambda>_.
     bind (modify (\<lambda>s. s\<lparr>namespace_level := 0\<rparr>)) (\<lambda>_.
     bind tl_clear_vars (\<lambda>_.
     bind tl_clear_fields (\<lambda>_.
     combinator_left T (\<lambda>L.
     bind (tl_parse_result_type (last (tree_c T))) (\<lambda>R.
     if R = 0 then ret 0
     else
       bind (tl_tree_get_type R) (\<lambda>t.
       bind (if \<not> fn \<and> t = 0 then tl_error ''Only functions can return variables'' else ret ()) (\<lambda>_.
       bind (check (t \<noteq> 0 \<or> fn)) (\<lambda>_.
       bind (gets namespace_level) (\<lambda>n.
       bind (check (n = 0)) (\<lambda>_.
       bind (modify (\<lambda>s. s\<lparr>tl_ok := True\<rparr>)) (\<lambda>_.
       bind (gets (\<lambda>s. vars s 0)) (\<lambda>VT.
       bind (tree_act VT tl_var_check_used) (\<lambda>_.
       bind (gets tl_ok) (\<lambda>ok.
       if \<not> ok then bind (tl_error ''Not all variables are used in right side'') (\<lambda>_. ret 0)
       else
         let w = tree_word (hd (tree_c T)) in
         bind (tl_get_constructor w) (\<lambda>dc.
         bind (tl_get_function w) (\<lambda>df.
         if dc \<noteq> 0 \<or> df \<noteq> 0 then
           bind (tl_error (''Duplicate combinator id '' @ w)) (\<lambda>_. ret 0)
         else
           bind (if \<not> fn then tl_add_constructor t w False else tl_add_function t w False) (\<lambda>c.
           if c = 0 then ret 0
           else
             bind (upd_comb c (\<lambda>x. x\<lparr>c_left := L, c_right := R\<rparr>)) (\<lambda>_.
             bind (name_and_print c) (\<lambda>_.
             ret 1)))))))))))))))))))))"

subsection \<open>Partial applications\<close>

text \<open>\<open>snprintf (_buf, 100000, ...)\<close> keeps at most 99999 characters.\<close>

definition snprintf_buf :: "string \<Rightarrow> string" where
  "snprintf_buf w = take 99999 w"

text \<open>The arguments of a partially applied type, lines 2304-2307.\<close>

primrec partial_type_args :: "tree list \<Rightarrow> addr \<Rightarrow> addr tl" where
  "partial_type_args [] L = ret L"
| "partial_type_args (c # cs) L =
     TL_TRY (tl_parse_any_term c 0) L (\<lambda>L.
     bind (node L) (\<lambda>N.
     bind (with_fuel (\<lambda>n. tl_buf_add_tree n (right N) True)) (\<lambda>_.
     partial_type_args cs L)))"

text \<open>The missing arguments become wild cards, lines 2309-2318.\<close>

primrec fill_wildcards :: "nat \<Rightarrow> addr \<Rightarrow> addr tl" where
  "fill_wildcards 0 L = raise OutOfFuel"
| "fill_wildcards (Suc n) L =
     bind (node L) (\<lambda>N.
     if type_len N = 0 then ret L
     else
       bind (new_node (zero_node\<lparr>act := act_var,
               ctype := (if type_flags N AND 1 \<noteq> 0 then type_num else type_type),
               data := DMinus1\<rparr>)) (\<lambda>C.
       bind (tl_union L C) (\<lambda>L. if L = 0 then ret 0 else fill_wildcards n L)))"

text \<open>One constructor of the partially applied type, lines 2328-2359.\<close>

definition specialize_constructor :: "addr \<Rightarrow> addr \<Rightarrow> addr \<Rightarrow> unit tl" where
  "specialize_constructor nt L c =
     bind (comb c) (\<lambda>co.
     bind (with_fuel (\<lambda>n. tl_tree_dup n (c_left co))) (\<lambda>A.
     bind (with_fuel (\<lambda>n. tl_tree_dup n (c_right co))) (\<lambda>B.
     bind (with_fuel (\<lambda>n. change_var_ptrs n (c_left co) A TNil)) (\<lambda>W.
     bind (with_fuel (\<lambda>n. change_var_ptrs n (c_right co) B W)) (\<lambda>W.
     bind (check_constructors_equal B L TNil) (\<lambda>(eq, V).
     if \<not> eq then ret ()
     else
       bind (with_fuel (\<lambda>n. reduce_type n B nt)) (\<lambda>B.
       bind (with_fuel (\<lambda>n. change_value_var n A V)) (\<lambda>A.
       let A = (if A = -1 then 0 else A) in
       bind (with_fuel (\<lambda>n. change_value_var n B V)) (\<lambda>B.
       bind (check (B \<noteq> -1)) (\<lambda>_.
       bind (gets buf) (\<lambda>b.
       bind (tl_add_constructor nt (snprintf_buf (c_id co @ b)) True) (\<lambda>r.
       bind (upd_comb r (\<lambda>x. x\<lparr>c_real_id := Some (snprintf_buf (c_id co)), c_left := A, c_right := B\<rparr>)) (\<lambda>_.
       name_and_print r)))))))))))))"

text \<open>
  The buffer is also what \<open>name_and_print\<close> overwrites, so a second constructor is named after
  the description of the first: the model keeps that, since \<open>buf\<close> is one global.
\<close>

definition tl_parse_partial_type_app_decl :: "tree \<Rightarrow> int tl" where
  "tl_parse_partial_type_app_decl T =
     bind (check (tree_type T = type_partial_type_app_decl)) (\<lambda>_.
     bind (check (1 \<le> tree_nc T)) (\<lambda>_.
     bind (check (tree_type (hd (tree_c T)) = type_boxed_type_ident)) (\<lambda>_.
     bind (tl_get_type (tree_word (hd (tree_c T)))) (\<lambda>t.
     if t = 0 then bind (tl_error ''Can not make partial app for unknown type'') (\<lambda>_. ret 0)
     else
       bind (tl_type_finalize t) (\<lambda>_.
       bind (tl_parse_ident (hd (tree_c T)) 0) (\<lambda>L.
       bind (check (L \<noteq> 0)) (\<lambda>_.
       bind tl_buf_reset (\<lambda>_.
       let cc = tree_nc T - 1 in
       bind (partial_type_args (tl (tree_c T)) L) (\<lambda>L.
       if L = 0 then ret 0
       else
         bind (node L) (\<lambda>N.
         bind (fill_wildcards (Suc (nat (type_len N))) L) (\<lambda>L.
         if L = 0 then ret 0
         else
           bind (tyobj t) (\<lambda>ty.
           bind (gets buf) (\<lambda>b.
           bind (tl_add_type (snprintf_buf (ty_id ty @ b)) (params_num ty - int cc)
                   (signed_drop_bit cc (params_types ty))) (\<lambda>nt.
           bind (check (nt \<noteq> 0)) (\<lambda>_.
           bind (iterate (specialize_constructor nt L) (constructors ty)) (\<lambda>_.
           ret 1))))))))))))))))"

text \<open>The arguments of a partially applied combinator, lines 2389-2407: \<open>None\<close> is \<open>TL_FAIL\<close>.\<close>

primrec partial_comb_args :: "tree list \<Rightarrow> addr \<Rightarrow> addr \<Rightarrow> int \<Rightarrow> addr option tl" where
  "partial_comb_args [] L R i = ret (Some L)"
| "partial_comb_args (c # cs) L R i =
     bind (tl_parse_any_term c 0) (\<lambda>X.
     bind (with_fuel (\<lambda>n. change_first_var n L 0 X)) (\<lambda>(Z, K).
     if Z = 0 then ret None
     else if K = 0 then
       bind (tl_error (''Partial app: not enougth variables (i = '' @ int_dec i @ '')'')) (\<lambda>_. ret None)
     else
       bind (with_fuel (\<lambda>n. change_first_var n R K X)) (\<lambda>(Y, K).
       if Y = 0 then ret None
       else
         bind (check (Y = R)) (\<lambda>_.
         bind (with_fuel (\<lambda>n. tl_buf_add_tree n X True)) (\<lambda>_.
         partial_comb_args cs Z R (i + 1))))))"

definition tl_parse_partial_comb_app_decl :: "tree \<Rightarrow> bool \<Rightarrow> int tl" where
  "tl_parse_partial_comb_app_decl T fn =
     bind (check (tree_type T = type_partial_comb_app_decl)) (\<lambda>_.
     if tree_c T = [] then raise OutOfBounds
     else
     let w = tree_word (hd (tree_c T)) in
     bind (if \<not> fn then tl_get_constructor w else tl_get_function w) (\<lambda>c.
     if c = 0 then bind (tl_error ''Can not make partial app for undefined combinator'') (\<lambda>_. ret 0)
     else
       bind (comb c) (\<lambda>co.
       bind (with_fuel (\<lambda>n. tl_tree_dup n (c_left co))) (\<lambda>L.
       bind (with_fuel (\<lambda>n. tl_tree_dup n (c_right co))) (\<lambda>R.
       bind (with_fuel (\<lambda>n. change_var_ptrs n (c_left co) L TNil)) (\<lambda>V.
       bind (with_fuel (\<lambda>n. change_var_ptrs n (c_right co) R V)) (\<lambda>V.
       bind tl_buf_reset (\<lambda>_.
       bind (partial_comb_args (tl (tree_c T)) L R 1) (\<lambda>res.
       case res of
         None \<Rightarrow> ret 0
       | Some L \<Rightarrow>
           bind (gets buf) (\<lambda>b.
           bind (let w = snprintf_buf (c_id co @ b) in
                 if \<not> fn then tl_add_constructor (c_type co) w True
                 else tl_add_function (c_type co) w True) (\<lambda>r.
           bind (upd_comb r (\<lambda>x. x\<lparr>c_left := L, c_right := R,
                   c_real_id := Some (snprintf_buf (c_id co))\<rparr>)) (\<lambda>_.
           bind (name_and_print r) (\<lambda>_.
           ret 1)))))))))))))"

definition tl_parse_partial_app_decl :: "tree \<Rightarrow> bool \<Rightarrow> int tl" where
  "tl_parse_partial_app_decl T fn =
     bind (check (tree_type T = type_partial_app_decl)) (\<lambda>_.
     bind (check (tree_nc T = 1)) (\<lambda>_.
     let c = hd (tree_c T) in
     if tree_type c = type_partial_comb_app_decl then tl_parse_partial_comb_app_decl c fn
     else if fn then bind (tl_error ''Partial type app in functions block'') (\<lambda>_. ret 0)
     else tl_parse_partial_type_app_decl c))"

subsection \<open>Final, New and Empty statements\<close>

definition tl_parse_final_final :: "tree \<Rightarrow> int tl" where
  "tl_parse_final_final T =
     bind (check (tree_type T = type_final_final)) (\<lambda>_.
     bind (check (tree_nc T = 1)) (\<lambda>_.
     let w = tree_word (hd (tree_c T)) in
     bind (tl_get_type w) (\<lambda>R.
     if R \<noteq> 0 then bind (upd_type R (\<lambda>t. t\<lparr>ty_flags := ty_flags t OR 1\<rparr>)) (\<lambda>_. ret 1)
     else bind (tl_error (''Final statement for type `'' @ w @ ''` before declaration'')) (\<lambda>_. ret 0))))"

definition tl_parse_final_new :: "tree \<Rightarrow> int tl" where
  "tl_parse_final_new T =
     bind (check (tree_type T = type_final_new)) (\<lambda>_.
     bind (check (tree_nc T = 1)) (\<lambda>_.
     let w = tree_word (hd (tree_c T)) in
     bind (tl_get_type w) (\<lambda>R.
     if R \<noteq> 0 then
       bind (tl_error (''New statement: type `'' @ w @ ''` already declared'')) (\<lambda>_. ret 0)
     else ret 1)))"

definition tl_parse_final_empty :: "tree \<Rightarrow> int tl" where
  "tl_parse_final_empty T =
     bind (check (tree_type T = type_final_empty)) (\<lambda>_.
     bind (check (tree_nc T = 1)) (\<lambda>_.
     let w = tree_word (hd (tree_c T)) in
     bind (tl_get_type w) (\<lambda>R.
     if R \<noteq> 0 then
       bind (tl_error (''New statement: type `'' @ w @ ''` already declared'')) (\<lambda>_. ret 0)
     else
       bind (tl_add_type w 0 0) (\<lambda>t.
       bind (check (t \<noteq> 0)) (\<lambda>_.
       bind (upd_type t (\<lambda>t. t\<lparr>ty_flags := ty_flags t OR (1 OR FLAG_EMPTY)\<rparr>)) (\<lambda>_.
       ret 1))))))"

definition tl_parse_final_decl :: "tree \<Rightarrow> bool \<Rightarrow> int tl" where
  "tl_parse_final_decl T fn =
     bind (check (tree_type T = type_final_decl)) (\<lambda>_.
     bind (check (\<not> fn)) (\<lambda>_.
     bind (check (tree_nc T = 1)) (\<lambda>_.
     let c = hd (tree_c T) in
     if tree_type c = type_final_new then tl_parse_final_new c
     else if tree_type c = type_final_final then tl_parse_final_final c
     else if tree_type c = type_final_empty then tl_parse_final_empty c
     else raise Assertion)))"

subsection \<open>Built-in types\<close>

text \<open>The disjunction of lines 2505-2510, evaluated from left to right.\<close>

primrec builtin_match :: "string \<Rightarrow> string \<Rightarrow> (string \<times> string) list \<Rightarrow> bool tl" where
  "builtin_match a b [] = ret False"
| "builtin_match a b (p # ps) =
     bind (mystrcmp2 a (fst p)) (\<lambda>x.
     bind (if x = 0 then bind (mystrcmp2 b (snd p)) (\<lambda>y. ret (y = 0)) else ret False) (\<lambda>ok.
     if ok then ret True else builtin_match a b ps))"

definition builtin_types :: "(string \<times> string) list" where
  "builtin_types = [(''int'', ''Int''), (''long'', ''Long''), (''double'', ''Double''),
     (''object'', ''Object''), (''function'', ''Function''), (''string'', ''String'')]"

definition tl_parse_builtin_combinator_decl :: "tree \<Rightarrow> bool \<Rightarrow> int tl" where
  "tl_parse_builtin_combinator_decl T fn =
     (if fn then bind (tl_error ''Builtin type can not be described in function block'') (\<lambda>_. ret (-1))
      else
        bind (check (tree_type T = type_builtin_combinator_decl)) (\<lambda>_.
        bind (check (tree_nc T = 2)) (\<lambda>_.
        bind (check (tree_type (tree_c T ! 0) = type_full_combinator_id)) (\<lambda>_.
        bind (check (tree_type (tree_c T ! 1) = type_boxed_type_ident)) (\<lambda>_.
        let a = tree_word (tree_c T ! 0); b = tree_word (tree_c T ! 1) in
        bind (builtin_match a b builtin_types) (\<lambda>ok.
        if \<not> ok then bind (tl_error (''Unknown builting type `'' @ a @ ''`'')) (\<lambda>_. ret 0)
        else
          bind (tl_add_type b 0 0) (\<lambda>t.
          if t = 0 then ret 0
          else
            bind (tl_add_constructor t a False) (\<lambda>c.
            if c = 0 then ret 0
            else
              bind (new_node (zero_node\<lparr>act := act_question_mark, ctype := type_list_item\<rparr>)) (\<lambda>l.
              bind (new_node (zero_node\<lparr>act := act_type, data := DType t, ctype := type_type\<rparr>)) (\<lambda>r.
              bind (upd_comb c (\<lambda>x. x\<lparr>c_left := l, c_right := r\<rparr>)) (\<lambda>_.
              bind (name_and_print c) (\<lambda>_.
              ret 1))))))))))))"

subsection \<open>Sections and the program\<close>

definition tl_parse_declaration :: "tree \<Rightarrow> bool \<Rightarrow> int tl" where
  "tl_parse_declaration T fn =
     bind (check (tree_type T = type_declaration)) (\<lambda>_.
     bind (check (tree_nc T = 1)) (\<lambda>_.
     let c = hd (tree_c T) in
     if tree_type c = type_combinator_decl then tl_parse_combinator_decl c fn
     else if tree_type c = type_partial_app_decl then tl_parse_partial_app_decl c fn
     else if tree_type c = type_final_decl then tl_parse_final_decl c fn
     else if tree_type c = type_builtin_combinator_decl then tl_parse_builtin_combinator_decl c fn
     else raise Assertion))"

text \<open>\<open>TL_TRY_PES\<close> over a list: stop with 0 at the first 0.\<close>

primrec try_all :: "('a \<Rightarrow> int tl) \<Rightarrow> 'a list \<Rightarrow> int tl" where
  "try_all f [] = ret 1"
| "try_all f (c # cs) = bind (f c) (\<lambda>r. if r = 0 then ret 0 else try_all f cs)"

definition tl_parse_constr_declarations :: "tree \<Rightarrow> int tl" where
  "tl_parse_constr_declarations T =
     bind (check (tree_type T = type_constr_declarations)) (\<lambda>_.
     try_all (\<lambda>c. tl_parse_declaration c False) (tree_c T))"

definition tl_parse_fun_declarations :: "tree \<Rightarrow> int tl" where
  "tl_parse_fun_declarations T =
     bind (check (tree_type T = type_fun_declarations)) (\<lambda>_.
     try_all (\<lambda>c. tl_parse_declaration c True) (tree_c T))"

text \<open>Do two constructors of the type overlap? The double loop of lines 2733-2740.\<close>

primrec overlap_with :: "addr \<Rightarrow> addr \<Rightarrow> addr list \<Rightarrow> unit tl" where
  "overlap_with t c [] = ret ()"
| "overlap_with t c (d # ds) =
     bind (comb c) (\<lambda>x.
     bind (comb d) (\<lambda>y.
     bind (check_constructors_equal (c_right x) (c_right y) TNil) (\<lambda>(eq, V).
     bind (if eq then upd_type t (\<lambda>ty. ty\<lparr>ty_flags := ty_flags ty OR 16\<rparr>) else ret ()) (\<lambda>_.
     overlap_with t c ds))))"

primrec check_overlaps :: "addr \<Rightarrow> addr list \<Rightarrow> unit tl" where
  "check_overlaps t [] = ret ()"
| "check_overlaps t (c # cs) = bind (overlap_with t c cs) (\<lambda>_. check_overlaps t cs)"

primrec xor_names :: "addr list \<Rightarrow> u32 \<Rightarrow> u32 tl" where
  "xor_names [] a = ret a"
| "xor_names (c # cs) a = bind (comb c) (\<lambda>x. xor_names cs (a XOR c_name x))"

definition swap_last :: "'a list \<Rightarrow> nat \<Rightarrow> 'a list" where
  "swap_last xs i = (let n = length xs - 1 in xs[i := xs ! n, n := xs ! i])"

text \<open>The positions of the default constructors \<open>_\<close>, lines 2746-2749.\<close>

primrec default_positions :: "addr list \<Rightarrow> nat \<Rightarrow> nat list tl" where
  "default_positions [] i = ret []"
| "default_positions (c # cs) i =
     bind (comb c) (\<lambda>x.
     bind (default_positions cs (Suc i)) (\<lambda>is.
     ret (if is_default_id (c_id x) then i # is else is)))"

definition not_ok :: "string \<Rightarrow> unit tl" where
  "not_ok e = bind (tl_error e) (\<lambda>_. modify (\<lambda>s. s\<lparr>tl_ok := False\<rparr>))"

definition tl_type_check :: "addr \<Rightarrow> unit tl" where
  "tl_type_check t =
     bind (gets tl_ok) (\<lambda>ok.
     if \<not> ok then ret ()
     else
     bind (tyobj t) (\<lambda>ty.
     if ty_id ty = ''#'' then upd_type t (\<lambda>x. x\<lparr>ty_name := 0x70659eff\<rparr>)
     else if ty_id ty = ''Type'' then upd_type t (\<lambda>x. x\<lparr>ty_name := 0x2cecf817\<rparr>)
     else if constructors ty = [] \<and> ty_flags ty AND FLAG_EMPTY = 0 then
       not_ok (''Type '' @ ty_id ty @ '' has no constructors'')
     else
       bind (xor_names (constructors ty) 0) (\<lambda>nm.
       bind (upd_type t (\<lambda>x. x\<lparr>ty_name := nm\<rparr>)) (\<lambda>_.
       bind (check_overlaps t (constructors ty)) (\<lambda>_.
       bind (tyobj t) (\<lambda>ty.
       bind (if ty_flags ty AND 24 = 24 then
               tl_error (''Warning: Type '' @ ty_id ty @
                 '' has overlapping costructors, but it is used with `%`'')
             else ret ()) (\<lambda>_.
       bind (default_positions (constructors ty) 0) (\<lambda>zs.
       if 1 < length zs then
         not_ok (''Type '' @ ty_id ty @ '' has '' @ nat_dec (length zs) @ '' default constructors'')
       else if length zs = 1 \<and> ty_flags ty AND 8 \<noteq> 0 then
         not_ok (''Type '' @ ty_id ty @ '' has default constructors and used bare'')
       else if zs \<noteq> [] then
         upd_type t (\<lambda>x. x\<lparr>constructors := swap_last (constructors x) (last zs)\<rparr>)
       else ret ()))))))))"

definition tl_parse :: "tree \<Rightarrow> int tl" where
  "tl_parse T =
     bind (check (tree_type T = type_tl_program)) (\<lambda>_.
     bind (tl_add_type ''#'' 0 0) (\<lambda>_.
     bind (tl_add_type ''Type'' 0 0) (\<lambda>_.
     bind (try_all (\<lambda>c. if tree_type c = type_constr_declarations
                        then tl_parse_constr_declarations c else tl_parse_fun_declarations c) (tree_c T)) (\<lambda>r.
     if r = 0 then ret 0
     else
       bind (modify (\<lambda>s. s\<lparr>tl_ok := True\<rparr>)) (\<lambda>_.
       bind (gets tl_type_tree) (\<lambda>TT.
       bind (tree_act TT tl_type_check) (\<lambda>_.
       bind (gets tl_ok) (\<lambda>ok. ret (if ok then 1 else 0)))))))))"

subsection \<open>The invariant of the state is kept\<close>

lemma keeps_try_all: "(\<And>c. keeps I (f c)) \<Longrightarrow> keeps I (try_all f cs)"
  by (induction cs) (simp_all add: keeps)

lemma keeps_combinator_left [keeps]: "(\<And>L. keeps prog_ok (k L)) \<Longrightarrow> keeps prog_ok (combinator_left T k)"
  unfolding combinator_left_def by (intro keeps keeps_union_loop)

lemma keeps_name_and_print [keeps]: "keeps prog_ok (name_and_print c)" "keeps prog_ok (tl_var_check_used v)"
  unfolding name_and_print_def tl_var_check_used_def
  by (intro keeps keeps_prog_modify; simp add: reg_part_def scope_part_def)+

lemma keeps_tl_parse_combinator_decl [keeps]: "keeps prog_ok (tl_parse_combinator_decl T fn)"
  unfolding tl_parse_combinator_decl_def
  by (intro keeps; rule keeps_prog_modify keeps_prog_upd; simp add: reg_part_def scope_part_def)

lemma keeps_partial_args [keeps]:
  "keeps prog_ok (partial_type_args cs L)" "keeps prog_ok (fill_wildcards n L)" "keeps prog_ok (partial_comb_args cs L R i)"
proof -
  show "keeps prog_ok (partial_type_args cs L)" by (induction cs arbitrary: L) (simp_all add: keeps)
  show "keeps prog_ok (fill_wildcards n L)" by (induction n arbitrary: L) (simp_all add: keeps)
  show "keeps prog_ok (partial_comb_args cs L R i)"
  proof (induction cs arbitrary: L i)
    case (Cons c cs)
    show ?case unfolding partial_comb_args.simps by (intro keeps Cons)
  qed (simp add: keeps)
qed

lemma keeps_specialize_constructor [keeps]: "keeps prog_ok (specialize_constructor nt L c)"
  unfolding specialize_constructor_def by (intro keeps keeps_prog_upd; simp)

lemma keeps_partial_apps [keeps]:
  "keeps prog_ok (tl_parse_partial_type_app_decl T)" "keeps prog_ok (tl_parse_partial_comb_app_decl T fn)"
  "keeps prog_ok (tl_parse_partial_app_decl T fn)"
proof -
  show t: "keeps prog_ok (tl_parse_partial_type_app_decl T)" for T
    unfolding tl_parse_partial_type_app_decl_def by (intro keeps keeps_iterate)
  show c: "keeps prog_ok (tl_parse_partial_comb_app_decl T fn)" for T
    unfolding tl_parse_partial_comb_app_decl_def by (intro keeps keeps_prog_upd; simp)
  show "keeps prog_ok (tl_parse_partial_app_decl T fn)"
    unfolding tl_parse_partial_app_decl_def by (intro keeps t c)
qed

lemma keeps_final_statements [keeps]:
  "keeps prog_ok (tl_parse_final_final T)" "keeps prog_ok (tl_parse_final_new T)" "keeps prog_ok (tl_parse_final_empty T)"
  "keeps prog_ok (tl_parse_final_decl T fn)"
  unfolding tl_parse_final_decl_def tl_parse_final_final_def tl_parse_final_new_def tl_parse_final_empty_def
  by (intro keeps keeps_prog_upd; simp)+

lemma keeps_builtin_match [keeps]: "keeps prog_ok (builtin_match a b ps)"
proof (induction ps)
  case Nil
  show ?case unfolding builtin_match.simps by (intro keeps)
next
  case (Cons p ps)
  show ?case unfolding builtin_match.simps by (intro keeps Cons)
qed

lemma keeps_declarations [keeps]:
  "keeps prog_ok (tl_parse_builtin_combinator_decl T fn)" "keeps prog_ok (tl_parse_declaration T fn)"
  "keeps prog_ok (tl_parse_constr_declarations T)" "keeps prog_ok (tl_parse_fun_declarations T)"
proof -
  show b: "keeps prog_ok (tl_parse_builtin_combinator_decl T fn)" for T fn
    unfolding tl_parse_builtin_combinator_decl_def by (intro keeps keeps_prog_upd; simp)
  show d: "keeps prog_ok (tl_parse_declaration T fn)" for T fn
    unfolding tl_parse_declaration_def by (intro keeps b)
  show "keeps prog_ok (tl_parse_constr_declarations T)" "keeps prog_ok (tl_parse_fun_declarations T)"
    unfolding tl_parse_constr_declarations_def tl_parse_fun_declarations_def
    by (intro keeps keeps_try_all d)+
qed

lemma keeps_overlaps [keeps]: "keeps prog_ok (overlap_with t c ds)" "keeps prog_ok (check_overlaps t cs)"
proof -
  show o: "keeps prog_ok (overlap_with t c ds)" for c ds
  proof (induction ds)
    case (Cons d ds)
    show ?case unfolding overlap_with.simps by (intro keeps keeps_prog_upd Cons) simp
  qed (simp only: overlap_with.simps keeps_basic)
  show "keeps prog_ok (check_overlaps t cs)"
  proof (induction cs)
    case (Cons c cs)
    show ?case unfolding check_overlaps.simps by (intro keeps o Cons)
  qed (simp only: check_overlaps.simps keeps_basic)
qed

lemma keeps_type_scans [keeps]:
  "keeps I (xor_names cs a)" "keeps I (default_positions cs i)" "keeps prog_ok (not_ok e)"
proof -
  show "keeps I (xor_names cs a)" by (induction cs arbitrary: a) (simp_all add: keeps)
  show "keeps I (default_positions cs i)" by (induction cs arbitrary: i) (simp_all add: keeps)
  show "keeps prog_ok (not_ok e)"
    unfolding not_ok_def by (intro keeps keeps_prog_modify; simp add: reg_part_def scope_part_def)
qed

lemma default_positions_range:
  "default_positions cs i s = Inr (zs, t) \<Longrightarrow> t = s \<and> (\<forall>z \<in> set zs. i \<le> z \<and> z < i + length cs)"
proof (induction cs arbitrary: i zs t)
  case (Cons c cs)
  then obtain x ys where x: "combs s c = Some x" "default_positions cs (Suc i) s = Inr (ys, t)"
      "zs = (if is_default_id (c_id x) then i # ys else ys)"
    by (auto simp: deref_def bind_apply split: option.splits sum.splits)
  from Cons.IH[OF x(2)] x(3) show ?case by auto
qed simp

lemma swap_last_perm:
  assumes "i < length xs"
  shows "length (swap_last xs i) = length xs" and "set (swap_last xs i) = set xs"
proof -
  show "length (swap_last xs i) = length xs" by (simp add: swap_last_def Let_def)
  show "set (swap_last xs i) = set xs" using assms unfolding swap_last_def Let_def by (intro set_swap) simp_all
qed

lemma keeps_default_last:
  "keeps prog_ok (bind (tyobj t) (\<lambda>u. bind (warn u) (\<lambda>_. bind (default_positions (constructors u) 0) (\<lambda>zs.
     if 1 < length zs then not_ok (e1 u zs)
     else if length zs = 1 \<and> F u then not_ok (e2 u)
     else if zs \<noteq> [] then upd_type t (\<lambda>x. x\<lparr>constructors := swap_last (constructors x) (last zs)\<rparr>)
     else ret ()))))" (is "keeps _ ?m")
  if warn: "\<And>u. warn u = (if W u then tl_error (w u) else ret ())"
proof (rule keepsI)
  fix s y v assume s: "prog_ok s" "?m s = Inr (y, v)"
  then obtain u s1 zs s2 where u: "types s t = Some u" "warn u s = Inr ((), s1)" "default_positions (constructors u) 0 s1 = Inr (zs, s2)"
      "(if 1 < length zs then not_ok (e1 u zs)
     else if length zs = 1 \<and> F u then not_ok (e2 u)
     else if zs \<noteq> [] then upd_type t (\<lambda>x. x\<lparr>constructors := swap_last (constructors x) (last zs)\<rparr>)
     else ret ()) s2 = Inr (y, v)"
    by (auto simp: deref_def split: option.splits)
  have s2: "s2 = s1" using default_positions_range[OF u(3)] by simp
  have s1: "prog_ok s1" "types s1 t = Some u"
    using u(1,2) keepsD[OF keeps_prog_small(2) s(1)] s(1) unfolding warn by (auto simp: tl_error_def split: if_splits)
  show "prog_ok v"
  proof (cases "zs = [] \<or> 1 < length zs \<or> length zs = 1 \<and> F u")
    case True
    then show ?thesis using u(4) s2 s1(1) keepsD[OF keeps_type_scans(3) s1(1)] by (auto split: if_splits)
  next
    case False
    let ?x = "u\<lparr>constructors := swap_last (constructors u) (last zs)\<rparr>"
    have "last zs < length (constructors u)" using default_positions_range[OF u(3)] False by (cases zs) auto
    from swap_last_perm[OF this] have "reg_ok (s1\<lparr>types := (types s1)(t \<mapsto> ?x)\<rparr>)"
      using s1 by (intro reg_ok_upd_type) (auto simp: prog_ok_def)
    moreover have "v = s1\<lparr>types := (types s1)(t \<mapsto> ?x)\<rparr>" using False u(4) s2 s1(2) by (auto simp: upd_type_def deref_def)
    ultimately show ?thesis using prog_ok_frame[OF s1(1), of v] by (simp add: scope_part_def)
  qed
qed

lemma keeps_tl_type_check [keeps]: "keeps prog_ok (tl_type_check t)"
  unfolding tl_type_check_def by (intro keeps keeps_prog_upd keeps_default_last; simp)

lemma keeps_tl_parse: "keeps prog_ok (tl_parse T)"
  unfolding tl_parse_def by (intro keeps keeps_try_all keeps_prog_modify; simp add: reg_part_def scope_part_def)

subsection \<open>Numbers\<close>

lemma decimal_snoc: "decimal (w @ [c]) = decimal w * 10 + word_of_int (schar c) - 48"
  by (simp add: decimal_def schar_def)

lemma decimal_nat_dec: "decimal (nat_dec n) = of_nat n"
proof (induction n rule: nat_dec.induct)
  case (1 n)
  show ?case
  proof (cases "n < 10")
    case True
    then show ?thesis
      using decimal_snoc[of "[]" "char_of (48 + n)"] by (subst nat_dec.simps) (simp add: schar_char_of decimal_def)
  next
    case False
    have "decimal (nat_dec n) = of_nat (n div 10) * 10 + of_nat (n mod 10)"
      using False 1 by (subst nat_dec.simps) (simp add: decimal_snoc schar_char_of)
    also have "\<dots> = of_nat (n div 10 * 10 + n mod 10)" by (simp only: of_nat_add of_nat_mult) simp
    finally show ?thesis by (simp only: div_mult_mod_eq)
  qed
qed

text \<open>
  A number in the scheme is read modulo \<open>2 ^ 64\<close> without an error; below \<open>2 ^ 63\<close> it is printed as it
  was written.
\<close>

theorem decimal_roundtrip:
  "decimal (nat_dec n) = of_nat n \<and> (n < 2 ^ 63 \<longrightarrow> lld (decimal (nat_dec n)) = nat_dec n)"
proof -
  have "sint (of_nat n :: u64) = int n" if "n < 2 ^ 63"
  proof -
    have "sint (word_of_int (int n) :: u64) = int n"
      using that unfolding sint_sbintrunc' by (intro signed_take_bit_int_eq_self) auto
    then show ?thesis by simp
  qed
  then show ?thesis by (simp add: decimal_nat_dec lld_def int_dec_def)
qed

theorem decimal_roundtrip_witness: "lld (decimal (nat_dec 1234567)) = nat_dec 1234567"
proof -
  have "(1234567 :: nat) < 2 ^ 63" by simp
  with decimal_roundtrip[of 1234567] show ?thesis by blast
qed

subsection \<open>Built-in types\<close>

lemma mystrcmp2_run: "\<exists>r. mystrcmp2 b a s = Inr (r, s) \<and> (length a = length b \<longrightarrow> r = 0)"
  by (auto simp: mystrcmp2_def Let_def literal_byte_def)

text \<open>
  The test for built-in types only compares lengths: every pair of names as long as a built-in
  combinator and its type is accepted, whatever its letters.
\<close>

theorem builtin_match_lengths:
  assumes "(x, y) \<in> set ps" and "length a = length x" and "length b = length y"
  shows "builtin_match a b ps s = Inr (True, s)"
  using assms
proof (induction ps)
  case (Cons p ps)
  obtain r where r: "mystrcmp2 a (fst p) s = Inr (r, s)" "length (fst p) = length a \<longrightarrow> r = 0" using mystrcmp2_run by blast
  obtain q where q: "mystrcmp2 b (snd p) s = Inr (q, s)" "length (snd p) = length b \<longrightarrow> q = 0" using mystrcmp2_run by blast
  from Cons r q show ?case by (cases "p = (x, y)") auto
qed simp

theorem builtin_match_lengths_witness:
  "builtin_match ''abc'' ''Xyz'' builtin_types sample_tlst = Inr (True, sample_tlst)"
  by (rule builtin_match_lengths[of "''int''" "''Int''"]) (simp_all add: builtin_types_def)

text \<open>
  C35: A built-in type in a block of functions is reported and then accepted: the block succeeds.
\<close>

theorem builtin_in_functions:
  assumes "tree_type F = type_fun_declarations" and "tree_c F = [D]"
    and "tree_type D = type_declaration" and "tree_c D = [B]" and "tree_type B = type_builtin_combinator_decl"
  shows "tl_parse_fun_declarations F s =
     Inr (1, s\<lparr>log := ''Builtin type can not be described in function block'' # log s\<rparr>)"
  using assms
  by (simp add: tl_parse_fun_declarations_def tl_parse_declaration_def tl_parse_builtin_combinator_decl_def tl_error_def)

theorem builtin_in_functions_witness:
  "tl_parse_fun_declarations
     (Tree type_fun_declarations [] 0 0 0 0 [Tree type_declaration [] 0 0 0 0 [Tree type_builtin_combinator_decl [] 0 0 0 0 []]])
     sample_tlst = Inr (1, sample_tlst\<lparr>log := [''Builtin type can not be described in function block'']\<rparr>)"
  using builtin_in_functions[of "Tree type_fun_declarations [] 0 0 0 0 [Tree type_declaration [] 0 0 0 0 [Tree type_builtin_combinator_decl [] 0 0 0 0 []]]"
      "Tree type_declaration [] 0 0 0 0 [Tree type_builtin_combinator_decl [] 0 0 0 0 []]" "Tree type_builtin_combinator_decl [] 0 0 0 0 []" sample_tlst]
  by (simp add: sample_tlst_def initial_tlst_def)

end
