(* ===== verification/TL_Writer.thy ===== *)
theory TL_Writer
  imports TL_Declare
begin

section \<open>Serialisation to the TLO format (tl-parser.c, lines 2787-3078, and tl-tl.h)\<close>

text \<open>
  The output file is the list of bytes written so far. The numbers of the variables live in a
  binding tree \<open>v\<close> and a counter \<open>last_var\<close>, which the C code passes by reference: here they
  are passed in and returned. Functions that follow the combinator tree take fuel.
\<close>

record wst =
  prog :: tlst
  out :: "u8 list"

type_synonym 'a wr = "(wst, 'a) comp"

definition in_prog :: "'a tl \<Rightarrow> 'a wr" where
  "in_prog m = (\<lambda>s. case m (prog s) of Inl e \<Rightarrow> Inl e | Inr (x, p) \<Rightarrow> Inr (x, s\<lparr>prog := p\<rparr>))"

subsection \<open>Constants of tl-tl.h\<close>

definition TLS_SCHEMA_V2 :: u32 where "TLS_SCHEMA_V2 = 0x3a2f9be2"
definition TLS_TYPE :: u32 where "TLS_TYPE = 0x12eb4386"
definition TLS_COMBINATOR :: u32 where "TLS_COMBINATOR = 0x5c0a1ed5"
definition TLS_COMBINATOR_LEFT_BUILTIN :: u32 where "TLS_COMBINATOR_LEFT_BUILTIN = 0xcd211f63"
definition TLS_COMBINATOR_LEFT :: u32 where "TLS_COMBINATOR_LEFT = 0x4c12c6d9"
definition TLS_COMBINATOR_RIGHT_V2 :: u32 where "TLS_COMBINATOR_RIGHT_V2 = 0x2c064372"
definition TLS_ARG_V2 :: u32 where "TLS_ARG_V2 = 0x29dfe61b"
definition TLS_EXPR_TYPE :: u32 where "TLS_EXPR_TYPE = 0xecc9da78"
definition TLS_EXPR_NAT :: u32 where "TLS_EXPR_NAT = 0xdcb49bd8"
definition TLS_NAT_CONST :: u32 where "TLS_NAT_CONST = 0xdcb49bd8"
definition TLS_NAT_VAR :: u32 where "TLS_NAT_VAR = 0x4e8a14f0"
definition TLS_TYPE_VAR :: u32 where "TLS_TYPE_VAR = 0x0142ceae"
definition TLS_ARRAY :: u32 where "TLS_ARRAY = 0xd9fb20de"
definition TLS_TYPE_EXPR :: u32 where "TLS_TYPE_EXPR = 0xc1863d08"

subsection \<open>Primitive values\<close>

definition wdata :: "u8 list \<Rightarrow> unit wr" where
  "wdata bs = modify (\<lambda>s. s\<lparr>out := out s @ bs\<rparr>)"

definition bytes4 :: "u32 \<Rightarrow> u8 list" where
  "bytes4 a = map (\<lambda>i. ucast (drop_bit (8 * i) a)) [0, 1, 2, 3]"

definition bytes8 :: "u64 \<Rightarrow> u8 list" where
  "bytes8 a = map (\<lambda>i. ucast (drop_bit (8 * i) a)) [0, 1, 2, 3, 4, 5, 6, 7]"

definition wint :: "u32 \<Rightarrow> unit wr" where
  "wint a = wdata (bytes4 a)"

definition wll :: "u64 \<Rightarrow> unit wr" where
  "wll a = wdata (bytes8 a)"

definition wstr :: "string option \<Rightarrow> unit wr" where
  "wstr w =
     (case w of
        None \<Rightarrow> wint 0
      | Some w \<Rightarrow>
          let x = length w in
          if x \<le> 254 then
            bind (wdata [of_nat x]) (\<lambda>_.
            bind (wdata (map of_char w)) (\<lambda>_.
            let y = x + 1 in
            if y mod 4 \<noteq> 0 then wdata (replicate (4 - y mod 4) 0) else ret ()))
          else raise Assertion)"

primrec count_list_size :: "nat \<Rightarrow> addr \<Rightarrow> int tl" where
  "count_list_size 0 T = raise OutOfFuel"
| "count_list_size (Suc n) T =
     bind (node T) (\<lambda>N.
     bind (check (ctype N = type_list \<or> ctype N = type_list_item)) (\<lambda>_.
     if ctype N = type_list_item then ret 1
     else
       bind (count_list_size n (left N)) (\<lambda>a.
       bind (count_list_size n (right N)) (\<lambda>b. ret (a + b)))))"

definition write_type_flags :: "u64 \<Rightarrow> unit wr" where
  "write_type_flags f =
     wint ((if f AND 1 \<noteq> 0 then 1 else 0) OR
           (if f AND ucast FLAG_DEFAULT_CONSTRUCTOR \<noteq> 0 then FLAG_DEFAULT_CONSTRUCTOR else 0))"

definition write_field_flags :: "u64 \<Rightarrow> unit wr" where
  "write_field_flags f =
     wint ((if f AND 1 \<noteq> 0 then 1 else 0) OR
           (if f AND 32 \<noteq> 0 then ucast FLAG_OPT_VAR else 0) OR
           (if f AND FLAG_EXCL \<noteq> 0 then ucast FLAG_EXCL else 0) OR
           (if f AND FLAG_OPT_FIELD \<noteq> 0 then 2 else 0) OR
           (if f AND FLAG_IS_VAR \<noteq> 0 then 4 else 0))"

definition write_var_type_flags :: "u64 \<Rightarrow> unit wr" where
  "write_var_type_flags f =
     (if f AND 1 \<noteq> 0 then
        bind (in_prog (tl_error ''Sorry, bare vars are not (yet ?) supported.'')) (\<lambda>_. raise Assertion)
      else wint 0)"

subsection \<open>Trees\<close>

type_synonym vnums = "binds \<times> int"

text \<open>Is the type of a field node \<open>#\<close> or \<open>Type\<close>? (line 2903)\<close>

definition is_var_field :: "cnode \<Rightarrow> bool tl" where
  "is_var_field l =
     (if act l = act_type \<and> data l \<noteq> DNull then
        bind (data_type (data l)) (\<lambda>t.
        bind (type_has_id t ''#'') (\<lambda>h. if h then ret True else type_has_id t ''Type''))
      else ret False)"

text \<open>The name a field is written with: none for \<open>_\<close> and for unnamed fields.\<close>

definition field_name :: "cdata \<Rightarrow> string option tl" where
  "field_name d =
     (if d = DNull then ret None
      else bind (data_str d) (\<lambda>w. ret (if strcmp w ''_'' \<noteq> 0 then Some w else None)))"

text \<open>
  The functions of this group call one another. Here \<open>write_args\<close>, \<open>write_array\<close>,
  \<open>write_type_rec\<close> and \<open>write_opt_type\<close> take the writer of subtrees as the argument \<open>wt\<close>, and
  \<open>write_tree\<close> closes the recursion by passing itself with one unit of fuel less.
\<close>

type_synonym subtree_writer = "addr \<Rightarrow> bool \<Rightarrow> vnums \<Rightarrow> vnums wr"

definition write_arg :: "subtree_writer \<Rightarrow> addr \<Rightarrow> cnode \<Rightarrow> vnums \<Rightarrow> vnums wr" where
  "write_arg wt T N v =
     bind (wint TLS_ARG_V2) (\<lambda>_.
     bind (check (act N = act_field)) (\<lambda>_.
     bind (check (left N \<noteq> 0)) (\<lambda>_.
     bind (in_prog (field_name (data N))) (\<lambda>w.
     bind (wstr w) (\<lambda>_.
     bind (in_prog (node (left N))) (\<lambda>l.
     let f = (if act l = act_opt_field then flags N OR FLAG_OPT_FIELD else flags N) in
     bind (in_prog (is_var_field l)) (\<lambda>isv.
     bind (if isv then
             bind (write_field_flags (f OR FLAG_IS_VAR)) (\<lambda>_.
             bind (wint (word_of_int (snd v))) (\<lambda>_.
             bind (in_prog (tl_set_var_value_num (fst v) T 0 (word_of_int (snd v)))) (\<lambda>V.
             ret (V, snd v + 1))))
           else bind (write_field_flags f) (\<lambda>_. ret v)) (\<lambda>v.
     wt (left N) False v))))))))"

primrec write_args :: "nat \<Rightarrow> subtree_writer \<Rightarrow> addr \<Rightarrow> vnums \<Rightarrow> vnums wr" where
  "write_args 0 wt T v = raise OutOfFuel"
| "write_args (Suc n) wt T v =
     bind (in_prog (node T)) (\<lambda>N.
     bind (check (ctype N = type_list \<or> ctype N = type_list_item)) (\<lambda>_.
     if ctype N = type_list then
       bind (check (act N = act_union)) (\<lambda>_.
       bind (check (left N \<noteq> 0)) (\<lambda>_.
       bind (check (right N \<noteq> 0)) (\<lambda>_.
       bind (write_args n wt (left N) v) (\<lambda>v.
       write_args n wt (right N) v))))
     else write_arg wt T N v))"

definition write_array :: "subtree_writer \<Rightarrow> addr \<Rightarrow> vnums \<Rightarrow> vnums wr" where
  "write_array wt T v =
     bind (wint TLS_ARRAY) (\<lambda>_.
     bind (in_prog (node T)) (\<lambda>N.
     bind (wt (left N) False v) (\<lambda>v.
     wt (right N) False v)))"

definition write_type_leaf :: "cnode \<Rightarrow> int \<Rightarrow> vnums \<Rightarrow> vnums wr" where
  "write_type_leaf N cc v =
     bind (check (act N = act_var \<or> act N = act_type)) (\<lambda>_.
     if act N = act_var then
       bind (check (cc = 0)) (\<lambda>_.
       bind (wint TLS_TYPE_VAR) (\<lambda>_.
       bind (in_prog (data_ptr (data N))) (\<lambda>p.
       bind (wint (tl_get_var_value_num (fst v) p)) (\<lambda>_.
       bind (write_var_type_flags (flags N)) (\<lambda>_. ret v)))))
     else
       bind (wint TLS_TYPE_EXPR) (\<lambda>_.
       bind (in_prog (data_type (data N))) (\<lambda>t.
       bind (in_prog (tyobj t)) (\<lambda>ty.
       bind (wint (ty_name ty)) (\<lambda>_.
       bind (write_type_flags (flags N)) (\<lambda>_.
       bind (wint (word_of_int cc)) (\<lambda>_. ret v)))))))"

primrec write_type_rec :: "nat \<Rightarrow> subtree_writer \<Rightarrow> addr \<Rightarrow> int \<Rightarrow> vnums \<Rightarrow> vnums wr" where
  "write_type_rec 0 wt T cc v = raise OutOfFuel"
| "write_type_rec (Suc n) wt T cc v =
     bind (in_prog (node T)) (\<lambda>N.
     if act N = act_arg then
       bind (write_type_rec n wt (left N) (cc + 1) v) (\<lambda>v.
       bind (in_prog (node (right N))) (\<lambda>r.
       bind (wint (if is_num (ctype r) then TLS_EXPR_NAT else TLS_EXPR_TYPE)) (\<lambda>_.
       wt (right N) False v)))
     else write_type_leaf N cc v)"

definition write_opt_type :: "nat \<Rightarrow> subtree_writer \<Rightarrow> addr \<Rightarrow> vnums \<Rightarrow> vnums wr" where
  "write_opt_type n wt T v =
     bind (in_prog (node T)) (\<lambda>N.
     bind (in_prog (node (left N))) (\<lambda>l.
     bind (in_prog (data_ptr (data l))) (\<lambda>p.
     bind (wint (tl_get_var_value_num (fst v) p)) (\<lambda>_.
     bind (wint (ucast (type_flags l))) (\<lambda>_.
     bind (in_prog (node (right N))) (\<lambda>r.
     bind (check (ctype r = type_type)) (\<lambda>_.
     if act r = act_array then write_array wt (right N) v
     else
       bind (check (act r = act_type \<or> act r = act_var \<or> act r = act_arg)) (\<lambda>_.
       write_type_rec n wt (right N) 0 v))))))))"

primrec write_tree :: "nat \<Rightarrow> addr \<Rightarrow> bool \<Rightarrow> vnums \<Rightarrow> vnums wr" where
  "write_tree 0 T extra v = raise OutOfFuel"
| "write_tree (Suc n) T extra v =
     bind (check (T \<noteq> 0)) (\<lambda>_.
     bind (in_prog (node T)) (\<lambda>N.
     if ctype N = type_list_item \<or> ctype N = type_list then
       bind (if extra then wint TLS_COMBINATOR_RIGHT_V2 else ret ()) (\<lambda>_.
       bind (in_prog (with_fuel (\<lambda>m. count_list_size m T))) (\<lambda>k.
       bind (wint (word_of_int k)) (\<lambda>_. write_args (Suc n) (write_tree n) T v)))
     else if ctype N = type_num_value then
       bind (wint TLS_NAT_CONST) (\<lambda>_. bind (wint (ucast (type_flags N))) (\<lambda>_. ret v))
     else if ctype N = type_num then
       bind (wint TLS_NAT_VAR) (\<lambda>_.
       bind (wint (ucast (type_flags N))) (\<lambda>_.
       bind (in_prog (data_ptr (data N))) (\<lambda>p.
       bind (wint (tl_get_var_value_num (fst v) p)) (\<lambda>_. ret v))))
     else if act N = act_array then write_array (write_tree n) T v
     else if act N = act_type \<or> act N = act_var \<or> act N = act_arg then
       write_type_rec (Suc n) (write_tree n) T 0 v
     else bind (check (act N = act_opt_field)) (\<lambda>_. write_opt_type n (write_tree n) T v)))"

subsection \<open>Types, combinators and the file\<close>

definition write_type :: "addr \<Rightarrow> unit wr" where
  "write_type t =
     bind (in_prog (tyobj t)) (\<lambda>ty.
     bind (wint TLS_TYPE) (\<lambda>_.
     bind (wint (ty_name ty)) (\<lambda>_.
     bind (wstr (Some (ty_id ty))) (\<lambda>_.
     bind (wint (of_nat (length (constructors ty)))) (\<lambda>_.
     bind (wint (ty_flags ty)) (\<lambda>_.
     bind (wint (word_of_int (params_num ty))) (\<lambda>_.
     wll (params_types ty))))))))"

definition is_builtin_type :: "string \<Rightarrow> bool" where
  "is_builtin_type w \<longleftrightarrow> w = ''int'' \<or> w = ''long'' \<or> w = ''double'' \<or> w = ''string''
     \<or> w = ''object'' \<or> w = ''function''"

text \<open>
  The fuel of a writer is the number of addresses allocated so far: every level of recursion
  goes down one edge of a tree, and a tree is no deeper than it has nodes.
\<close>

definition with_write_fuel :: "(nat \<Rightarrow> 'a wr) \<Rightarrow> 'a wr" where
  "with_write_fuel f = bind (gets (\<lambda>s. nat (brk (prog s)))) f"

definition write_combinator :: "addr \<Rightarrow> unit wr" where
  "write_combinator c =
     bind (in_prog (comb c)) (\<lambda>co.
     bind (wint (c_name co)) (\<lambda>_.
     bind (wstr (Some (c_id co))) (\<lambda>_.
     bind (if c_type co \<noteq> 0 then bind (in_prog (tyobj (c_type co))) (\<lambda>ty. ret (ty_name ty)) else ret 0) (\<lambda>tn.
     bind (wint tn) (\<lambda>_.
     bind (check (c_right co \<noteq> 0)) (\<lambda>_.
     bind (if c_left co \<noteq> 0 then
             (if is_builtin_type (c_id co) then
                bind (wint TLS_COMBINATOR_LEFT_BUILTIN) (\<lambda>_. ret (TNil, 0))
              else
                bind (wint TLS_COMBINATOR_LEFT) (\<lambda>_.
                with_write_fuel (\<lambda>n. write_tree n (c_left co) False (TNil, 0))))
           else
             bind (wint TLS_COMBINATOR_LEFT) (\<lambda>_. bind (wint 0) (\<lambda>_. ret (TNil, 0)))) (\<lambda>v.
     bind (wint TLS_COMBINATOR_RIGHT_V2) (\<lambda>_.
     bind (with_write_fuel (\<lambda>n. write_tree n (c_right co) True v)) (\<lambda>_.
     ret ())))))))))"

definition write_constructor :: "addr \<Rightarrow> unit wr" where
  "write_constructor c = bind (wint TLS_COMBINATOR) (\<lambda>_. write_combinator c)"

definition write_function :: "addr \<Rightarrow> unit wr" where
  "write_function c = bind (wint TLS_COMBINATOR) (\<lambda>_. write_combinator c)"

definition write_type_constructors :: "addr \<Rightarrow> unit wr" where
  "write_type_constructors t =
     bind (in_prog (tyobj t)) (\<lambda>ty. iterate write_constructor (constructors ty))"

definition write_types :: "unit wr" where
  "write_types =
     bind (wint TLS_SCHEMA_V2) (\<lambda>_.
     bind (wint 0) (\<lambda>_.
     bind (wint 0) (\<lambda>_.
     bind (gets prog) (\<lambda>p.
     bind (wint (word_of_int (total_types_num p))) (\<lambda>_.
     bind (tree_act (tl_type_tree p) write_type) (\<lambda>_.
     bind (wint (word_of_int (total_constructors_num p))) (\<lambda>_.
     bind (tree_act (tl_type_tree p) write_type_constructors) (\<lambda>_.
     bind (wint (word_of_int (total_functions_num p))) (\<lambda>_.
     tree_act (tl_function_tree p) write_function)))))))))"

subsection \<open>What a writer appends\<close>

text \<open>
  \<open>emits P m\<close>: whenever \<open>m\<close> returns, it has appended to the file some bytes with \<open>P\<close> and has
  left the registry as it was.
\<close>

definition emits :: "(u8 list \<Rightarrow> bool) \<Rightarrow> 'a wr \<Rightarrow> bool" where
  "emits P m \<longleftrightarrow> (\<forall>s x t. m s = Inr (x, t) \<longrightarrow>
     (\<exists>bs. out t = out s @ bs \<and> P bs) \<and> reg_part (prog t) = reg_part (prog s))"

named_theorems emits \<open>what the writers append\<close>

definition aligned :: "u8 list \<Rightarrow> bool" where
  "aligned bs \<longleftrightarrow> length bs mod 4 = 0"

lemma aligned_append [simp]: "aligned bs \<Longrightarrow> aligned (bs @ cs) = aligned cs"
  unfolding aligned_def by (metis length_append mod_add_left_eq add_0)

lemma aligned_Nil [simp]: "aligned []"
  by (simp add: aligned_def)

lemma emitsI:
  "(\<And>s x t. m s = Inr (x, t) \<Longrightarrow> (\<exists>bs. out t = out s @ bs \<and> P bs) \<and> reg_part (prog t) = reg_part (prog s)) \<Longrightarrow>
     emits P m"
  by (simp add: emits_def)

lemma emitsE:
  assumes "emits P m" and "m s = Inr (x, t)"
  obtains bs where "out t = out s @ bs" and "P bs" and "reg_part (prog t) = reg_part (prog s)"
  using assms unfolding emits_def by blast

lemma emits_bind:
  assumes "emits P m" and "\<And>x. emits Q (f x)" and "\<And>bs cs. P bs \<Longrightarrow> Q cs \<Longrightarrow> R (bs @ cs)"
  shows "emits R (bind m f)"
proof (rule emitsI)
  fix s x t assume "bind m f s = Inr (x, t)"
  then obtain y u where u: "m s = Inr (y, u)" "f y u = Inr (x, t)" by auto
  from emitsE[OF assms(1) u(1)] obtain bs where b: "out u = out s @ bs" "P bs"
    "reg_part (prog u) = reg_part (prog s)" by blast
  from emitsE[OF assms(2) u(2)] obtain cs where c: "out t = out u @ cs" "Q cs"
    "reg_part (prog t) = reg_part (prog u)" by blast
  from b c assms(3) show "(\<exists>bs. out t = out s @ bs \<and> R bs) \<and> reg_part (prog t) = reg_part (prog s)" by auto
qed

lemma emits_mono: "emits P m \<Longrightarrow> (\<And>bs. P bs \<Longrightarrow> Q bs) \<Longrightarrow> emits Q m"
  unfolding emits_def by meson

lemma emits_ret: "P [] \<Longrightarrow> emits P (ret x)"
  by (auto simp: emits_def)

lemma emits_aligned [emits]:
  "emits aligned (ret x)" "emits aligned (raise e)" "emits aligned (gets f)" "emits aligned (check b)"
  by (auto simp: emits_def split: if_splits)

lemma emits_aligned_bind [emits]: "emits aligned m \<Longrightarrow> (\<And>x. emits aligned (f x)) \<Longrightarrow> emits aligned (bind m f)"
  by (rule emits_bind[where P = aligned and Q = aligned]) auto

lemma emits_if [emits]: "(b \<Longrightarrow> emits P m) \<Longrightarrow> (\<not> b \<Longrightarrow> emits P n) \<Longrightarrow> emits P (if b then m else n)"
  by simp

lemma emits_Let [emits]: "(\<And>x. emits P (f x)) \<Longrightarrow> emits P (let x = e in f x)"
  by simp

text \<open>Computations on the program state that change nothing the registry speaks of.\<close>

definition quiet :: "'a tl \<Rightarrow> bool" where
  "quiet m \<longleftrightarrow> (\<forall>s x t. m s = Inr (x, t) \<longrightarrow> reg_part t = reg_part s)"

lemma emits_in_prog: "quiet m \<Longrightarrow> emits aligned (in_prog m)"
  unfolding emits_def quiet_def in_prog_def by (auto split: sum.splits)

lemma keeps_quiet: "(\<And>k. keeps (\<lambda>s. reg_part s = k) m) \<Longrightarrow> quiet m"
  unfolding keeps_def quiet_def by blast

lemma quiet_small [keeps]:
  "keeps (\<lambda>s. reg_part s = k) lrand48" "keeps (\<lambda>s. reg_part s = k) (tl_error e)"
  by (auto simp: keeps_def lrand48_def tl_error_def reg_part_def)

lemma quiet_values [keeps]: "keeps (\<lambda>s. reg_part s = k) (tl_set_var_value_num V var v n)"
  unfolding tl_set_var_value_num_def by (intro keeps)

lemma quiet_count [keeps]: "keeps I (count_list_size n T)"
  by (induction n arbitrary: T) (simp_all add: keeps)

lemma quiet_fields [keeps]: "keeps I (is_var_field l)" "keeps I (field_name d)"
  unfolding is_var_field_def field_name_def by (intro keeps)+

lemma emits_prog [emits]:
  "emits aligned (in_prog (deref h p))" "emits aligned (in_prog (tl_error e))"
  "emits aligned (in_prog (data_ptr d))" "emits aligned (in_prog (data_type d))"
  "emits aligned (in_prog (tl_set_var_value_num V var v n))" "emits aligned (in_prog (field_name d))"
  "emits aligned (in_prog (is_var_field l))" "emits aligned (in_prog (with_fuel (\<lambda>n. count_list_size n T)))"
  by (intro emits_in_prog keeps_quiet keeps)+

subsection \<open>Primitive values\<close>

lemma length_bytes [simp]: "length (bytes4 a) = 4" "length (bytes8 b) = 8"
  by (simp_all add: bytes4_def bytes8_def)

lemma emits_wint: "emits (\<lambda>bs. bs = bytes4 a) (wint a)"
  by (auto simp: emits_def wint_def wdata_def)

lemma emits_wll: "emits (\<lambda>bs. bs = bytes8 a) (wll a)"
  by (auto simp: emits_def wll_def wdata_def)

lemma emits_aligned_wint [emits]: "emits aligned (wint a)"
  using emits_wint by (rule emits_mono) (simp add: aligned_def)

lemma emits_aligned_wll [emits]: "emits aligned (wll a)"
  using emits_wll by (rule emits_mono) (simp add: aligned_def)

text \<open>The bytes of a string: length, characters, zeros up to a multiple of four.\<close>

definition string_bytes :: "string \<Rightarrow> u8 list" where
  "string_bytes w = of_nat (length w) # map of_char w @ replicate ((4 - (length w + 1) mod 4) mod 4) 0"

lemma wstr_bytes:
  "wstr (Some w) s = (if length w \<le> 254 then Inr ((), s\<lparr>out := out s @ string_bytes w\<rparr>) else Inl Assertion)"
proof -
  have "replicate ((4 - n mod 4) mod 4) (0::u8) = (if n mod 4 \<noteq> 0 then replicate (4 - n mod 4) 0 else [])" for n :: nat
  proof (cases "n mod 4 = 0")
    case False
    then have "(4 - n mod 4) mod 4 = 4 - n mod 4" by (intro mod_less) simp
    with False show ?thesis by simp
  qed simp
  then show ?thesis
    by (simp add: wstr_def wdata_def Let_def bind_apply string_bytes_def)
qed

lemma pad_mod: "(k + (4 - k mod 4) mod 4) mod 4 = (0 :: nat)"
proof -
  have "k mod 4 = 0 \<or> k mod 4 = 1 \<or> k mod 4 = 2 \<or> k mod 4 = 3" by linarith
  then show ?thesis by (auto simp: mod_add_left_eq[of k, symmetric])
qed

lemma aligned_string_bytes: "aligned (string_bytes w)"
  using pad_mod[of "Suc (length w)"] by (simp add: aligned_def string_bytes_def)

lemma emits_aligned_wstr [emits]: "emits aligned (wstr w)"
proof (cases w)
  case None
  then show ?thesis by (simp add: wstr_def emits)
next
  case (Some v)
  then show ?thesis using aligned_string_bytes by (auto simp: emits_def wstr_bytes split: if_splits)
qed

subsection \<open>Everything written is a sequence of 32-bit words\<close>

lemma emits_flags [emits]:
  "emits aligned (write_type_flags f)" "emits aligned (write_field_flags f)" "emits aligned (write_var_type_flags f)"
  unfolding write_type_flags_def write_field_flags_def write_var_type_flags_def by (intro emits)+

lemma emits_write_arg:
  "(\<And>T e v. emits aligned (wt T e v)) \<Longrightarrow> emits aligned (write_arg wt T N v)"
  unfolding write_arg_def Let_def by (intro emits)

lemma emits_write_args:
  "(\<And>T e v. emits aligned (wt T e v)) \<Longrightarrow> emits aligned (write_args n wt T v)"
  by (induction n arbitrary: T v) (simp_all add: emits emits_write_arg)

lemma emits_write_array:
  "(\<And>T e v. emits aligned (wt T e v)) \<Longrightarrow> emits aligned (write_array wt T v)"
  unfolding write_array_def by (intro emits)

lemma emits_write_type_rec:
  "(\<And>T e v. emits aligned (wt T e v)) \<Longrightarrow> emits aligned (write_type_rec n wt T cc v)"
  by (induction n arbitrary: T cc v) (simp_all add: emits write_type_leaf_def)

lemma emits_write_opt_type:
  "(\<And>T e v. emits aligned (wt T e v)) \<Longrightarrow> emits aligned (write_opt_type n wt T v)"
  unfolding write_opt_type_def by (intro emits emits_write_array emits_write_type_rec)

lemma emits_write_tree [emits]: "emits aligned (write_tree n T extra v)"
proof (induction n arbitrary: T extra v)
  case (Suc n)
  show ?case unfolding write_tree.simps
    by (intro emits emits_write_args emits_write_array emits_write_type_rec emits_write_opt_type Suc)
qed (simp add: emits)

lemma emits_with_write_fuel [emits]: "(\<And>n. emits aligned (f n)) \<Longrightarrow> emits aligned (with_write_fuel f)"
  unfolding with_write_fuel_def by (intro emits)

lemma emits_write_combinator [emits]: "emits aligned (write_combinator c)"
  unfolding write_combinator_def by (intro emits)

text \<open>Records: a tag and more words.\<close>

definition tagged :: "u32 \<Rightarrow> u8 list \<Rightarrow> bool" where
  "tagged tag bs \<longleftrightarrow> (\<exists>r. bs = bytes4 tag @ r \<and> aligned r)"

lemma emits_tagged: "emits aligned m \<Longrightarrow> emits (tagged tag) (bind (wint tag) (\<lambda>_. m))"
  by (rule emits_bind[OF emits_wint]) (auto simp: tagged_def)

lemma aligned_tagged: "tagged tag bs \<Longrightarrow> aligned bs"
  by (auto simp: tagged_def aligned_def)

lemma emits_constructor: "emits (tagged TLS_COMBINATOR) (write_constructor c)"
  unfolding write_constructor_def by (intro emits_tagged emits)

lemma emits_function: "emits (tagged TLS_COMBINATOR) (write_function c)"
  unfolding write_function_def by (intro emits_tagged emits)

text \<open>A sequence of records.\<close>

definition records :: "u32 \<Rightarrow> nat \<Rightarrow> u8 list \<Rightarrow> bool" where
  "records tag n bs \<longleftrightarrow> (\<exists>rs. length rs = n \<and> bs = concat rs \<and> (\<forall>r \<in> set rs. tagged tag r))"

lemma records_0 [simp]: "records tag 0 []"
  by (simp add: records_def)

lemma records_append: "records tag m bs \<Longrightarrow> records tag n cs \<Longrightarrow> records tag (m + n) (bs @ cs)"
proof -
  assume "records tag m bs" "records tag n cs"
  then obtain rs qs where "length rs = m" "bs = concat rs" "\<forall>r \<in> set rs. tagged tag r"
    "length qs = n" "cs = concat qs" "\<forall>r \<in> set qs. tagged tag r" by (auto simp: records_def)
  then show "records tag (m + n) (bs @ cs)"
    unfolding records_def by (intro exI[of _ "rs @ qs"]) auto
qed

lemma records_1: "tagged tag bs \<Longrightarrow> records tag 1 bs"
  unfolding records_def by (intro exI[of _ "[bs]"]) simp

text \<open>
  The number of constructors written for a type depends on the registry: \<open>emits_reg p P m\<close> is
  \<open>emits P m\<close> for the states whose registry is that of \<open>p\<close>.
\<close>

definition emits_reg :: "tlst \<Rightarrow> (u8 list \<Rightarrow> bool) \<Rightarrow> 'a wr \<Rightarrow> bool" where
  "emits_reg p P m \<longleftrightarrow> (\<forall>s x t. reg_part (prog s) = reg_part p \<longrightarrow> m s = Inr (x, t) \<longrightarrow>
     (\<exists>bs. out t = out s @ bs \<and> P bs) \<and> reg_part (prog t) = reg_part p)"

lemma emits_reg: "emits P m \<Longrightarrow> emits_reg p P m"
  unfolding emits_def emits_reg_def by force

lemma emits_reg_bind:
  assumes "emits_reg p P m" and "\<And>x. emits_reg p Q (f x)" and "\<And>bs cs. P bs \<Longrightarrow> Q cs \<Longrightarrow> R (bs @ cs)"
  shows "emits_reg p R (bind m f)"
  unfolding emits_reg_def
proof (intro allI impI)
  fix s x t assume s: "reg_part (prog s) = reg_part p" and b: "bind m f s = Inr (x, t)"
  from b obtain y u where u: "m s = Inr (y, u)" "f y u = Inr (x, t)" by auto
  obtain bs where 1: "out u = out s @ bs" "P bs" "reg_part (prog u) = reg_part p"
    using assms(1) s u(1) unfolding emits_reg_def by blast
  obtain cs where 2: "out t = out u @ cs" "Q cs" "reg_part (prog t) = reg_part p"
    using assms(2)[of y] 1(3) u(2) unfolding emits_reg_def by blast
  from 1 2 assms(3) show "(\<exists>bs. out t = out s @ bs \<and> R bs) \<and> reg_part (prog t) = reg_part p" by auto
qed

lemma emits_reg_iterate:
  "(\<And>x. x \<in> set xs \<Longrightarrow> emits_reg p (records tag (n x)) (f x)) \<Longrightarrow>
     emits_reg p (records tag (sum_list (map n xs))) (iterate f xs)"
proof (induction xs)
  case Nil
  show ?case unfolding iterate.simps by (rule emits_reg) (rule emits_ret, simp)
next
  case (Cons x xs)
  show ?case unfolding iterate.simps
    by (rule emits_reg_bind[where P = "records tag (n x)" and Q = "records tag (sum_list (map n xs))"])
      (use Cons records_append in auto)
qed

lemma emits_reg_each:
  assumes "\<And>x. emits (tagged tag) (f x)"
  shows "emits_reg p (records tag (length xs)) (iterate f xs)"
proof -
  have "emits_reg p (records tag (sum_list (map (\<lambda>_. 1) xs))) (iterate f xs)"
    by (rule emits_reg_iterate) (rule emits_reg, rule emits_mono[OF assms records_1])
  then show ?thesis by (simp add: sum_list_triv)
qed

lemma emits_type: "emits (tagged TLS_TYPE) (write_type t)"
proof -
  have "emits (tagged TLS_TYPE) (bind (in_prog (tyobj t)) (\<lambda>ty. bind (wint TLS_TYPE) (\<lambda>_. m ty)))"
    if "\<And>ty. emits aligned (m ty)" for m :: "tl_type \<Rightarrow> unit wr"
  proof (rule emits_bind[where P = "\<lambda>bs. bs = []"])
    show "emits (\<lambda>bs. bs = []) (in_prog (tyobj t))"
      by (auto simp: emits_def in_prog_def deref_def split: sum.splits option.splits)
    show "emits (tagged TLS_TYPE) (bind (wint TLS_TYPE) (\<lambda>_. m ty))" for ty
      by (rule emits_tagged) (rule that)
  qed simp
  note r = this
  show ?thesis unfolding write_type_def by (rule r) (intro emits)
qed

lemma emits_type_constructors:
  "emits_reg p (records TLS_COMBINATOR (length (constructors_of p t))) (write_type_constructors t)"
  unfolding emits_reg_def
proof (intro allI impI)
  fix s x u assume s: "reg_part (prog s) = reg_part p" and w: "write_type_constructors t s = Inr (x, u)"
  then obtain r where r: "types (prog s) t = Some r" "iterate write_constructor (constructors r) s = Inr (x, u)"
    by (auto simp: write_type_constructors_def in_prog_def deref_def split: sum.splits option.splits)
  have "types p t = Some r" using s r(1) by (simp add: reg_part_def)
  then have "emits_reg p (records TLS_COMBINATOR (length (constructors_of p t))) (iterate write_constructor (constructors r))"
    using emits_reg_each[OF emits_constructor, of p "constructors r"] by (simp add: constructors_of_def)
  then show "(\<exists>bs. out u = out s @ bs \<and> records TLS_COMBINATOR (length (constructors_of p t)) bs) \<and>
      reg_part (prog u) = reg_part p"
    using s r(2) unfolding emits_reg_def by metis
qed

text \<open>
  The shape of the file: the header, then each section with its number of records in front.
\<close>

definition tlo_shape :: "tlst \<Rightarrow> u8 list \<Rightarrow> bool" where
  "tlo_shape p bs \<longleftrightarrow>
     (\<exists>ts cs fs. bs = bytes4 TLS_SCHEMA_V2 @ bytes4 0 @ bytes4 0
        @ bytes4 (word_of_int (total_types_num p)) @ ts
        @ bytes4 (word_of_int (total_constructors_num p)) @ cs
        @ bytes4 (word_of_int (total_functions_num p)) @ fs \<and>
      records TLS_TYPE (nat (total_types_num p)) ts \<and>
      records TLS_COMBINATOR (nat (total_constructors_num p)) cs \<and>
      records TLS_COMBINATOR (nat (total_functions_num p)) fs)"

lemma emits_sections:
  assumes "reg_ok p"
  shows "emits_reg p (records TLS_TYPE (nat (total_types_num p))) (tree_act (tl_type_tree p) write_type)"
    and "emits_reg p (records TLS_COMBINATOR (nat (total_constructors_num p)))
      (tree_act (tl_type_tree p) write_type_constructors)"
    and "emits_reg p (records TLS_COMBINATOR (nat (total_functions_num p)))
      (tree_act (tl_function_tree p) write_function)"
proof -
  have n: "nat (total_types_num p) = length (inorder (tl_type_tree p))"
    "nat (total_functions_num p) = length (inorder (tl_function_tree p))"
    using assms by (simp_all add: reg_ok_def tree_count_inorder)
  show "emits_reg p (records TLS_TYPE (nat (total_types_num p))) (tree_act (tl_type_tree p) write_type)"
    unfolding n(1) tree_act_inorder by (rule emits_reg_each[OF emits_type])
  show "emits_reg p (records TLS_COMBINATOR (nat (total_functions_num p))) (tree_act (tl_function_tree p) write_function)"
    unfolding n(2) tree_act_inorder by (rule emits_reg_each[OF emits_function])
  have "sum_list (map (int \<circ> length \<circ> constructors_of p) xs) = int (sum_list (map (\<lambda>t. length (constructors_of p t)) xs))" for xs
    by (induction xs) auto
  then have c: "nat (total_constructors_num p) = sum_list (map (\<lambda>t. length (constructors_of p t)) (inorder (tl_type_tree p)))"
    using assms by (simp add: reg_ok_def)
  show "emits_reg p (records TLS_COMBINATOR (nat (total_constructors_num p)))
      (tree_act (tl_type_tree p) write_type_constructors)"
    unfolding c tree_act_inorder by (rule emits_reg_iterate) (rule emits_type_constructors)
qed

lemma emits_regE:
  assumes "emits_reg p P m" and "m s = Inr (x, t)" and "reg_part (prog s) = reg_part p"
  obtains bs where "out t = out s @ bs" and "P bs" and "reg_part (prog t) = reg_part p"
  using assms unfolding emits_reg_def by blast

lemma write_types_shape:
  assumes "reg_ok (prog s)" and "write_types s = Inr (x, t)"
  shows "\<exists>bs. out t = out s @ bs \<and> tlo_shape (prog s) bs"
proof -
  let ?p = "prog s"
  note S = emits_sections[OF assms(1)]
  from assms(2) obtain s1 s2 s3 s4 s5 s6 s7 s8 where w:
    "wint TLS_SCHEMA_V2 s = Inr ((), s1)" "wint 0 s1 = Inr ((), s2)" "wint 0 s2 = Inr ((), s3)"
    "wint (word_of_int (total_types_num (prog s3))) s3 = Inr ((), s4)"
    "tree_act (tl_type_tree (prog s3)) write_type s4 = Inr ((), s5)"
    "wint (word_of_int (total_constructors_num (prog s3))) s5 = Inr ((), s6)"
    "tree_act (tl_type_tree (prog s3)) write_type_constructors s6 = Inr ((), s7)"
    "wint (word_of_int (total_functions_num (prog s3))) s7 = Inr ((), s8)"
    "tree_act (tl_function_tree (prog s3)) write_function s8 = Inr (x, t)"
    by (auto simp: write_types_def)
  have i: "wint a u = Inr ((), v) \<longleftrightarrow> v = u\<lparr>out := out u @ bytes4 a\<rparr>" for a u v
    by (auto simp: wint_def wdata_def)
  have s4: "prog s4 = ?p" "prog s3 = ?p" using w(1-4) by (auto simp: i)
  from emits_regE[OF S(1) w(5)[unfolded s4(2)]] s4(1) obtain ts where
    ts: "out s5 = out s4 @ ts" "records TLS_TYPE (nat (total_types_num ?p)) ts" "reg_part (prog s5) = reg_part ?p"
    by metis
  have p6: "reg_part (prog s6) = reg_part ?p" using ts(3) w(6) by (auto simp: i)
  from emits_regE[OF S(2) w(7)[unfolded s4(2)] p6] obtain cs where
    cs: "out s7 = out s6 @ cs" "records TLS_COMBINATOR (nat (total_constructors_num ?p)) cs"
      "reg_part (prog s7) = reg_part ?p" by blast
  have p8: "reg_part (prog s8) = reg_part ?p" using cs(3) w(8) by (auto simp: i)
  from emits_regE[OF S(3) w(9)[unfolded s4(2)] p8] obtain fs where
    fs: "out t = out s8 @ fs" "records TLS_COMBINATOR (nat (total_functions_num ?p)) fs" by blast
  have "out t = out s @ bytes4 TLS_SCHEMA_V2 @ bytes4 0 @ bytes4 0
        @ bytes4 (word_of_int (total_types_num ?p)) @ ts
        @ bytes4 (word_of_int (total_constructors_num ?p)) @ cs
        @ bytes4 (word_of_int (total_functions_num ?p)) @ fs"
    using w(1-4,6,8) ts(1) cs(1) fs(1) s4 by (simp add: i)
  then show ?thesis using ts(2) cs(2) fs(2) unfolding tlo_shape_def by blast
qed

lemma unat_of_char: "unat (of_char c :: u8) = of_char c"
proof -
  have "unat (of_nat (of_char c) :: u8) = of_char c"
    using nat_of_char_less_256[of c] by (simp only: unat_of_nat) simp
  moreover have "of_nat (of_char c) = (of_char c :: u8)" by (rule of_nat_of_char)
  ultimately show ?thesis by simp
qed

end
