(* ===== verification/TL_Getopt.thy ===== *)
theory TL_Getopt
  imports TL_Prelude "HOL-Library.Multiset"
begin

section \<open>Command line options (wgetopt.c)\<close>

text \<open>
  The static and global variables of wgetopt.c are the fields of \<open>gost\<close>, with the argument
  vector that \<open>exchange\<close> permutes. Strings hold no NUL; \<open>nextchar\<close> is the rest of the element
  it points into, \<open>None\<close> when null. Diagnostics are values of \<open>diag\<close>, appended to
  \<open>gerr\<close>, without their wording. The conditional parts for building inside glibc
  (\<open>_LIBC\<close>, \<open>USE_NONOPTION_FLAGS\<close>) are not compiled here and not modelled.

  The lemmas show that \<open>exchange\<close> swaps the two adjacent blocks, that a call of \<open>getopt\<close> only
  permutes the argument vector, and that every call but the last makes progress, so that a
  caller's loop ends.
\<close>

datatype ordering = REQUIRE_ORDER | PERMUTE | RETURN_IN_ORDER

record long_option =
  o_name :: string
  has_arg :: int
  flag :: "nat option"
  val :: int

datatype diag =
    Ambiguous "string option"       \<comment> \<open>the element printed, \<open>None\<close> for a null pointer\<close>
  | NoArgumentAllowed string
  | RequiresArgument string
  | Unrecognized string
  | InvalidOption char
  | OptionRequiresArgument char

record gost =
  argv :: "string list"
  optarg :: "string option"
  optind :: nat
  getopt_initialized :: bool
  nextchar :: "string option"
  opterr :: bool
  optopt :: int
  order :: ordering
  posixly_correct :: bool
  first_nonopt :: nat
  last_nonopt :: nat
  flag_store :: "nat \<Rightarrow> int"
  gerr :: "diag list"

type_synonym 'a go = "(gost, 'a) comp"

definition initial_gost :: "string list \<Rightarrow> gost" where
  "initial_gost av =
     \<lparr>argv = av, optarg = None, optind = 1, getopt_initialized = False, nextchar = None,
      opterr = True, optopt = schar (CHR ''?''), order = REQUIRE_ORDER, posixly_correct = False,
      first_nonopt = 0, last_nonopt = 0, flag_store = (\<lambda>_. 0), gerr = []\<rparr>"

abbreviation argc :: "gost \<Rightarrow> nat" where "argc s \<equiv> length (argv s)"

subsection \<open>Strings and the argument vector\<close>

fun my_index :: "string \<Rightarrow> char \<Rightarrow> string option" where
  "my_index [] chr = None"
| "my_index (a # str) chr = (if a = chr then Some (a # str) else my_index str chr)"

text \<open>The character at an index of a C string; the terminator is the last readable one.\<close>

definition char_at :: "string \<Rightarrow> nat \<Rightarrow> char go" where
  "char_at w k =
     (if k < length w then ret (w ! k) else if k = length w then ret (CHR 0x00) else raise OutOfBounds)"

text \<open>\<open>argv[i]\<close> as a string to be read: the entry after the last is the null pointer.\<close>

definition arg :: "nat \<Rightarrow> string go" where
  "arg i = (\<lambda>s. if i < argc s then Inr (argv s ! i, s)
                else if i = argc s then Inl NullDeref else Inl OutOfBounds)"

text \<open>\<open>NONOPTION_P\<close> on one element.\<close>

definition nonoption :: "string \<Rightarrow> bool" where
  "nonoption w \<longleftrightarrow> (case w of [] \<Rightarrow> True | a # r \<Rightarrow> a \<noteq> CHR ''-'' \<or> r = [])"

subsection \<open>Exchanging two adjacent blocks\<close>

primrec swap_range :: "nat \<Rightarrow> nat \<Rightarrow> nat \<Rightarrow> 'a list \<Rightarrow> 'a list" where
  "swap_range i j 0 xs = xs"
| "swap_range i j (Suc len) xs = swap_range (Suc i) (Suc j) len (xs[i := xs ! j, j := xs ! i])"

function exchange_loop :: "nat \<Rightarrow> nat \<Rightarrow> nat \<Rightarrow> 'a list \<Rightarrow> 'a list" where
  "exchange_loop bottom middle top1 xs =
     (if top1 > middle \<and> middle > bottom then
        if top1 - middle > middle - bottom then
          let len = middle - bottom in
          exchange_loop bottom middle (top1 - len) (swap_range bottom (top1 - (middle - bottom)) len xs)
        else
          let len = top1 - middle in
          exchange_loop (bottom + len) middle top1 (swap_range bottom middle len xs)
      else xs)"
  by pat_completeness auto
termination by (relation "measure (\<lambda>(b, m, t, xs). t - b)") auto

declare exchange_loop.simps [simp del]

definition exchange :: "gost \<Rightarrow> gost" where
  "exchange s =
     s\<lparr>argv := exchange_loop (first_nonopt s) (last_nonopt s) (optind s) (argv s),
       first_nonopt := first_nonopt s + (optind s - last_nonopt s),
       last_nonopt := optind s\<rparr>"

subsection \<open>Initialisation\<close>

definition getopt_initialize :: "bool \<Rightarrow> string \<Rightarrow> string go" where
  "getopt_initialize posix optstring =
     bind (modify (\<lambda>s. s\<lparr>first_nonopt := optind s, last_nonopt := optind s, nextchar := None,
                         posixly_correct := posix\<rparr>)) (\<lambda>_.
     if take 1 optstring = ''-'' then
       bind (modify (\<lambda>s. s\<lparr>order := RETURN_IN_ORDER\<rparr>)) (\<lambda>_. ret (drop 1 optstring))
     else if take 1 optstring = ''+'' then
       bind (modify (\<lambda>s. s\<lparr>order := REQUIRE_ORDER\<rparr>)) (\<lambda>_. ret (drop 1 optstring))
     else
       bind (modify (\<lambda>s. s\<lparr>order := (if posix then REQUIRE_ORDER else PERMUTE)\<rparr>)) (\<lambda>_. ret optstring))"

subsection \<open>Advancing to the next element (lines 547-622)\<close>

text \<open>Skipping non-options: the index of the first option element at or after \<open>i\<close>.\<close>

primrec skip_nonopts :: "string list \<Rightarrow> nat \<Rightarrow> nat" where
  "skip_nonopts [] i = i"
| "skip_nonopts (w # ws) i = (if nonoption w then skip_nonopts ws (Suc i) else i)"

definition clip_nonopts :: "gost \<Rightarrow> gost" where
  "clip_nonopts s =
     s\<lparr>last_nonopt := min (last_nonopt s) (optind s), first_nonopt := min (first_nonopt s) (optind s)\<rparr>"

definition permute_nonopts :: "gost \<Rightarrow> gost" where
  "permute_nonopts s =
     (let s = (if first_nonopt s \<noteq> last_nonopt s \<and> last_nonopt s \<noteq> optind s then exchange s
               else if last_nonopt s \<noteq> optind s then s\<lparr>first_nonopt := optind s\<rparr> else s);
          i = skip_nonopts (drop (optind s) (argv s)) (optind s)
      in s\<lparr>optind := i, last_nonopt := i\<rparr>)"

definition end_of_options :: "gost \<Rightarrow> gost" where
  "end_of_options s =
     (let s = s\<lparr>optind := optind s + 1\<rparr>;
          s = (if first_nonopt s \<noteq> last_nonopt s \<and> last_nonopt s \<noteq> optind s then exchange s
               else if first_nonopt s = last_nonopt s then s\<lparr>first_nonopt := optind s\<rparr> else s)
      in s\<lparr>last_nonopt := argc s, optind := argc s\<rparr>)"

text \<open>
  \<open>Some r\<close>: the call returns \<open>r\<close> without looking at an option; \<open>None\<close>: \<open>nextchar\<close> points into
  an option element.
\<close>

definition next_element :: "bool \<Rightarrow> int option go" where
  "next_element have_long =
     bind (modify clip_nonopts) (\<lambda>_.
     bind (modify (\<lambda>s. if order s = PERMUTE then permute_nonopts s else s)) (\<lambda>_.
     bind (gets (\<lambda>s. optind s \<noteq> argc s)) (\<lambda>more.
     bind (if more then
             bind (gets optind) (\<lambda>i. bind (arg i) (\<lambda>w.
             modify (\<lambda>s. if w = ''--'' then end_of_options s else s)))
           else ret ()) (\<lambda>_.
     bind (gets (\<lambda>s. optind s = argc s)) (\<lambda>done.
     if done then
       bind (modify (\<lambda>s. if first_nonopt s \<noteq> last_nonopt s then s\<lparr>optind := first_nonopt s\<rparr> else s)) (\<lambda>_.
       ret (Some (-1)))
     else
       bind (gets optind) (\<lambda>i.
       bind (arg i) (\<lambda>w.
       if nonoption w then
         bind (gets order) (\<lambda>ord.
         if ord = REQUIRE_ORDER then ret (Some (-1))
         else bind (modify (\<lambda>s. s\<lparr>optarg := Some w, optind := i + 1\<rparr>)) (\<lambda>_. ret (Some 1)))
       else
         bind (modify (\<lambda>s. s\<lparr>nextchar :=
            Some (drop (1 + (if have_long \<and> w ! 1 = CHR ''-'' then 1 else 0)) w)\<rparr>)) (\<lambda>_.
         ret None))))))))"

subsection \<open>Long options\<close>

definition name_len :: "string \<Rightarrow> nat" where
  "name_len w = length (takeWhile (\<lambda>c. c \<noteq> CHR ''='') w)"

text \<open>
  The loop over the table: \<open>differ\<close> decides whether a second inexact match is ambiguous.
  The result is the entry found with its index, whether it is exact, and the ambiguity.
\<close>

primrec match_long ::
  "(long_option \<Rightarrow> long_option \<Rightarrow> bool) \<Rightarrow> string \<Rightarrow> long_option list \<Rightarrow> nat \<Rightarrow>
   (long_option \<times> nat) option \<Rightarrow> bool \<Rightarrow> (long_option \<times> nat) option \<times> bool \<times> bool" where
  "match_long differ w [] i pfound ambig = (pfound, False, ambig)"
| "match_long differ w (p # ps) i pfound ambig =
     (let n = name_len w in
      if take n (o_name p) = take n w then
        if n = length (o_name p) then (Some (p, i), True, ambig)
        else (case pfound of
                None \<Rightarrow> match_long differ w ps (Suc i) (Some (p, i)) ambig
              | Some (q, _) \<Rightarrow> match_long differ w ps (Suc i) pfound (ambig \<or> differ q p))
      else match_long differ w ps (Suc i) pfound ambig)"

definition complain :: "bool \<Rightarrow> diag \<Rightarrow> unit go" where
  "complain print_errors d = modify (\<lambda>s. if print_errors then s\<lparr>gerr := gerr s @ [d]\<rparr> else s)"

definition missing_arg :: "string \<Rightarrow> int" where
  "missing_arg optstring =
     (if take 1 optstring = '':'' then schar (CHR '':'') else schar (CHR ''?''))"

text \<open>Storing the result of a recognised long option: the index, and the flag or the value.\<close>

definition deliver_long :: "(int \<Rightarrow> gost \<Rightarrow> gost) \<Rightarrow> long_option \<Rightarrow> nat \<Rightarrow> int go" where
  "deliver_long set_ind p i =
     bind (modify (\<lambda>s. set_ind (int i) (s\<lparr>nextchar := Some []\<rparr>))) (\<lambda>_.
     case flag p of
       Some f \<Rightarrow> bind (modify (\<lambda>s. s\<lparr>flag_store := (flag_store s)(f := val p)\<rparr>)) (\<lambda>_. ret 0)
     | None \<Rightarrow> ret (val p))"

text \<open>
  The treatment of a found entry (lines 709-812 and 1023-1100): \<open>w\<close> is the element text, and
  \<open>fail\<close> is what the code does to \<open>optopt\<close> before it reports an error.
\<close>

definition found_long ::
  "bool \<Rightarrow> string \<Rightarrow> (int \<Rightarrow> gost \<Rightarrow> gost) \<Rightarrow> (gost \<Rightarrow> gost) \<Rightarrow> string \<Rightarrow> long_option \<Rightarrow> nat \<Rightarrow> int go" where
  "found_long print_errors optstring set_ind fail w p i =
     (if name_len w < length w then
        if has_arg p \<noteq> 0 then
          bind (modify (\<lambda>s. s\<lparr>optarg := Some (drop (name_len w + 1) w)\<rparr>)) (\<lambda>_. deliver_long set_ind p i)
        else
          bind (complain print_errors (NoArgumentAllowed (o_name p))) (\<lambda>_.
          bind (modify (\<lambda>s. fail (s\<lparr>nextchar := Some []\<rparr>))) (\<lambda>_. ret (schar (CHR ''?''))))
      else if has_arg p = 1 then
        bind (gets optind) (\<lambda>k.
        bind (gets (\<lambda>s. k < argc s)) (\<lambda>more.
        if more then
          bind (arg k) (\<lambda>a.
          bind (modify (\<lambda>s. s\<lparr>optarg := Some a, optind := k + 1\<rparr>)) (\<lambda>_. deliver_long set_ind p i))
        else
          bind (arg (k - 1)) (\<lambda>a.
          bind (complain print_errors (RequiresArgument a)) (\<lambda>_.
          bind (modify (\<lambda>s. fail (s\<lparr>nextchar := Some []\<rparr>))) (\<lambda>_. ret (missing_arg optstring))))))
      else deliver_long set_ind p i)"

definition long_differ :: "bool \<Rightarrow> long_option \<Rightarrow> long_option \<Rightarrow> bool" where
  "long_differ long_only q p \<longleftrightarrow> long_only \<or> has_arg q \<noteq> has_arg p \<or> flag q \<noteq> flag p \<or> val q \<noteq> val p"

text \<open>
  No entry matches (lines 814-863): an error, or \<open>None\<close> when the element is to be read as a
  short option.
\<close>

definition unknown_long ::
  "bool \<Rightarrow> string \<Rightarrow> bool \<Rightarrow> string \<Rightarrow> string \<Rightarrow> int option go" where
  "unknown_long print_errors optstring long_only a w =
     bind (char_at a 1) (\<lambda>c1.
     bind (char_at w 0) (\<lambda>c.
     if \<not> long_only \<or> c1 = CHR ''-'' \<or> my_index optstring c = None then
       bind (complain print_errors (Unrecognized w)) (\<lambda>_.
       bind (modify (\<lambda>s. s\<lparr>nextchar := Some [], optind := optind s + 1, optopt := 0\<rparr>)) (\<lambda>_.
       ret (Some (schar (CHR ''?'')))))
     else ret None))"

text \<open>Lines 643-863, once the element is known to be tried as a long option.\<close>

definition try_long ::
  "bool \<Rightarrow> string \<Rightarrow> long_option list \<Rightarrow> (int \<Rightarrow> gost \<Rightarrow> gost) \<Rightarrow> bool \<Rightarrow> int option go" where
  "try_long print_errors optstring longopts set_ind long_only =
     bind (gets nextchar) (\<lambda>nc.
     case nc of
       None \<Rightarrow> raise NullDeref
     | Some w \<Rightarrow>
         bind (gets optind) (\<lambda>k.
         bind (arg k) (\<lambda>a.
         case match_long (long_differ long_only) w longopts 0 None False of
           (found, exact, ambig) \<Rightarrow>
             if ambig \<and> \<not> exact then
               bind (complain print_errors (Ambiguous (Some a))) (\<lambda>_.
               bind (modify (\<lambda>s. s\<lparr>nextchar := Some [], optind := k + 1, optopt := 0\<rparr>)) (\<lambda>_.
               ret (Some (schar (CHR ''?'')))))
             else (case found of
               Some (p, i) \<Rightarrow>
                 bind (modify (\<lambda>s. s\<lparr>optind := k + 1\<rparr>)) (\<lambda>_.
                 bind (found_long print_errors optstring set_ind (\<lambda>s. s\<lparr>optopt := val p\<rparr>) w p i) (\<lambda>r.
                 ret (Some r)))
             | None \<Rightarrow> unknown_long print_errors optstring long_only a w))))"

subsection \<open>Short options\<close>

text \<open>
  The argument of a short option that requires one (lines 927-967 and 1120-1161): \<open>rest\<close> is
  what follows the option letter in its element. The result is \<open>None\<close> when it is missing.
\<close>

definition required_arg :: "bool \<Rightarrow> char \<Rightarrow> string \<Rightarrow> string option go" where
  "required_arg print_errors c rest =
     (if rest \<noteq> [] then
        bind (modify (\<lambda>s. s\<lparr>optarg := Some rest, optind := optind s + 1\<rparr>)) (\<lambda>_. ret (Some rest))
      else
        bind (gets optind) (\<lambda>k.
        bind (gets (\<lambda>s. k = argc s)) (\<lambda>none.
        if none then
          bind (complain print_errors (OptionRequiresArgument c)) (\<lambda>_.
          bind (modify (\<lambda>s. s\<lparr>optopt := schar c\<rparr>)) (\<lambda>_. ret None))
        else
          bind (arg k) (\<lambda>a.
          bind (modify (\<lambda>s. s\<lparr>optarg := Some a, optind := k + 1\<rparr>)) (\<lambda>_. ret (Some a))))))"

definition found_W ::
  "bool \<Rightarrow> string \<Rightarrow> (int \<Rightarrow> gost \<Rightarrow> gost) \<Rightarrow> string \<Rightarrow> long_option \<Rightarrow> nat \<Rightarrow> int go" where
  "found_W print_errors optstring set_ind w p i =
     found_long print_errors optstring set_ind (\<lambda>s. s) w p i"

text \<open>\<open>-W name\<close> read as \<open>--name\<close> (lines 918-1103).\<close>

definition option_W ::
  "bool \<Rightarrow> string \<Rightarrow> long_option list option \<Rightarrow> (int \<Rightarrow> gost \<Rightarrow> gost) \<Rightarrow> char \<Rightarrow> string \<Rightarrow> int go" where
  "option_W print_errors optstring longopts set_ind c rest =
     bind (required_arg print_errors c rest) (\<lambda>r.
     case r of
       None \<Rightarrow> ret (missing_arg optstring)
     | Some w \<Rightarrow>
         bind (modify (\<lambda>s. s\<lparr>nextchar := Some w\<rparr>)) (\<lambda>_.
         case longopts of
           None \<Rightarrow> raise NullDeref
         | Some los \<Rightarrow>
             (case match_long (\<lambda>_ _. True) w los 0 None False of
                (found, exact, ambig) \<Rightarrow>
                  if ambig \<and> \<not> exact then
                    bind (gets (\<lambda>s. if optind s < argc s then Some (argv s ! optind s) else None)) (\<lambda>a.
                    bind (complain print_errors (Ambiguous a)) (\<lambda>_.
                    bind (modify (\<lambda>s. s\<lparr>nextchar := Some [], optind := optind s + 1\<rparr>)) (\<lambda>_.
                    ret (schar (CHR ''?'')))))
                  else (case found of
                    Some (p, i) \<Rightarrow> found_W print_errors optstring set_ind w p i
                  | None \<Rightarrow>
                      bind (modify (\<lambda>s. s\<lparr>nextchar := None\<rparr>)) (\<lambda>_. ret (schar (CHR ''W'')))))))"

text \<open>The end of the call (lines 1104-1165): \<open>spec\<close> is what follows the letter in \<open>optstring\<close>.\<close>

definition option_arg :: "bool \<Rightarrow> string \<Rightarrow> char \<Rightarrow> string \<Rightarrow> string \<Rightarrow> int go" where
  "option_arg print_errors optstring c rest spec =
     (if take 2 spec = ''::'' then
          bind (modify (\<lambda>s. if rest \<noteq> [] then s\<lparr>optarg := Some rest, optind := optind s + 1\<rparr>
                            else s\<lparr>optarg := None\<rparr>)) (\<lambda>_.
          bind (modify (\<lambda>s. s\<lparr>nextchar := None\<rparr>)) (\<lambda>_. ret (schar c)))
      else if take 1 spec = '':'' then
          bind (required_arg print_errors c rest) (\<lambda>r.
          bind (modify (\<lambda>s. s\<lparr>nextchar := None\<rparr>)) (\<lambda>_.
          ret (if r = None then missing_arg optstring else schar c)))
      else ret (schar c))"

definition short_option ::
  "bool \<Rightarrow> string \<Rightarrow> long_option list option \<Rightarrow> (int \<Rightarrow> gost \<Rightarrow> gost) \<Rightarrow> int go" where
  "short_option print_errors optstring longopts set_ind =
     bind (gets nextchar) (\<lambda>nc.
     case nc of
       None \<Rightarrow> raise NullDeref
     | Some [] \<Rightarrow> raise OutOfBounds
     | Some (c # rest) \<Rightarrow>
         bind (modify (\<lambda>s. s\<lparr>nextchar := Some rest, optind := optind s + (if rest = [] then 1 else 0)\<rparr>)) (\<lambda>_.
         if my_index optstring c = None \<or> c = CHR '':'' then
           bind (complain print_errors (InvalidOption c)) (\<lambda>_.
           bind (modify (\<lambda>s. s\<lparr>optopt := schar c\<rparr>)) (\<lambda>_. ret (schar (CHR ''?''))))
         else
           let spec = tl (the (my_index optstring c)) in
           if c = CHR ''W'' \<and> take 1 spec = '';'' then
             option_W print_errors optstring longopts set_ind c rest
           else option_arg print_errors optstring c rest spec))"

subsection \<open>The entry points\<close>

text \<open>
  \<open>set_ind\<close> is the store through \<open>longind\<close> (the identity when it is null), \<open>posix\<close> whether
  \<open>POSIXLY_CORRECT\<close> is set.
\<close>

definition wants_long :: "string \<Rightarrow> bool \<Rightarrow> bool go" where
  "wants_long optstring long_only =
     bind (gets optind) (\<lambda>k.
     bind (arg k) (\<lambda>a.
     bind (char_at a 1) (\<lambda>c1.
     if c1 = CHR ''-'' then ret True
     else if long_only then
       bind (char_at a 2) (\<lambda>c2. ret (c2 \<noteq> CHR 0x00 \<or> my_index optstring c1 = None))
     else ret False)))"

definition getopt_internal ::
  "bool \<Rightarrow> string \<Rightarrow> long_option list option \<Rightarrow> (int \<Rightarrow> gost \<Rightarrow> gost) \<Rightarrow> bool \<Rightarrow> int go" where
  "getopt_internal posix optstring longopts set_ind long_only =
     bind (gets (\<lambda>s. opterr s \<and> take 1 optstring \<noteq> '':''  )) (\<lambda>print_errors.
     bind (gets (\<lambda>s. argc s < 1)) (\<lambda>empty.
     if empty then ret (-1)
     else
       bind (modify (\<lambda>s. s\<lparr>optarg := None\<rparr>)) (\<lambda>_.
       bind (gets (\<lambda>s. optind s = 0 \<or> \<not> getopt_initialized s)) (\<lambda>first.
       bind (if first then
               bind (modify (\<lambda>s. if optind s = 0 then s\<lparr>optind := 1\<rparr> else s)) (\<lambda>_.
               bind (getopt_initialize posix optstring) (\<lambda>o'.
               bind (modify (\<lambda>s. s\<lparr>getopt_initialized := True\<rparr>)) (\<lambda>_. ret o')))
             else ret optstring) (\<lambda>optstring.
       bind (gets nextchar) (\<lambda>nc.
       bind (if nc = None \<or> nc = Some [] then next_element (longopts \<noteq> None) else ret None) (\<lambda>r.
       case r of
         Some x \<Rightarrow> ret x
       | None \<Rightarrow>
           bind (case longopts of
                   None \<Rightarrow> ret None
                 | Some los \<Rightarrow>
                     bind (wants_long optstring long_only) (\<lambda>want.
                     if want then try_long print_errors optstring los set_ind long_only else ret None)) (\<lambda>r.
           case r of
             Some x \<Rightarrow> ret x
           | None \<Rightarrow> short_option print_errors optstring longopts set_ind))))))))"

definition getopt :: "bool \<Rightarrow> string \<Rightarrow> int go" where
  "getopt posix optstring = getopt_internal posix optstring None (\<lambda>_ s. s) False"

definition getopt_long :: "bool \<Rightarrow> string \<Rightarrow> long_option list \<Rightarrow> (int \<Rightarrow> gost \<Rightarrow> gost) \<Rightarrow> int go" where
  "getopt_long posix options los opt_index = getopt_internal posix options (Some los) opt_index False"

definition getopt_long_only :: "bool \<Rightarrow> string \<Rightarrow> long_option list \<Rightarrow> (int \<Rightarrow> gost \<Rightarrow> gost) \<Rightarrow> int go" where
  "getopt_long_only posix options los opt_index = getopt_internal posix options (Some los) opt_index True"

subsection \<open>Exchange\<close>

lemma swap_range_blocks:
  "length A = len \<Longrightarrow> length B = len \<Longrightarrow>
     swap_range (length P) (length P + length A + length M) len (P @ A @ M @ B @ S) = P @ B @ M @ A @ S"
proof (induction len arbitrary: P A M B)
  case 0
  then show ?case by simp
next
  case (Suc len)
  then obtain a A' b B' where A: "A = a # A'" "B = b # B'" by (auto simp: length_Suc_conv)
  have j: "length P + length A + length M = length (P @ A @ M)" by simp
  have "(P @ A @ M @ B @ S)[length P := (P @ A @ M @ B @ S) ! length (P @ A @ M),
          length (P @ A @ M) := (P @ A @ M @ B @ S) ! length P] = (P @ [b]) @ A' @ (M @ [a]) @ B' @ S"
    using A by (simp add: list_update_append nth_append)
  then show ?case
    using Suc.IH[of A' B' "P @ [b]" "M @ [a]"] Suc.prems A by (simp add: j add.assoc)
qed

lemma exchange_loop_unfold:
  "middle < top1 \<Longrightarrow> bottom < middle \<Longrightarrow> middle - bottom < top1 - middle \<Longrightarrow>
     exchange_loop bottom middle top1 xs =
     exchange_loop bottom middle (top1 - (middle - bottom))
       (swap_range bottom (top1 - (middle - bottom)) (middle - bottom) xs)"
  "middle < top1 \<Longrightarrow> bottom < middle \<Longrightarrow> \<not> middle - bottom < top1 - middle \<Longrightarrow>
     exchange_loop bottom middle top1 xs =
     exchange_loop (bottom + (top1 - middle)) middle top1 (swap_range bottom middle (top1 - middle) xs)"
  "\<not> (middle < top1 \<and> bottom < middle) \<Longrightarrow> exchange_loop bottom middle top1 xs = xs"
  by (auto simp: exchange_loop.simps[of bottom middle top1 xs] Let_def)

lemma exchange_loop_blocks:
  "b = length P \<Longrightarrow> m = length P + length A \<Longrightarrow> t = length P + length A + length B \<Longrightarrow>
     exchange_loop b m t (P @ A @ B @ S) = P @ B @ A @ S"
proof (induction b m t "P @ A @ B @ S" arbitrary: P A B S rule: exchange_loop.induct)
  case (1 b m t)
  show ?case
  proof (cases "A = [] \<or> B = []")
    case True
    then show ?thesis using 1(3-5) by (auto simp: exchange_loop_unfold(3))
  next
    case False
    then have ne: "t > m" "m > b" using 1(3-5) by auto
    show ?thesis
    proof (cases "t - m > m - b")
      case True
      define B1 B2 where "B1 = take (length B - length A) B" and "B2 = drop (length B - length A) B"
      have B: "B = B1 @ B2" "length B2 = length A" using True 1(3-5) by (auto simp: B1_def B2_def)
      have sw: "swap_range b (t - (m - b)) (m - b) (P @ A @ B @ S) = P @ B2 @ B1 @ A @ S"
        using swap_range_blocks[of A "m - b" B2 P B1 S] 1(3-5) B by (simp add: add.commute)
      have "exchange_loop b m (t - (m - b)) (P @ B2 @ B1 @ (A @ S)) = P @ B1 @ B2 @ A @ S"
        using 1(1)[OF conjI[OF ne] True refl, of P B2 B1 "A @ S"] sw 1(3-5) B by simp
      then show ?thesis unfolding exchange_loop_unfold(1)[OF ne True] sw by (simp add: B(1))
    next
      case False
      define A1 A2 where "A1 = take (length B) A" and "A2 = drop (length B) A"
      have A: "A = A1 @ A2" "length A1 = length B" using False 1(3-5) by (auto simp: A1_def A2_def)
      have sw: "swap_range b m (t - m) (P @ A @ B @ S) = P @ B @ A2 @ A1 @ S"
      proof -
        have "m = length P + length A1 + length A2" "b = length P" "length A1 = t - m" "length B = t - m"
          using 1(3-5) A by auto
        then show ?thesis using swap_range_blocks[of A1 "t - m" B P A2 S] by (simp add: A(1))
      qed
      have "exchange_loop (b + (t - m)) m t ((P @ B) @ A2 @ A1 @ S) = (P @ B) @ A1 @ A2 @ S"
        using 1(2)[OF conjI[OF ne] False refl, of "P @ B" A2 A1 S] sw 1(3-5) A by simp
      then show ?thesis unfolding exchange_loop_unfold(2)[OF ne False] sw by (simp add: A(1))
    qed
  qed
qed

text \<open>The elements from index \<open>i\<close> up to \<open>j\<close>.\<close>

definition slice :: "nat \<Rightarrow> nat \<Rightarrow> 'a list \<Rightarrow> 'a list" where
  "slice i j xs = take (j - i) (drop i xs)"

lemma slices: "i \<le> j \<Longrightarrow> j \<le> k \<Longrightarrow> k \<le> length xs \<Longrightarrow>
    xs = take i xs @ slice i j xs @ slice j k xs @ drop k xs"
  unfolding slice_def
  by (metis append_take_drop_id drop_drop le_add_diff_inverse2)

definition in_range :: "gost \<Rightarrow> bool" where
  "in_range s \<longleftrightarrow> first_nonopt s \<le> last_nonopt s \<and> last_nonopt s \<le> optind s \<and> optind s \<le> argc s"

lemma exchange_argv:
  assumes "in_range s"
  shows "argv (exchange s) = take (first_nonopt s) (argv s) @ slice (last_nonopt s) (optind s) (argv s) @
           slice (first_nonopt s) (last_nonopt s) (argv s) @ drop (optind s) (argv s)"
proof -
  let ?f = "first_nonopt s" and ?l = "last_nonopt s" and ?o = "optind s" and ?v = "argv s"
  have r: "?f \<le> ?l" "?l \<le> ?o" "?o \<le> length ?v" using assms by (auto simp: in_range_def)
  have "exchange_loop ?f ?l ?o (take ?f ?v @ slice ?f ?l ?v @ slice ?l ?o ?v @ drop ?o ?v) =
        take ?f ?v @ slice ?l ?o ?v @ slice ?f ?l ?v @ drop ?o ?v"
    using r by (intro exchange_loop_blocks) (auto simp: slice_def)
  then show ?thesis using slices[OF r] by (simp add: exchange_def)
qed

lemma exchange_frame:
  assumes "in_range s"
  shows "mset (argv (exchange s)) = mset (argv s)" "argc (exchange s) = argc s"
    "drop (optind s) (argv (exchange s)) = drop (optind s) (argv s)" "in_range (exchange s)"
proof -
  let ?f = "first_nonopt s" and ?l = "last_nonopt s" and ?o = "optind s" and ?v = "argv s"
  have r: "?f \<le> ?l" "?l \<le> ?o" "?o \<le> length ?v" using assms by (auto simp: in_range_def)
  have "mset ?v = mset (take ?f ?v @ slice ?f ?l ?v @ slice ?l ?o ?v @ drop ?o ?v)"
    using slices[OF r] by simp
  then show m: "mset (argv (exchange s)) = mset ?v" by (simp add: exchange_argv[OF assms])
  then show n: "argc (exchange s) = argc s" by (rule mset_eq_length)
  show "drop ?o (argv (exchange s)) = drop ?o ?v"
    using r by (simp add: exchange_argv[OF assms] slice_def)
  show "in_range (exchange s)" using r n by (simp add: in_range_def exchange_def)
qed

subsection \<open>Progress\<close>

definition weight :: "string list \<Rightarrow> nat" where
  "weight ws = sum_list (map (\<lambda>w. Suc (length w)) ws)"

text \<open>What is left to scan: the rest of the element \<open>nextchar\<close> points into and the elements behind.\<close>

definition remaining :: "gost \<Rightarrow> nat" where
  "remaining s =
     (case nextchar s of
        Some (c # cs) \<Rightarrow> Suc (length cs) + weight (drop (Suc (optind s)) (argv s))
      | _ \<Rightarrow> weight (drop (optind s) (argv s)))"

definition go_ok :: "gost \<Rightarrow> bool" where
  "go_ok s \<longleftrightarrow> optind s \<le> argc s \<and> first_nonopt s \<le> last_nonopt s \<and>
     (nextchar s \<noteq> None \<and> nextchar s \<noteq> Some [] \<longrightarrow> optind s < argc s)"

lemma weight_simps [simp]: "weight [] = 0" "weight (w # ws) = Suc (length w) + weight ws"
  by (simp_all add: weight_def)

lemma weight_drop: "i \<le> j \<Longrightarrow> weight (drop j ws) \<le> weight (drop i ws)"
proof (induction ws arbitrary: i j)
  case (Cons w ws)
  have "weight (drop k ws) \<le> weight ws" for k using Cons.IH[of 0 k] by simp
  with Cons show ?case by (cases i; cases j) (auto simp: le_SucI trans_le_add2)
qed simp

lemma weight_drop_Suc:
  "i < length ws \<Longrightarrow> weight (drop i ws) = Suc (length (ws ! i)) + weight (drop (Suc i) ws)"
  by (simp add: Cons_nth_drop_Suc[symmetric])

lemma skip_nonopts_ge: "i \<le> skip_nonopts ws i"
proof (induction ws arbitrary: i)
  case (Cons w ws)
  from Cons[of "Suc i"] show ?case by simp
qed simp

lemma skip_nonopts_le: "skip_nonopts ws i \<le> i + length ws"
proof (induction ws arbitrary: i)
  case (Cons w ws)
  from Cons[of "Suc i"] show ?case by simp
qed simp

text \<open>What a stage of \<open>next_element\<close> may change: it advances within a permuted vector.\<close>

definition advances :: "gost \<Rightarrow> gost \<Rightarrow> bool" where
  "advances s t \<longleftrightarrow> in_range t \<and> mset (argv t) = mset (argv s) \<and> optind s \<le> optind t \<and>
     drop (optind t) (argv t) = drop (optind t) (argv s) \<and>
     nextchar t = nextchar s \<and> opterr t = opterr s \<and> order t = order s"

lemma drop_le_eq: "i \<le> j \<Longrightarrow> drop i xs = drop i ys \<Longrightarrow> drop j xs = drop j ys"
  by (metis drop_drop le_add_diff_inverse2)

lemma advances_refl: "in_range s \<Longrightarrow> advances s s"
  by (simp add: advances_def)

lemma advances_trans: "advances s t \<Longrightarrow> advances t u \<Longrightarrow> advances s u"
  by (auto simp: advances_def dest: drop_le_eq)

lemma advances_weight:
  "advances s t \<Longrightarrow> weight (drop (optind t) (argv t)) \<le> weight (drop (optind s) (argv s))"
  by (simp add: advances_def weight_drop)

lemma advances_argc: "advances s t \<Longrightarrow> argc t = argc s"
  by (metis advances_def mset_eq_length)

lemma clip_nonopts: "go_ok s \<Longrightarrow> advances s (clip_nonopts s)"
  by (auto simp: go_ok_def clip_nonopts_def advances_def in_range_def min_def)

lemma exchange_advances: "in_range s \<Longrightarrow> advances s (exchange s)"
  using exchange_frame[of s] by (simp add: advances_def) (simp add: exchange_def)

lemma permute_nonopts:
  assumes "in_range s"
  shows "advances s (permute_nonopts s)"
proof -
  define t where "t = (if first_nonopt s \<noteq> last_nonopt s \<and> last_nonopt s \<noteq> optind s then exchange s
      else if last_nonopt s \<noteq> optind s then s\<lparr>first_nonopt := optind s, last_nonopt := optind s\<rparr> else s)"
  have t: "advances s t" using exchange_advances[OF assms] assms
    by (auto simp: t_def advances_def in_range_def)
  let ?i = "skip_nonopts (drop (optind t) (argv t)) (optind t)"
  have i: "optind t \<le> ?i" "?i \<le> argc t" using skip_nonopts_ge skip_nonopts_le[of "drop (optind t) (argv t)" "optind t"] t
    by (auto simp: advances_def in_range_def)
  have "advances t (t\<lparr>optind := ?i, last_nonopt := ?i\<rparr>)"
    using i t by (auto simp: advances_def in_range_def)
  moreover have "permute_nonopts s = t\<lparr>optind := ?i, last_nonopt := ?i\<rparr>"
    by (simp add: permute_nonopts_def t_def Let_def)
  ultimately show ?thesis using t advances_trans by metis
qed

lemma end_of_options:
  assumes "in_range s" and "optind s < argc s"
  shows "advances s (end_of_options s)" and "optind (end_of_options s) = argc s"
proof -
  let ?s = "s\<lparr>optind := optind s + 1\<rparr>"
  define t where "t = (if first_nonopt ?s \<noteq> last_nonopt ?s \<and> last_nonopt ?s \<noteq> optind ?s then exchange ?s
      else if first_nonopt ?s = last_nonopt ?s then ?s\<lparr>first_nonopt := optind ?s, last_nonopt := optind ?s\<rparr> else ?s)"
  have s: "in_range ?s" "advances s ?s" using assms by (auto simp: in_range_def advances_def)
  have t: "advances ?s t" using exchange_advances[OF s(1)] s(1)
    by (auto simp: t_def advances_def in_range_def)
  have u: "advances t (t\<lparr>last_nonopt := argc t, optind := argc t\<rparr>)"
    using t by (auto simp: advances_def in_range_def)
  have e: "end_of_options s = t\<lparr>last_nonopt := argc t, optind := argc t\<rparr>"
    by (simp add: end_of_options_def t_def Let_def)
  show "advances s (end_of_options s)" using s(2) t u e advances_trans by metis
  show "optind (end_of_options s) = argc s" using advances_argc[OF t] by (simp add: e)
qed

lemma arg_in [simp]: "i < argc s \<Longrightarrow> arg i s = Inr (argv s ! i, s)"
  by (simp add: arg_def)

text \<open>The state after the skipping stages of \<open>next_element\<close>.\<close>

definition skipped :: "gost \<Rightarrow> gost" where
  "skipped s =
     (let s = clip_nonopts s; s = (if order s = PERMUTE then permute_nonopts s else s) in
      if optind s \<noteq> argc s \<and> argv s ! optind s = ''--'' then end_of_options s else s)"

lemma skipped_advances:
  assumes "go_ok s"
  shows "advances s (skipped s)"
proof -
  define t where "t = (if order s = PERMUTE then permute_nonopts (clip_nonopts s) else clip_nonopts s)"
  have c: "advances s (clip_nonopts s)" by (rule clip_nonopts[OF assms])
  then have "in_range (clip_nonopts s)" by (simp add: advances_def)
  then have t: "advances s t" using c permute_nonopts advances_trans by (fastforce simp: t_def)
  then have r: "in_range t" by (simp add: advances_def)
  have "optind t \<noteq> argc t \<Longrightarrow> advances t (end_of_options t)"
    using end_of_options(1)[OF r] r by (simp add: in_range_def)
  moreover have "skipped s = (if optind t \<noteq> argc t \<and> argv t ! optind t = ''--'' then end_of_options t else t)"
    using c by (simp add: skipped_def t_def Let_def advances_def)
  ultimately show ?thesis using t advances_trans by auto
qed

definition passed :: "gost \<Rightarrow> int option \<times> gost" where
  "passed s =
     (if optind s = argc s then
        (Some (-1), if first_nonopt s \<noteq> last_nonopt s then s\<lparr>optind := first_nonopt s\<rparr> else s)
      else
        let w = argv s ! optind s in
        if nonoption w then
          if order s = REQUIRE_ORDER then (Some (-1), s)
          else (Some 1, s\<lparr>optarg := Some w, optind := optind s + 1\<rparr>)
        else (None, s\<lparr>nextchar := Some (tl w)\<rparr>))"

lemma next_element_short:
  assumes "go_ok s"
  shows "next_element False s = Inr (passed (skipped s))"
proof -
  define t where "t = (if order s = PERMUTE then permute_nonopts (clip_nonopts s) else clip_nonopts s)"
  have c: "advances s (clip_nonopts s)" by (rule clip_nonopts[OF assms])
  then have o: "order (clip_nonopts s) = order s" and "in_range (clip_nonopts s)" by (simp_all add: advances_def)
  then have "in_range t" using permute_nonopts by (simp add: t_def advances_def)
  then have lt: "optind t \<noteq> argc t \<Longrightarrow> optind t < argc t" by (simp add: in_range_def)
  let ?u = "skipped s"
  have u: "?u = (if optind t \<noteq> argc t \<and> argv t ! optind t = ''--'' then end_of_options t else t)"
    using o by (simp add: skipped_def t_def Let_def)
  have lu: "optind ?u \<noteq> argc ?u \<Longrightarrow> optind ?u < argc ?u"
    using skipped_advances[OF assms] by (simp add: advances_def in_range_def)
  have "order (end_of_options t) = order t"
    by (simp add: end_of_options_def exchange_def Let_def)
  then show ?thesis using o lt lu
    by (simp add: next_element_def bind_apply u t_def[symmetric] split del: if_split cong: if_cong)
      (auto simp: bind_apply passed_def Let_def drop_Suc)
qed

text \<open>One call: the result, the invariant, and the progress made unless it ends the scan.\<close>

definition good_step :: "gost \<Rightarrow> int \<times> gost \<Rightarrow> bool" where
  "good_step s rt \<longleftrightarrow> (case rt of (r, t) \<Rightarrow>
     go_ok t \<and> mset (argv t) = mset (argv s) \<and> getopt_initialized t = getopt_initialized s \<and>
     (r = -1 \<or> remaining t < remaining s \<and> optind s \<le> optind t))"

lemma required_arg:
  assumes "optind s \<le> argc s" and "rest \<noteq> [] \<longrightarrow> optind s < argc s"
  shows "\<exists>r t. required_arg pe c rest s = Inr (r, t) \<and> argv t = argv s \<and> optind s \<le> optind t \<and>
     optind t \<le> argc s \<and> (rest \<noteq> [] \<longrightarrow> optind s < optind t) \<and> first_nonopt t = first_nonopt s \<and> last_nonopt t = last_nonopt s \<and>
     getopt_initialized t = getopt_initialized s"
  using assms by (auto simp: required_arg_def bind_apply complain_def Let_def)

lemma option_arg:
  assumes "optind s \<le> argc s" and "rest \<noteq> [] \<longrightarrow> optind s < argc s" and "nextchar s = Some rest"
  shows "\<exists>r t. option_arg pe os c rest spec s = Inr (r, t) \<and> argv t = argv s \<and> optind s \<le> optind t \<and>
     optind t \<le> argc s \<and> (optind t = optind s \<and> nextchar t = Some rest \<or>
       nextchar t = None \<and> (rest \<noteq> [] \<longrightarrow> optind s < optind t)) \<and>
     first_nonopt t = first_nonopt s \<and> last_nonopt t = last_nonopt s \<and>
     getopt_initialized t = getopt_initialized s"
  using assms required_arg[OF assms(1,2), of pe c]
  by (auto simp: option_arg_def bind_apply)

lemma short_option_step:
  assumes "go_ok s" and "nextchar s = Some (c # rest)" and "CHR '';'' \<notin> set os"
  shows "\<exists>rt. short_option pe os None set_ind s = Inr rt \<and> good_step s rt"
proof -
  let ?t = "s\<lparr>nextchar := Some rest, optind := optind s + (if rest = [] then 1 else 0)\<rparr>"
  have o: "optind s < argc s" "first_nonopt s \<le> last_nonopt s" using assms by (auto simp: go_ok_def)
  have r: "remaining s = Suc (length rest) + weight (drop (Suc (optind s)) (argv s))"
    using assms(2) by (simp add: remaining_def)
  have w: "Suc (optind s) \<le> k \<Longrightarrow> weight (drop k (argv s)) < remaining s" for k
    using weight_drop[of "Suc (optind s)" k "argv s"] r by simp
  have bad: "good_step s (q, ?t\<lparr>optopt := z, gerr := e\<rparr>)" for q z e
    using o r w by (cases rest) (auto simp: good_step_def go_ok_def remaining_def)
  show ?thesis
  proof (cases "my_index os c = None \<or> c = CHR '':''")
    case True
    then have "short_option pe os None set_ind s =
        Inr (schar (CHR ''?''), ?t\<lparr>optopt := schar c, gerr := (if pe then gerr s @ [InvalidOption c] else gerr s)\<rparr>)"
      using assms(2) by (simp add: short_option_def bind_apply complain_def)
    then show ?thesis using bad by blast
  next
    case False
    have ni: "take 1 (tl (the (my_index os c))) \<noteq> '';''"
    proof -
      have "my_index os c = Some y \<Longrightarrow> set y \<subseteq> set os" for y
        by (induction os) (auto split: if_splits)
      then have "CHR '';'' \<notin> set (tl (the (my_index os c)))"
        using False assms(3) by (auto dest!: list.set_sel(2)) (metis in_mono list.sel(2) list.set_sel(2))
      then show ?thesis by (cases "tl (the (my_index os c))") auto
    qed
    obtain q t where t: "option_arg pe os c rest (tl (the (my_index os c))) ?t = Inr (q, t)"
      and f: "argv t = argv s" "optind ?t \<le> optind t" "optind t \<le> argc s"
        "optind t = optind ?t \<and> nextchar t = Some rest \<or> nextchar t = None \<and> (rest \<noteq> [] \<longrightarrow> optind ?t < optind t)"
        "first_nonopt t = first_nonopt s" "last_nonopt t = last_nonopt s"
        "getopt_initialized t = getopt_initialized s"
      using option_arg[of ?t rest pe os c "tl (the (my_index os c))"] o(1) by (cases rest) auto
    have "good_step s (q, t)"
      using f o r w by (cases rest) (auto simp: good_step_def go_ok_def remaining_def)
    moreover have "short_option pe os None set_ind s = Inr (q, t)"
      using False ni t assms(2) by (auto simp: short_option_def bind_apply Let_def)
    ultimately show ?thesis by blast
  qed
qed

lemma passed_step:
  assumes "go_ok s" and "nextchar s = None \<or> nextchar s = Some []" and "passed (skipped s) = (r, t)"
  shows "case r of
           Some x \<Rightarrow> go_ok t \<and> (x = -1 \<or> remaining t < remaining s \<and> optind s \<le> optind t)
         | None \<Rightarrow> go_ok t \<and> (\<exists>c rest. nextchar t = Some (c # rest)) \<and> remaining t < remaining s \<and>
             optind s \<le> optind t"
    and "mset (argv t) = mset (argv s)" and "getopt_initialized t = getopt_initialized (skipped s)"
proof -
  let ?u = "skipped s"
  have a: "advances s ?u" by (rule skipped_advances[OF assms(1)])
  then have u: "in_range ?u" "nextchar ?u = None \<or> nextchar ?u = Some []" "mset (argv ?u) = mset (argv s)"
    "optind s \<le> optind ?u"
    using assms(2) by (auto simp: advances_def)
  have w: "weight (drop (optind ?u) (argv ?u)) \<le> remaining s"
    using advances_weight[OF a] assms(2) by (auto simp: remaining_def)
  have d: "optind ?u \<noteq> argc ?u \<Longrightarrow> optind ?u < argc ?u" using u(1) by (simp add: in_range_def)
  note split = weight_drop_Suc[of "optind ?u" "argv ?u"]
  have o: "\<not> nonoption w \<Longrightarrow> \<exists>c rest. tl w = c # rest \<and> length w = Suc (Suc (length rest))" for w
    by (cases w; cases "tl w") (simp_all add: nonoption_def)
  show "case r of
           Some x \<Rightarrow> go_ok t \<and> (x = -1 \<or> remaining t < remaining s \<and> optind s \<le> optind t)
         | None \<Rightarrow> go_ok t \<and> (\<exists>c rest. nextchar t = Some (c # rest)) \<and> remaining t < remaining s \<and>
             optind s \<le> optind t"
  proof (cases "optind ?u = argc ?u")
    case True
    then show ?thesis using assms(3) u by (auto simp: passed_def go_ok_def in_range_def)
  next
    case False
    note lt = d[OF False]
    show ?thesis
    proof (cases "nonoption (argv ?u ! optind ?u)")
      case True
      then show ?thesis using assms(3) u w lt False split[OF lt]
        by (cases "order ?u = REQUIRE_ORDER") (auto simp: passed_def Let_def go_ok_def in_range_def remaining_def)
    next
      case nonopt: False
      from o[OF this] obtain c rest where "tl (argv ?u ! optind ?u) = c # rest"
        "length (argv ?u ! optind ?u) = Suc (Suc (length rest))" by blast
      with nonopt show ?thesis using assms(3) u w lt False split[OF lt]
        by (auto simp: passed_def Let_def go_ok_def in_range_def remaining_def)
    qed
  qed
  show "mset (argv t) = mset (argv s)" "getopt_initialized t = getopt_initialized (skipped s)"
    using assms(3) u(3) by (auto simp: passed_def Let_def split: if_splits)
qed

lemma initialized_frame [simp]:
  "getopt_initialized (exchange s) = getopt_initialized s"
  "getopt_initialized (clip_nonopts s) = getopt_initialized s"
  "getopt_initialized (permute_nonopts s) = getopt_initialized s"
  "getopt_initialized (end_of_options s) = getopt_initialized s"
  by (simp_all add: exchange_def clip_nonopts_def permute_nonopts_def end_of_options_def Let_def)

lemma skipped_initialized [simp]: "getopt_initialized (skipped s) = getopt_initialized s"
  by (simp add: skipped_def Let_def)

lemma good_step_trans:
  assumes "remaining u < remaining s \<and> optind s \<le> optind u" and "mset (argv u) = mset (argv s)"
    and "getopt_initialized u = getopt_initialized s" and "good_step u rt"
  shows "good_step s rt"
  using assms by (auto simp: good_step_def split: prod.splits)

text \<open>A call of \<open>getopt\<close> after initialisation.\<close>

definition scan :: "bool \<Rightarrow> string \<Rightarrow> int go" where
  "scan pe os = bind (gets nextchar) (\<lambda>nc.
     bind (if nc = None \<or> nc = Some [] then next_element False else ret None) (\<lambda>r.
     case r of Some x \<Rightarrow> ret x | None \<Rightarrow> short_option pe os None (\<lambda>_ s. s)))"

lemma getopt_scan:
  "getopt posix os =
     bind (gets (\<lambda>s. opterr s \<and> take 1 os \<noteq> '':'')) (\<lambda>pe.
     bind (gets (\<lambda>s. argc s < 1)) (\<lambda>empty.
     if empty then ret (-1)
     else
       bind (modify (\<lambda>s. s\<lparr>optarg := None\<rparr>)) (\<lambda>_.
       bind (gets (\<lambda>s. optind s = 0 \<or> \<not> getopt_initialized s)) (\<lambda>first.
       bind (if first then
               bind (modify (\<lambda>s. if optind s = 0 then s\<lparr>optind := 1\<rparr> else s)) (\<lambda>_.
               bind (getopt_initialize posix os) (\<lambda>o'.
               bind (modify (\<lambda>s. s\<lparr>getopt_initialized := True\<rparr>)) (\<lambda>_. ret o')))
             else ret os) (scan pe)))))"
  by (simp add: getopt_def getopt_internal_def scan_def[abs_def] cong: if_cong option.case_cong)

lemma scan_step:
  assumes "go_ok s" and "CHR '';'' \<notin> set os"
  shows "\<exists>rt. scan pe os s = Inr rt \<and> good_step s rt"
proof (cases "nextchar s = None \<or> nextchar s = Some []")
  case True
  obtain r t where p: "passed (skipped s) = (r, t)" by force
  note st = passed_step[OF assms(1) True p]
  have n: "next_element False s = Inr (r, t)" using next_element_short[OF assms(1)] p by simp
  show ?thesis
  proof (cases r)
    case None
    with st(1) obtain c rest where "go_ok t" "nextchar t = Some (c # rest)" by auto
    from short_option_step[OF this assms(2)] obtain rt
      where rt: "short_option pe os None (\<lambda>_ s. s) t = Inr rt" "good_step t rt" by blast
    have "good_step s rt" using good_step_trans[OF _ st(2) _ rt(2)] st(1,3) None by simp
    then show ?thesis using True n None rt(1) by (auto simp: scan_def bind_apply)
  next
    case (Some x)
    then have "good_step s (x, t)" using st by (simp add: good_step_def)
    then show ?thesis using True n Some by (auto simp: scan_def bind_apply)
  qed
next
  case False
  then obtain c rest where "nextchar s = Some (c # rest)" by (metis neq_Nil_conv option.exhaust)
  from short_option_step[OF assms(1) this assms(2)] show ?thesis using False by (auto simp: scan_def bind_apply)
qed

text \<open>The state in which a caller may call \<open>getopt\<close>.\<close>

definition callable :: "gost \<Rightarrow> bool" where
  "callable s \<longleftrightarrow> go_ok s \<and> 0 < optind s \<and> 0 < argc s \<and> (getopt_initialized s \<or> nextchar s = None)"

lemma getopt_step:
  assumes "callable s" and "CHR '';'' \<notin> set os"
  shows "\<exists>r t. getopt posix os s = Inr (r, t) \<and> mset (argv t) = mset (argv s) \<and>
     (r = -1 \<or> callable t \<and> remaining t < remaining s)"
proof -
  define pe where "pe = (opterr s \<and> take 1 os \<noteq> '':'')"
  define first where "first = (\<not> getopt_initialized s)"
  define os1 where "os1 = (if first \<and> (take 1 os = ''-'' \<or> take 1 os = ''+'') then drop 1 os else os)"
  define ord where "ord = (if first then if take 1 os = ''-'' then RETURN_IN_ORDER
     else if take 1 os = ''+'' \<or> posix then REQUIRE_ORDER else PERMUTE else order s)"
  define u where "u = (if first then s\<lparr>optarg := None, first_nonopt := optind s, last_nonopt := optind s,
     nextchar := None, posixly_correct := posix, order := ord, getopt_initialized := True\<rparr>
     else s\<lparr>optarg := None\<rparr>)"
  have c: "go_ok s" "0 < optind s" "0 < argc s" "first \<Longrightarrow> nextchar s = None"
    using assms(1) by (auto simp: callable_def first_def)
  have u: "go_ok u" "argv u = argv s" "optind u = optind s" "getopt_initialized u"
    using c by (auto simp: u_def go_ok_def first_def)
  have ru: "remaining u = remaining s"
    using c(4) by (auto simp: u_def remaining_def split: option.split list.split)
  have "CHR '';'' \<notin> set os1" using assms(2) by (auto simp: os1_def dest: in_set_dropD)
  from scan_step[OF u(1) this, of pe] obtain r t where
    s: "scan pe os1 u = Inr (r, t)"
    and g: "good_step u (r, t)" by force
  have "getopt posix os s = scan pe os1 u"
    using c by (simp add: getopt_scan getopt_initialize_def bind_apply
        pe_def os1_def u_def first_def ord_def)
  moreover have "argc t = argc s" using g u(2) by (auto simp: good_step_def dest: mset_eq_length)
  ultimately show ?thesis using s g u c ru by (auto simp: good_step_def callable_def)
qed

subsection \<open>The contract of an option scanner\<close>

text \<open>
  What a caller's loop relies on: in an acceptable state a call returns, and unless it returns
  \<open>-1\<close> the next state is acceptable and smaller. Then any loop that calls it and continues with a
  result other than \<open>-1\<close> ends within as many rounds as the size of its first state.
\<close>

locale option_scanner =
  fixes nxt :: "('s, int) comp" and ok :: "'s \<Rightarrow> bool" and size :: "'s \<Rightarrow> nat"
  assumes step: "ok s \<Longrightarrow> \<exists>r t. nxt s = Inr (r, t) \<and> (r = -1 \<or> ok t \<and> size t < size s)"
begin

lemma loop_ends:
  assumes loop: "\<And>n x s. L (Suc n) x s = bind nxt (\<lambda>r. if r = -1 then fin x else body r x (L n)) s"
    and fin: "\<And>x s. \<exists>y. fin x s = Inr y"
    and body: "\<And>r x n s. (\<And>x. \<exists>y. L n x s = Inr y) \<Longrightarrow> \<exists>y. body r x (L n) s = Inr y"
    and "ok s" and "size s < n"
  shows "\<exists>y. L n x s = Inr y"
  using assms(4,5)
proof (induction n arbitrary: x s)
  case (Suc n)
  from step[OF Suc.prems(1)] obtain r t where t: "nxt s = Inr (r, t)" "r = -1 \<or> ok t \<and> size t < size s"
    by blast
  show ?case
  proof (cases "r = -1")
    case True
    then show ?thesis using t fin[of x t] by (simp add: loop)
  next
    case False
    then have "\<exists>y. L n x t = Inr y" for x using Suc t by force
    then show ?thesis using t False body by (simp add: loop)
  qed
qed simp

end

subsection \<open>Properties\<close>

text \<open>
  C17: \<open>exchange\<close> swaps the two adjacent blocks of the argument vector: the options found since
  the skipped non-options move in front of them, both blocks keep their order, and nothing else
  moves.
\<close>

theorem exchange_swaps_blocks:
  assumes "first_nonopt s \<le> last_nonopt s" and "last_nonopt s \<le> optind s" and "optind s \<le> argc s"
  shows "argv (exchange s) =
      take (first_nonopt s) (argv s)
      @ take (optind s - last_nonopt s) (drop (last_nonopt s) (argv s))
      @ take (last_nonopt s - first_nonopt s) (drop (first_nonopt s) (argv s))
      @ drop (optind s) (argv s) \<and>
    last_nonopt (exchange s) - first_nonopt (exchange s) = last_nonopt s - first_nonopt s"
  using exchange_argv[of s] assms by (simp_all add: in_range_def slice_def exchange_def)

text \<open>
  C15: A call of \<open>getopt\<close> with an option string without \<open>;\<close> never faults, only permutes the
  argument vector, and either returns \<open>-1\<close> or leaves strictly less to scan.
\<close>

theorem getopt_progress:
  assumes "callable s" and "CHR '';'' \<notin> set optstring"
  shows "\<exists>r t. getopt posix optstring s = Inr (r, t) \<and> mset (argv t) = mset (argv s) \<and>
     (r = -1 \<or> callable t \<and> remaining t < remaining s)"
  using assms by (rule getopt_step)

lemma callable_initial: "av \<noteq> [] \<Longrightarrow> callable (initial_gost av)"
  by (cases av) (auto simp: callable_def go_ok_def initial_gost_def)

theorem exchange_swaps_blocks_witness:
  "argv (exchange ((initial_gost [''t'', ''x'', ''-v'', ''-E''])\<lparr>first_nonopt := 1, last_nonopt := 2, optind := 4\<rparr>))
     = [''t'', ''-v'', ''-E'', ''x'']"
  using exchange_swaps_blocks[of "(initial_gost [''t'', ''x'', ''-v'', ''-E''])\<lparr>first_nonopt := 1, last_nonopt := 2, optind := 4\<rparr>"]
  by (simp add: initial_gost_def)

theorem getopt_progress_witness:
  "\<exists>r t. getopt False ''Ev'' (initial_gost [''t'', ''-v'']) = Inr (r, t) \<and>
     mset (argv t) = mset [''t'', ''-v'']"
  using getopt_progress[of "initial_gost [''t'', ''-v'']" "''Ev''" False] callable_initial[of "[''t'', ''-v'']"]
  by (auto simp: initial_gost_def)

end
