(* ===== verification/TL_Main.thy ===== *)
theory TL_Main
  imports TL_Writer TL_Getopt
begin

section \<open>The program (tlc.c)\<close>

text \<open>
  \<open>main\<close> composes the components: options, reading the file, the parser, the semantic pass and
  the writer. The environment is the record \<open>world\<close>: the readable files, the paths that can be
  opened for writing, whether \<open>POSIXLY_CORRECT\<close> is set, and the three parameters of the model
  (random numbers, uninitialised memory, bytes after a string literal). A failed assertion and a
  null dereference end in the signal handlers, which exit with status 1.
\<close>

record world =
  files :: "string \<Rightarrow> string option"
  writable :: "string \<Rightarrow> bool"
  posix_env :: bool
  random_seq :: "nat \<Rightarrow> int"
  heap_junk :: "addr \<Rightarrow> u64"
  after_literal :: "string \<Rightarrow> nat \<Rightarrow> char"

record main_opts =
  out_expr :: int
  verbosity :: int
  vkext_file :: "string option"

record outcome =
  status :: int
  written :: "(string \<times> u8 list) option"
  messages :: "string list"

definition usage :: outcome where
  "usage = \<lparr>status = 2, written = None, messages = []\<rparr>"

definition vkext_write :: "world \<Rightarrow> string \<Rightarrow> tlst \<Rightarrow> fault + (string \<times> u8 list)" where
  "vkext_write W filename p =
     (if writable W filename then
        (case write_types \<lparr>prog = p, out = []\<rparr> of
           Inl e \<Rightarrow> Inl e
         | Inr (_, s) \<Rightarrow> Inr (filename, out s))
      else Inl Assertion)"

text \<open>One option of the \<open>switch\<close>; \<open>None\<close> stands for the call of \<open>usage\<close>.\<close>

definition main_option :: "int \<Rightarrow> string option \<Rightarrow> main_opts \<Rightarrow> main_opts option" where
  "main_option i oarg o1 =
     (if i = schar (CHR ''E'') then Some (o1\<lparr>out_expr := out_expr o1 + 1\<rparr>)
      else if i = schar (CHR ''h'') then None
      else if i = schar (CHR ''e'') then Some (o1\<lparr>vkext_file := oarg\<rparr>)
      else if i = schar (CHR ''v'') then Some (o1\<lparr>verbosity := verbosity o1 + 1\<rparr>)
      else Some o1)"

definition main_optstring :: string where
  "main_optstring = ''Ehve:w:''"

primrec main_options :: "nat \<Rightarrow> bool \<Rightarrow> main_opts \<Rightarrow> main_opts option go" where
  "main_options 0 posix o1 = raise OutOfFuel"
| "main_options (Suc n) posix o1 =
     bind (getopt posix main_optstring) (\<lambda>i.
     if i = -1 then ret (Some o1)
     else
       bind (gets optarg) (\<lambda>oarg.
       case main_option i oarg o1 of
         None \<Rightarrow> ret None
       | Some o2 \<Rightarrow> main_options n posix o2))"

text \<open>
  Every call of \<open>getopt\<close> that does not end the loop consumes a character of an element or an
  element, so this many calls are enough.
\<close>

definition options_fuel :: "string list \<Rightarrow> nat" where
  "options_fuel av = Suc (length av + sum_list (map length av))"

text \<open>Lines 133-164: from the file to the exit status. \<open>n\<close> is the fuel of the parser.\<close>

definition compile :: "nat \<Rightarrow> world \<Rightarrow> main_opts \<Rightarrow> string \<Rightarrow> fault + outcome" where
  "compile n W o1 fname =
     (case tl_init_parse_file (files W fname) of
        None \<Rightarrow> Inr \<lparr>status = 1, written = None, messages = []\<rparr>
      | Some P \<Rightarrow>
          (case tl_parse_lex n P (initial_lexst P) of
             Inl e \<Rightarrow> Inl e
           | Inr (None, ls) \<Rightarrow> Inr \<lparr>status = 1, written = None, messages = [''Error in parse:'']\<rparr>
           | Inr (Some T, ls) \<Rightarrow>
               let say = (\<lambda>w. if verbosity o1 \<noteq> 0 then [w] else []) in
               (case tl_parse T (initial_tlst (random_seq W) (heap_junk W) (after_literal W) (out_expr o1)) of
                  Inl e \<Rightarrow> Inl e
                | Inr (r, p) \<Rightarrow>
                    if r = 0 then
                      Inr \<lparr>status = 1, written = None,
                           messages = say ''Parse ok'' @ rev (log p) @ say ''Fail''\<rparr>
                    else
                      (let msgs = say ''Parse ok'' @ rev (log p) @ say ''Ok'' in
                       case vkext_file o1 of
                         None \<Rightarrow> Inr \<lparr>status = 0, written = None, messages = msgs\<rparr>
                       | Some f \<Rightarrow>
                           (case vkext_write W f p of
                              Inl e \<Rightarrow> Inl e
                            | Inr w \<Rightarrow> Inr \<lparr>status = 0, written = Some w, messages = msgs\<rparr>)))))"

definition main :: "nat \<Rightarrow> world \<Rightarrow> string list \<Rightarrow> fault + outcome" where
  "main n W av =
     (case main_options (options_fuel av) (posix_env W)
             \<lparr>out_expr = 0, verbosity = 0, vkext_file = None\<rparr> (initial_gost av) of
        Inl e \<Rightarrow> Inl e
      | Inr (None, g) \<Rightarrow> Inr usage
      | Inr (Some o1, g) \<Rightarrow>
          if argc g \<noteq> optind g + 1 then Inr usage
          else compile n W o1 (argv g ! optind g))"

text \<open>
  The status seen by the caller of the process: the handlers of \<open>SIGABRT\<close> and \<open>SIGSEGV\<close> turn
  both faults into status 1; an access out of bounds has no defined outcome, and a run that does
  not end has none.
\<close>

definition exit_status :: "fault + outcome \<Rightarrow> int option" where
  "exit_status r =
     (case r of
        Inr x \<Rightarrow> Some (status x)
      | Inl Assertion \<Rightarrow> Some 1
      | Inl NullDeref \<Rightarrow> Some 1
      | Inl OutOfBounds \<Rightarrow> None
      | Inl OutOfFuel \<Rightarrow> None)"

subsection \<open>The option loop ends\<close>

lemma main_optstring_plain: "CHR '';'' \<notin> set main_optstring"
  by (simp add: main_optstring_def)

interpretation main_scan: option_scanner "getopt posix main_optstring" callable remaining
  for posix
  using getopt_step[OF _ main_optstring_plain] by unfold_locales blast

lemma weight_options_fuel: "weight av < options_fuel av"
  by (induction av) (simp_all add: options_fuel_def)

lemma remaining_initial: "remaining (initial_gost av) < options_fuel av"
  using weight_drop[of 0 1 av] weight_options_fuel[of av] by (simp add: remaining_def initial_gost_def)

lemma main_options_total:
  assumes "av \<noteq> []"
  shows "\<exists>r g. main_options (options_fuel av) posix o1 (initial_gost av) = Inr (r, g)"
proof -
  have "\<exists>y. main_options (options_fuel av) posix o1 (initial_gost av) = Inr y"
  proof (rule main_scan.loop_ends[where posix = posix and
        body = "\<lambda>i x rec. bind (gets optarg) (\<lambda>oarg. case main_option i oarg x of
                  None \<Rightarrow> ret None | Some o2 \<Rightarrow> rec o2)"])
    show "main_options (Suc n) posix x s = bind (getopt posix main_optstring) (\<lambda>i.
        if i = -1 then ret (Some x) else bind (gets optarg) (\<lambda>oarg.
          case main_option i oarg x of None \<Rightarrow> ret None | Some o2 \<Rightarrow> main_options n posix o2)) s" for n x s
      by simp
  qed (auto simp: bind_apply callable_initial[OF assms] remaining_initial split: option.split)
  then show ?thesis by (simp add: split_paired_Ex)
qed

text \<open>
  C21: The option loop of \<open>main\<close> ends on every command line: the fuel the model gives it is always
  enough, and it does not fault.
\<close>

theorem main_options_end:
  assumes "av \<noteq> []"
  shows "\<exists>r g. main_options (options_fuel av) posix o1 (initial_gost av) = Inr (r, g)"
  using assms by (rule main_options_total)

theorem main_options_end_witness:
  "\<exists>r g. main_options (options_fuel [''t'', ''-vE'', ''f'', ''-w'']) False
     \<lparr>out_expr = 0, verbosity = 0, vkext_file = None\<rparr> (initial_gost [''t'', ''-vE'', ''f'', ''-w''])
     = Inr (r, g)"
  by (rule main_options_end) simp

subsection \<open>Command lines\<close>

text \<open>Evaluation of \<open>getopt\<close> on a given command line.\<close>

lemmas getopt_run = getopt_def getopt_internal_def initial_gost_def next_element_def getopt_initialize_def bind_apply main_optstring_def
   clip_nonopts_def permute_nonopts_def arg_def Let_def short_option_def option_arg_def required_arg_def wants_long_def
   char_at_def end_of_options_def exchange_def

lemma nonoption_strings: "\<not> nonoption ''-e''" "nonoption f \<Longrightarrow> f \<noteq> ''--''" 
  by (auto simp: nonoption_def)

lemma opts_fuel: "options_fuel [a, b, c, d] = Suc (Suc (Suc (2 + length a + length b + length c + length d)))"
  by (simp add: options_fuel_def)

lemma main_e_first:
  assumes "nonoption f"
  shows "main n W [a, ''-e'', g, f] = compile n W \<lparr>out_expr = 0, verbosity = 0, vkext_file = Some g\<rparr> f"
  using nonoption_strings(1) nonoption_strings(2)[OF assms] assms
  by (cases "posix_env W"; simp add: main_def opts_fuel getopt_run main_option_def schar_def)

lemma swap_front: "exchange_loop (Suc 0) 2 4 [a, f, x, g] = [a, x, g, f]"
  by (simp add: exchange_loop.simps eval_nat_numeral)

lemma main_e_last:
  assumes "nonoption f" and "\<not> posix_env W"
  shows "main n W [a, f, ''-e'', g] = compile n W \<lparr>out_expr = 0, verbosity = 0, vkext_file = Some g\<rparr> f"
  using nonoption_strings(1) nonoption_strings(2)[OF assms(1)] assms swap_front[of a f "''-e''" g]
  by (simp add: main_def opts_fuel getopt_run main_option_def schar_def eval_nat_numeral)

lemma main_plain:
  assumes "nonoption f"
  shows "main n W [a, f] = compile n W \<lparr>out_expr = 0, verbosity = 0, vkext_file = None\<rparr> f"
  using nonoption_strings(1) nonoption_strings(2)[OF assms(1)] assms
  by (cases "posix_env W"; simp add: main_def options_fuel_def getopt_run main_option_def schar_def eval_nat_numeral)

lemma main_help: "main n W [a, ''-h''] = Inr usage" "main n W [a] = Inr usage"
  by (simp_all add: main_def options_fuel_def getopt_run main_option_def schar_def eval_nat_numeral nonoption_def)

text \<open>
  C22: The documented command lines: \<open>tlc -e out file\<close> compiles \<open>file\<close> and names \<open>out\<close> as the output,
  \<open>tlc file -e out\<close> does the same unless \<open>POSIXLY_CORRECT\<close> is set, \<open>tlc file\<close> only checks \<open>file\<close>, and \<open>-h\<close>
  or no file ends with the usage status. A name that starts with a dash is an option, not a file.
\<close>

theorem main_command_line:
  assumes "nonoption f"
  shows "main n W [a, ''-e'', g, f] = compile n W \<lparr>out_expr = 0, verbosity = 0, vkext_file = Some g\<rparr> f \<and>
    (\<not> posix_env W \<longrightarrow> main n W [a, f, ''-e'', g] = main n W [a, ''-e'', g, f]) \<and>
    main n W [a, f] = compile n W \<lparr>out_expr = 0, verbosity = 0, vkext_file = None\<rparr> f \<and>
    main n W [a, ''-h''] = Inr usage \<and> main n W [a] = Inr usage"
  using assms main_e_first main_e_last main_plain main_help by simp

theorem main_command_line_witness:
  "main 9 \<lparr>files = Map.empty, writable = (\<lambda>_. True), posix_env = False, random_seq = (\<lambda>_. 0),
     heap_junk = (\<lambda>_. 0), after_literal = (\<lambda>_ _. NUL)\<rparr> [''tlc'', ''x'', ''-e'', ''o''] =
   Inr \<lparr>status = 1, written = None, messages = []\<rparr>"
  using main_command_line[of "''x''" 9 "\<lparr>files = Map.empty, writable = (\<lambda>_. True), posix_env = False, random_seq = (\<lambda>_. 0),
     heap_junk = (\<lambda>_. 0), after_literal = (\<lambda>_ _. NUL)\<rparr>" "''tlc''" "''o''"]
  by (simp add: nonoption_def compile_def tl_init_parse_file_def)

end
