(* ===== verification/TL_Grammar.thy ===== *)
theory TL_Grammar
  imports TL_Parser
begin

section \<open>The grammar of parse trees (tl-parser.c, lines 419-942)\<close>

text \<open>
  The nodes that the parser builds, as a grammar: \<open>shape t ts\<close> says which sequences \<open>ts\<close> of
  children a node of kind \<open>t\<close> may have, and \<open>wf_tree\<close> that every node of a tree has a proper shape.
  The semantic pass walks the trees by position and relies on these shapes. \<open>yields p u\<close>: what \<open>p\<close>
  returns is a proper tree of kind \<open>u\<close>; \<open>grows t ts k\<close>: the rest \<open>k\<close> of a parsing function turns
  a node of kind \<open>t\<close> that has the children \<open>ts\<close> so far into one.
\<close>

subsection \<open>Shapes\<close>

definition opt_head :: "tree_type \<Rightarrow> tree_type list \<Rightarrow> tree_type list" where
  "opt_head a ts = (if take 1 ts = [a] then tl ts else ts)"

abbreviation many :: "tree_type \<Rightarrow> tree_type list \<Rightarrow> tree_type list" where
  "many a ts \<equiv> dropWhile (\<lambda>x. x = a) ts"

fun alternating :: "'a \<Rightarrow> 'a \<Rightarrow> 'a list \<Rightarrow> bool" where
  "alternating a b [] \<longleftrightarrow> True"
| "alternating a b (x # xs) \<longleftrightarrow> x = a \<and> alternating b a xs"

definition field_shape :: "tree_type list \<Rightarrow> bool" where
  "field_shape ts \<longleftrightarrow> opt_head type_exclam (opt_head type_optional_arg_def ts) = [type_type_term]"

fun shape :: "tree_type \<Rightarrow> tree_type list \<Rightarrow> bool" where
  "shape type_tl_program ts \<longleftrightarrow> ts \<noteq> [] \<and> alternating type_constr_declarations type_fun_declarations ts"
| "shape type_fun_declarations ts \<longleftrightarrow> many type_declaration ts = []"
| "shape type_constr_declarations ts \<longleftrightarrow> many type_declaration ts = []"
| "shape type_declaration ts \<longleftrightarrow>
     ts \<in> {[type_combinator_decl], [type_partial_app_decl], [type_final_decl], [type_builtin_combinator_decl]}"
| "shape type_combinator_decl ts \<longleftrightarrow>
     take 1 ts = [type_full_combinator_id] \<and>
     many type_args (many type_opt_args (tl ts)) = [type_equals, type_result_type]"
| "shape type_builtin_combinator_decl ts \<longleftrightarrow> ts = [type_full_combinator_id, type_boxed_type_ident]"
| "shape type_partial_app_decl ts \<longleftrightarrow> ts \<in> {[type_partial_type_app_decl], [type_partial_comb_app_decl]}"
| "shape type_partial_type_app_decl ts \<longleftrightarrow>
     take 1 ts = [type_boxed_type_ident] \<and> tl ts \<noteq> [] \<and>
     (many type_expr (tl ts) = [] \<or> many type_subexpr (tl ts) = [])"
| "shape type_partial_comb_app_decl ts \<longleftrightarrow>
     take 1 ts = [type_combinator_id] \<and> tl ts \<noteq> [] \<and> many type_subexpr (tl ts) = []"
| "shape type_final_decl ts \<longleftrightarrow> ts \<in> {[type_final_new], [type_final_final], [type_final_empty]}"
| "shape type_final_new ts \<longleftrightarrow> ts = [type_boxed_type_ident]"
| "shape type_final_final ts \<longleftrightarrow> ts = [type_boxed_type_ident]"
| "shape type_final_empty ts \<longleftrightarrow> ts = [type_boxed_type_ident]"
| "shape type_opt_args ts \<longleftrightarrow> take 1 ts = [type_var_ident] \<and> many type_var_ident ts = [type_type_term]"
| "shape type_args ts \<longleftrightarrow> ts \<in> {[type_args1], [type_args2], [type_args3], [type_args4]}"
| "shape type_args1 ts \<longleftrightarrow> take 1 ts = [type_var_ident_opt] \<and> field_shape (many type_var_ident_opt ts)"
| "shape type_args2 ts \<longleftrightarrow>
     many type_args (opt_head type_multiplicity (opt_head type_optional_arg_def (opt_head type_var_ident_opt ts))) = []"
| "shape type_args3 ts \<longleftrightarrow> take 1 ts = [type_var_ident_opt] \<and> field_shape (tl ts)"
| "shape type_args4 ts \<longleftrightarrow> field_shape ts"
| "shape type_optional_arg_def ts \<longleftrightarrow> ts = [type_var_ident, type_nat_const]"
| "shape type_multiplicity ts \<longleftrightarrow> ts = [type_nat_term]"
| "shape type_type_term ts \<longleftrightarrow> ts = [type_term]"
| "shape type_nat_term ts \<longleftrightarrow> ts = [type_term]"
| "shape type_result_type ts \<longleftrightarrow>
     take 1 ts = [type_boxed_type_ident] \<and> (many type_expr (tl ts) = [] \<or> many type_subexpr (tl ts) = [])"
| "shape type_expr ts \<longleftrightarrow> ts \<noteq> [] \<and> many type_subexpr ts = []"
| "shape type_subexpr ts \<longleftrightarrow>
     ts \<noteq> [] \<and> many type_nat_const (opt_head type_term (many type_nat_const ts)) = []"
| "shape type_term ts \<longleftrightarrow>
     (let r = many type_percent ts in
      r \<in> {[type_expr], [type_var_ident], [type_nat_const]} \<or>
      take 1 r = [type_type_ident] \<and> many type_expr (tl r) = [])"
| "shape _ ts \<longleftrightarrow> ts = []"

fun wf_tree :: "tree \<Rightarrow> bool" where
  "wf_tree (Tree t x n f l lp cs) \<longleftrightarrow> shape t (map tree_type cs) \<and> list_all wf_tree cs"

subsection \<open>Rules\<close>

definition yields :: "tree option parser \<Rightarrow> tree_type \<Rightarrow> bool" where
  "yields p u \<longleftrightarrow> (\<forall>s c t. p s = Inr (Some c, t) \<longrightarrow> tree_type c = u \<and> wf_tree c)"

definition grown :: "tree_type \<Rightarrow> tree_type list \<Rightarrow> tree \<Rightarrow> bool" where
  "grown t ts T \<longleftrightarrow> tree_type T = t \<and> map tree_type (tree_c T) = ts \<and> list_all wf_tree (tree_c T)"

definition grows :: "tree_type \<Rightarrow> tree_type list \<Rightarrow> (tree \<Rightarrow> tree option parser) \<Rightarrow> bool" where
  "grows t ts k \<longleftrightarrow> (\<forall>T. grown t ts T \<longrightarrow> yields (k T) t)"

named_theorems grow_rules \<open>how the rest of a parsing function completes a node\<close>

lemma yieldsD: "yields p u \<Longrightarrow> p s = Inr (Some c, t) \<Longrightarrow> tree_type c = u \<and> wf_tree c"
  unfolding yields_def by blast

lemma grownI: "grown t ts T \<Longrightarrow> shape t ts \<Longrightarrow> tree_type T = t \<and> wf_tree T"
  by (cases T) (simp add: grown_def)

lemma grown_add: "grown t ts T \<Longrightarrow> tree_type c = u \<Longrightarrow> wf_tree c \<Longrightarrow> grown t (ts @ [u]) (tree_add_child T c)"
  by (cases T) (auto simp: grown_def tree_add_child_def)

lemma grown_new: "grown t [] (Tree t x n f l lp [])"
  by (simp add: grown_def)

lemma wf_alloc: "shape u [] \<Longrightarrow> wf_tree (tree_alloc u) \<and> tree_type (tree_alloc u) = u"
  by (simp add: tree_alloc_def)

lemma growsD: "grows t ts k \<Longrightarrow> grown t ts T \<Longrightarrow> yields (k T) t"
  by (simp add: grows_def)

lemma yields_bind: "(\<And>x. yields (k x) u) \<Longrightarrow> yields (bind m k) u"
  by (auto simp: yields_def)

lemma yields_fail: "yields (PARSE_FAIL save) u" "yields (raise e) u"
  by (auto simp: yields_def PARSE_FAIL_def)

lemma yields_OK: "tree_type T = u \<Longrightarrow> wf_tree T \<Longrightarrow> yields (PARSE_OK T) u"
  by (simp add: yields_def PARSE_OK_def)

lemma yields_bind_tree:
  "yields p u \<Longrightarrow> yields (k None) t \<Longrightarrow> (\<And>c. tree_type c = u \<Longrightarrow> wf_tree c \<Longrightarrow> yields (k (Some c)) t) \<Longrightarrow> yields (bind p k) t"
  unfolding yields_def by (metis bind_InrE option.exhaust)

lemma yields_INIT: "(\<And>save. grows t [] (k save)) \<Longrightarrow> yields (PARSE_INIT t k) t"
  unfolding PARSE_INIT_def by (intro yields_bind growsD[OF _ grown_new])

lemma grow_ok [grow_rules]: "shape t ts \<Longrightarrow> grows t ts PARSE_OK"
  by (simp add: grows_def yields_def PARSE_OK_def grownI)

lemma grow_ok_eta [grow_rules]: "shape t ts \<Longrightarrow> grows t ts (\<lambda>T. PARSE_OK T)"
  by (rule grow_ok)

lemma grow_fail [grow_rules]: "grows t ts (\<lambda>T. PARSE_FAIL save)" "grows t ts (\<lambda>T. raise e)"
  by (simp_all add: grows_def yields_fail)

lemma grow_gets [grow_rules]: "(\<And>b. grows t ts (k b)) \<Longrightarrow> grows t ts (\<lambda>T. bind m (\<lambda>b. k b T))"
  by (auto simp: grows_def intro: yields_bind)

lemma grow_if [grow_rules]: "grows t ts k \<Longrightarrow> grows t ts l \<Longrightarrow> grows t ts (\<lambda>T. if b then k T else l T)"
  by (simp add: grows_def)

lemma grow_EXPECT [grow_rules]: "grows t ts k \<Longrightarrow> grows t ts (\<lambda>T. EXPECT w save (k T))"
  unfolding EXPECT_def by (intro grow_rules)

lemma grow_PES [grow_rules]:
  "yields p u \<Longrightarrow> grows t (ts @ [u]) k \<Longrightarrow> grows t ts (\<lambda>T. PARSE_TRY_PES p save T k)"
  unfolding grows_def PARSE_TRY_PES_def by (auto intro!: yields_bind_tree yields_fail grown_add)

lemma grow_ADD:
  "shape e [] \<Longrightarrow> grows t (ts @ [e]) k \<Longrightarrow> grows t ts (\<lambda>T. k (PARSE_ADD e T))"
  unfolding grows_def PARSE_ADD_def using wf_alloc by (auto intro!: grown_add)

lemma grow_OPT [grow_rules]:
  "yields p u \<Longrightarrow> shape t (ts @ [u]) \<Longrightarrow> grows t ts k \<Longrightarrow> grows t ts (\<lambda>T. PARSE_TRY_OPT p T (k T))"
  unfolding grows_def PARSE_TRY_OPT_def
  by (auto intro!: yields_bind_tree yields_OK dest: grownI[OF grown_add])

lemma grow_Some:
  "yields p u \<Longrightarrow> grows t (ts @ [u]) k \<Longrightarrow> grows t ts l \<Longrightarrow>
     grows t ts (\<lambda>T. bind p (\<lambda>S. case S of None \<Rightarrow> l T | Some S \<Rightarrow> k (tree_add_child T S)))"
  unfolding grows_def by (auto intro!: yields_bind_tree grown_add)

lemma yields_leaf: "shape u [] \<Longrightarrow> yields (parse_leaf u ok e) u"
  unfolding parse_leaf_def
  by (intro yields_INIT) (auto simp: grows_def yields_def take_token_def PARSE_OK_def PARSE_FAIL_def grown_def split: if_splits)

subsection \<open>Loops\<close>

lemma grow_comma_loop [grow_rules]:
  assumes "yields p u" and "\<And>m. grows t (ts @ replicate (Suc m) u) k"
  shows "grows t ts (\<lambda>T. comma_loop p n save T k)"
  using assms(2)
proof (induction n arbitrary: ts)
  case (Suc n)
  have "grows t ((ts @ [u]) @ replicate (Suc m) u) k" for m using Suc.prems[of "Suc m"] by simp
  from Suc.IH[OF this] Suc.prems[of 0] show ?case unfolding comma_loop.simps using assms(1) by (intro grow_rules) simp_all
qed (simp add: grow_rules)

lemma grow_until_loop [grow_rules]:
  assumes "yields p u" and "\<And>m. grows t (ts @ replicate (Suc m) u) k"
  shows "grows t ts (\<lambda>T. until_loop p c n save T k)"
  using assms(2)
proof (induction n arbitrary: ts)
  case (Suc n)
  have "grows t ((ts @ [u]) @ replicate (Suc m) u) k" for m using Suc.prems[of "Suc m"] by simp
  from Suc.IH[OF this] Suc.prems[of 0] show ?case unfolding until_loop.simps using assms(1) by (intro grow_rules) simp_all
qed (simp add: grow_rules)

lemma grow_while_not_loop [grow_rules]:
  assumes "yields p u" and "\<And>m. grows t (ts @ replicate m u) k"
  shows "grows t ts (\<lambda>T. while_not_loop p c n save T k)"
  using assms(2)
proof (induction n arbitrary: ts)
  case (Suc n)
  have "grows t ((ts @ [u]) @ replicate m u) k" for m using Suc.prems[of "Suc m"] by simp
  from Suc.IH[OF this] Suc.prems[of 0] show ?case unfolding while_not_loop.simps using assms(1) by (intro grow_rules) simp_all
qed (simp add: grow_rules)

lemma grow_percent_loop [grow_rules]:
  assumes "\<And>m. grows t (ts @ replicate m type_percent) k"
  shows "grows t ts (\<lambda>T. percent_loop n save T k)"
  using assms
proof (induction n arbitrary: ts)
  case (Suc n)
  have "grows t ((ts @ [type_percent]) @ replicate m type_percent) k" for m using Suc.prems[of "Suc m"] by simp
  from grow_ADD[OF _ Suc.IH[OF this]] Suc.prems[of 0] show ?case
    unfolding percent_loop.simps by (intro grow_rules) simp_all
qed (simp add: grow_rules)

lemma grow_opt_args_loop:
  assumes "\<And>n. yields (parse_opt_args n) type_opt_args" and "\<And>m. grows t (ts @ replicate m type_opt_args) k"
  shows "grows t ts (\<lambda>T. opt_args_loop f n save T k)"
  using assms(2)
proof (induction n arbitrary: ts)
  case (Suc n)
  have "grows t ((ts @ [type_opt_args]) @ replicate m type_opt_args) k" for m using Suc.prems[of "Suc m"] by simp
  from Suc.IH[OF this] Suc.prems[of 0] assms(1)[of f] show ?case
    unfolding opt_args_loop.simps by (intro grow_rules) simp_all
qed (simp add: grow_rules)

lemma grow_expr_loop:
  assumes "yields p type_subexpr" and "many type_subexpr ts = []" and "cc = length ts"
  shows "grows type_expr ts (\<lambda>T. expr_loop p n save T cc)"
  using assms(2-)
proof (induction n arbitrary: ts cc)
  case (Suc n)
  have "grows type_expr (ts @ [type_subexpr]) (\<lambda>T. expr_loop p n save T (Suc cc))"
    using Suc.prems by (intro Suc.IH) auto
  moreover have "grows type_expr ts (\<lambda>T. if cc < 1 then PARSE_FAIL save else PARSE_OK T)"
    using Suc.prems by (cases "ts = []") (auto intro: grow_rules)
  ultimately show ?case unfolding expr_loop.simps by (rule grow_Some[OF assms(1)])
qed (simp add: grow_rules)

text \<open>The children of a subexpression so far: numbers, and a term among them or not.\<close>

definition summands :: "bool \<Rightarrow> tree_type list \<Rightarrow> bool" where
  "summands was_term ts \<longleftrightarrow>
     (if was_term then \<exists>a b. ts = replicate a type_nat_const @ type_term # replicate b type_nat_const
      else \<exists>a. ts = replicate a type_nat_const)"

lemma summands_shape: "summands w ts \<Longrightarrow> ts \<noteq> [] \<Longrightarrow> shape type_subexpr ts"
  by (auto simp: summands_def opt_head_def dropWhile_append split: if_splits)

lemma summands_add: "summands w ts \<Longrightarrow> summands w (ts @ [type_nat_const])"
  "summands False ts \<Longrightarrow> summands True (ts @ [type_term])"
proof -
  have r: "replicate a x @ [x] = replicate (Suc a) x" for a and x :: tree_type by (simp add: replicate_append_same)
  show "summands w ts \<Longrightarrow> summands w (ts @ [type_nat_const])"
    unfolding summands_def by (cases w) (simp_all, metis append.assoc append_Cons r, metis r)
  show "summands False ts \<Longrightarrow> summands True (ts @ [type_term])"
    unfolding summands_def by (force intro: exI[of _ 0])
qed

lemma grow_subexpr_loop:
  assumes "yields p type_term" and "yields parse_nat_const type_nat_const"
    and "summands was_term ts" and "cc = 0 \<longleftrightarrow> ts = []"
  shows "grows type_subexpr ts (\<lambda>T. subexpr_loop p n save T was_term cc)"
  using assms(3-)
proof (induction n arbitrary: ts was_term cc)
  case (Suc n)
  let ?finish = "\<lambda>T cc. if cc = 0 then PARSE_FAIL save else PARSE_OK T"
  let ?next = "\<lambda>T w. bind (gets (LEX_CHAR (CHR ''+''))) (\<lambda>b.
      if \<not> b then ?finish T (Suc cc) else EXPECT ''+'' save (subexpr_loop p n save T w (Suc cc)))"
  have step: "grows type_subexpr us (\<lambda>T. ?next T w)" if "summands w us" "us \<noteq> []" for w us
    using Suc.IH[OF that(1), of "Suc cc"] that summands_shape[OF that]
    by (intro grow_rules) (auto intro!: grow_rules simp del: shape.simps)
  have fin: "grows type_subexpr ts (\<lambda>T. ?finish T cc)"
    using Suc.prems summands_shape[of was_term ts] by (cases "ts = []") (auto intro!: grow_rules simp del: shape.simps)
  have rest: "grows type_subexpr ts (\<lambda>T. if \<not> was_term then
       bind p (\<lambda>S. case S of None \<Rightarrow> ?finish T cc | Some S \<Rightarrow> ?next (tree_add_child T S) True)
       else ?next T was_term)"
  proof (cases was_term)
    case True
    then have "ts \<noteq> []" using Suc.prems by (auto simp: summands_def)
    from step[OF Suc.prems(1) this] True show ?thesis by (simp only: if_False not_True_eq_False)
  next
    case False
    then show ?thesis
      using grow_Some[OF assms(1) step fin, of True] summands_add(2)[of ts] Suc.prems by simp
  qed
  show ?case
    using grow_Some[OF assms(2) step rest, of was_term] summands_add(1)[OF Suc.prems(1)]
    by (simp add: Let_def)
qed (simp add: grow_rules)

subsection \<open>The parsing functions\<close>

lemma yields_leaves [grow_rules]:
  "yields parse_boxed_type_ident type_boxed_type_ident" "yields parse_full_combinator_id type_full_combinator_id"
  "yields parse_combinator_id type_combinator_id" "yields parse_var_ident type_var_ident"
  "yields parse_var_ident_opt type_var_ident_opt" "yields parse_nat_const type_nat_const"
  "yields parse_type_ident type_type_ident"
  unfolding parse_boxed_type_ident_def parse_full_combinator_id_def parse_combinator_id_def parse_var_ident_def
    parse_var_ident_opt_def parse_nat_const_def parse_type_ident_def
  by (rule yields_leaf, simp)+

lemma yields_terms [grow_rules]:
  "yields (parse_term n) type_term" "yields (parse_subexpr n) type_subexpr" "yields (parse_expr n) type_expr"
proof (induction n)
  case (Suc n)
  have tail: "grows type_term (replicate m type_percent @ [type_type_ident]) (\<lambda>T.
      bind (gets (LEX_CHAR (CHR ''<''))) (\<lambda>b.
        if b then EXPECT ''<'' save (comma_loop (parse_expr n) n save T (\<lambda>T. EXPECT ''>'' save (PARSE_OK T)))
        else PARSE_OK T))" for m save
    by (rule Suc grow_rules | simp add: dropWhile_append)+
  have alt: "grows type_term (replicate m type_percent) (\<lambda>T. PARSE_TRY_OPT parse_type_ident T
      (PARSE_TRY_OPT parse_var_ident T (PARSE_TRY_OPT parse_nat_const T (PARSE_FAIL save))))" for m save
    by (rule grow_rules | simp add: dropWhile_append)+
  show "yields (parse_term (Suc n)) type_term"
    unfolding parse_term.simps Let_def
    by (rule yields_INIT grow_Some[OF yields_leaves(7)] Suc grow_rules | simp add: tail alt dropWhile_append)+
  show "yields (parse_subexpr (Suc n)) type_subexpr"
    unfolding parse_subexpr.simps
    by (intro yields_INIT grow_subexpr_loop Suc yields_leaves) (simp_all add: summands_def)
  show "yields (parse_expr (Suc n)) type_expr"
    unfolding parse_expr.simps by (intro yields_INIT grow_expr_loop Suc) simp_all
qed (simp_all add: yields_fail)

lemma yields_term_wrappers [grow_rules]:
  "yields (parse_nat_term n) type_nat_term" "yields (parse_type_term n) type_type_term"
  unfolding parse_nat_term_def parse_type_term_def by (rule yields_INIT grow_rules | simp)+

lemma yields_multiplicity [grow_rules]: "yields (parse_multiplicity n) type_multiplicity"
  unfolding parse_multiplicity_def by (rule yields_INIT grow_rules | simp)+

lemma yields_finals [grow_rules]:
  "yields parse_final_empty type_final_empty" "yields parse_final_new type_final_new"
  "yields parse_final_final type_final_final"
  unfolding parse_final_empty_def parse_final_new_def parse_final_final_def by (rule yields_INIT grow_rules | simp)+

lemma yields_partial_apps [grow_rules]:
  "yields (parse_partial_comb_app_decl n) type_partial_comb_app_decl"
  "yields (parse_partial_type_app_decl n) type_partial_type_app_decl"
  unfolding parse_partial_comb_app_decl_def parse_partial_type_app_decl_def
  by (rule yields_INIT grow_rules | simp)+

lemma yields_optional_arg_def [grow_rules]: "yields parse_optional_arg_def type_optional_arg_def"
  unfolding parse_optional_arg_def_def by (rule yields_INIT grow_rules | simp)+

lemma grow_opt_arg_def:
  "grows t (ts @ [type_optional_arg_def]) k \<Longrightarrow> grows t ts k \<Longrightarrow> grows t ts (\<lambda>T. opt_arg_def T k)"
  unfolding opt_arg_def_def by (rule grow_Some yields_optional_arg_def grow_gets | simp)+

lemma grow_exclam_type_term:
  "grows t (ts @ [type_exclam, type_type_term]) k \<Longrightarrow> grows t (ts @ [type_type_term]) k \<Longrightarrow>
     grows t ts (\<lambda>T. exclam_type_term n save T k)"
  unfolding exclam_type_term_def
  by (rule grow_rules grow_ADD[where k = "\<lambda>T. PARSE_TRY_PES p save T k" for p save k] | simp)+

lemma grow_bind_Some:
  assumes "yields p u" and "grows t (ts @ [u]) k" and "grows t ts l"
  shows "grows t ts (\<lambda>T. bind p (\<lambda>S. bind m (\<lambda>b. case S of
      Some S \<Rightarrow> if b then k (tree_add_child T S) else l T | None \<Rightarrow> l T)))"
  unfolding grows_def
proof (intro allI impI yields_bind_tree[OF assms(1)] yields_bind)
  show "yields (case None of None \<Rightarrow> l T | Some S \<Rightarrow> if b then k (tree_add_child T S) else l T) t" if "grown t ts T" for T b
    using growsD[OF assms(3) that] by simp
  show "yields (case Some c of None \<Rightarrow> l T | Some S \<Rightarrow> if b then k (tree_add_child T S) else l T) t"
    if "grown t ts T" "tree_type c = u" "wf_tree c" for T c b
    using growsD[OF assms(3) that(1)] growsD[OF assms(2) grown_add[OF that]] by simp
qed

lemma grow_args2_name:
  assumes "grows t (ts @ [type_var_ident_opt]) k" and "grows t ts k"
  shows "grows t ts (\<lambda>T. args2_name save T k)"
proof -
  have "grows t (ts @ [type_var_ident_opt]) (\<lambda>T. EXPECT '':'' save (k T))" "grows t ts (\<lambda>T. bind (load_parse save) (\<lambda>_. k T))"
    using assms by (auto intro: grow_rules)
  from grow_bind_Some[OF yields_leaves(5) this] show ?thesis unfolding args2_name_def .
qed

lemma grow_args2_mult:
  assumes "grows t (ts @ [type_multiplicity]) k" and "grows t ts k"
  shows "grows t ts (\<lambda>T. args2_mult n save T k)"
proof -
  have "grows t (ts @ [type_multiplicity]) (\<lambda>T. EXPECT ''*'' save (k T))"
    "grows t ts (\<lambda>T. bind (load_parse save2) (\<lambda>_. k T))" for save2
    using assms by (auto intro: grow_rules)
  from grow_bind_Some[OF yields_multiplicity this] show ?thesis unfolding args2_mult_def by (rule grow_gets)
qed

lemma field_shapes:
  "field_shape [type_type_term]" "field_shape [type_exclam, type_type_term]"
  "field_shape [type_optional_arg_def, type_type_term]" "field_shape [type_optional_arg_def, type_exclam, type_type_term]"
  by (simp_all add: field_shape_def opt_head_def)

lemma yields_fields [grow_rules]:
  "yields (parse_args4 n) type_args4" "yields (parse_args3 n) type_args3" "yields (parse_args1 n) type_args1"
  unfolding parse_args4_def parse_args3_def parse_args1_def
  by (rule yields_INIT grow_opt_arg_def grow_exclam_type_term grow_rules | simp add: field_shapes dropWhile_append)+

lemma yields_args [grow_rules]: "yields (parse_args2 n) type_args2" "yields (parse_args n) type_args"
proof (induction n)
  case (Suc n)
  show "yields (parse_args2 (Suc n)) type_args2" unfolding parse_args2.simps
    by (rule yields_INIT grow_args2_name grow_opt_arg_def grow_args2_mult Suc grow_rules | simp add: opt_head_def dropWhile_append)+
  show "yields (parse_args (Suc n)) type_args" unfolding parse_args.simps
    by (rule yields_INIT Suc grow_rules | simp)+
qed (simp_all add: yields_fail)

lemma yields_opt_args [grow_rules]: "yields (parse_opt_args n) type_opt_args"
  unfolding parse_opt_args_def by (rule yields_INIT grow_rules | simp add: dropWhile_append)+

lemma yields_decl_parts [grow_rules]:
  "yields parse_final_decl type_final_decl" "yields (parse_partial_app_decl n) type_partial_app_decl"
  "yields (parse_result_type n) type_result_type" "yields parse_builtin_combinator_decl type_builtin_combinator_decl"
  unfolding parse_final_decl_def parse_partial_app_decl_def parse_result_type_def parse_builtin_combinator_decl_def
  by (rule yields_INIT grow_rules | simp)+

lemma yields_combinator_decl [grow_rules]: "yields (parse_combinator_decl n) type_combinator_decl"
  unfolding parse_combinator_decl_def
  by (rule yields_INIT grow_opt_args_loop yields_opt_args grow_rules grow_ADD[where k = "\<lambda>T. PARSE_TRY_PES p save T k" for p save k]
      | simp add: dropWhile_append)+

lemma yields_declaration [grow_rules]: "yields (parse_declaration n) type_declaration"
  unfolding parse_declaration_def by (rule yields_INIT grow_rules | simp)+

lemma grow_declarations_loop:
  assumes "t = type_fun_declarations \<or> t = type_constr_declarations"
  shows "grows t (replicate m type_declaration) (\<lambda>T. declarations_loop f n save T)"
proof (induction n arbitrary: m)
  case (Suc n)
  have r: "replicate m type_declaration @ [type_declaration] = replicate (Suc m) type_declaration"
    by (simp add: replicate_append_same)
  have "shape t (replicate (Suc m) type_declaration)" using assms by auto
  with Suc[of "Suc m"] show ?case unfolding declarations_loop.simps
    by (intro grow_PES[OF yields_declaration] grow_rules; simp only: r)
qed (simp add: grows_def yields_fail)

lemma yields_sections [grow_rules]:
  "yields (parse_constr_declarations n) type_constr_declarations" "yields (parse_fun_declarations n) type_fun_declarations"
  unfolding parse_constr_declarations_def parse_fun_declarations_def
  using grow_declarations_loop[of _ 0] by (auto intro!: yields_INIT grow_rules)

lemma alternating_append:
  "alternating a b (xs @ ys) \<longleftrightarrow>
     alternating a b xs \<and> (if even (length xs) then alternating a b ys else alternating b a ys)"
  by (induction a b xs rule: alternating.induct) auto

lemma grow_program_loop:
  assumes "alternating type_constr_declarations type_fun_declarations ts" and "even (length ts)"
  shows "grows type_tl_program ts (\<lambda>T. program_loop f n save T)"
  using assms
proof (induction n arbitrary: ts)
  case (Suc n)
  have "grows type_tl_program ((ts @ [type_constr_declarations]) @ [type_fun_declarations]) (\<lambda>T. program_loop f n save T)"
    using Suc.prems by (intro Suc.IH) (simp_all add: alternating_append)
  moreover have "shape type_tl_program (ts @ [type_constr_declarations])"
    "shape type_tl_program ((ts @ [type_constr_declarations]) @ [type_fun_declarations])"
    using Suc.prems by (simp_all add: alternating_append)
  ultimately show ?case unfolding program_loop.simps
    by (intro grow_PES[OF yields_sections(1)] grow_PES[OF yields_sections(2)] grow_gets grow_if grow_ok_eta grow_fail)
qed (simp add: grows_def yields_fail)

lemma yields_program: "yields (parse_program n) type_tl_program"
  unfolding parse_program_def by (intro yields_INIT grow_program_loop) simp_all

lemma yields_tl_parse_lex: "yields (tl_parse_lex n P) type_tl_program"
  unfolding tl_parse_lex_def using yields_program[of n]
  by (intro yields_bind) (simp add: yields_def)

subsection \<open>Property\<close>

text \<open>
  C12: What the parser returns is a tree of the grammar: every node has the children, in number, kind
  and order, that the semantic pass reads from it by position.
\<close>

theorem tl_parse_lex_shape:
  assumes "tl_parse_lex n P s = Inr (Some T, t)"
  shows "tree_type T = type_tl_program \<and> wf_tree T"
  using yieldsD[OF yields_tl_parse_lex assms] .

text \<open>The program without declarations: a file that holds a newline only.\<close>

definition nl_parse :: parse where
  "nl_parse = \<lparr>ptext = [NL], ppos = 0, plen = 1, pline = 0, pline_pos = 0,
     plex = \<lparr>lptr = PText 0, llen = 0, ltype = lex_none, lflags = 0\<rparr>\<rparr>"

definition empty_program :: tree where
  "empty_program = Tree type_tl_program [] 0 0 0 0 [Tree type_constr_declarations [] 0 0 0 0 []]"

lemma nl_init: "tl_init_parse_file (Some [NL]) = Some nl_parse"
  by (simp add: tl_init_parse_file_def nl_parse_def)

lemma nl_run: "\<exists>t. tl_parse_lex (Suc (Suc n)) nl_parse (initial_lexst nl_parse) = Inr (Some empty_program, t)"
  by (simp add: nl_parse_def tl_parse_lex_def initial_lexst_def load_parse_def text_at_def bind_apply parse_lex_def nextch_def
      lex_fail_def parse_error_def set_lex_def blank_def is_whitespace_def is_punct_def is_letter_def is_uletter_def
      is_lletter_def is_digit_def schar_def parse_program_def PARSE_INIT_def save_parse_def program_loop.simps PARSE_TRY_PES_def
      parse_constr_declarations_def at_section_end_def PARSE_OK_def empty_program_def tree_add_child_def)

theorem tl_parse_lex_shape_witness:
  "\<exists>t. tl_parse_lex 9 nl_parse (initial_lexst nl_parse) = Inr (Some empty_program, t) \<and> wf_tree empty_program"
proof -
  obtain t where t: "tl_parse_lex 9 nl_parse (initial_lexst nl_parse) = Inr (Some empty_program, t)"
    using nl_run[of 7] by (auto simp: eval_nat_numeral)
  with tl_parse_lex_shape[OF t] show ?thesis by blast
qed

end
