(* ===== verification/TL_NameTrees.thy ===== *)
theory TL_NameTrees
  imports TL_Registry
begin

section \<open>Trees of named things (tl-parser-tree.h over strcmp)\<close>

text \<open>
  The treaps of types, constructors, functions, variables and fields are all ordered by \<open>strcmp\<close> on a
  name. This theory interprets the order contract for an arbitrary key and states what the generated
  operations do on such a tree.
\<close>

interpretation name_order: tree_order strcmp UNIV key for key :: "'x \<Rightarrow> string"
  by (rule strcmp_order)

fun insert_all :: "('x \<Rightarrow> string) \<Rightarrow> ('x \<times> int) list \<Rightarrow> 'x treap \<Rightarrow> fault + 'x treap" where
  "insert_all key [] T = Inr T"
| "insert_all key ((x, y) # ps) T =
     (case tree_insert (probe strcmp key (key x)) T x y of Inl e \<Rightarrow> Inl e | Inr T' \<Rightarrow> insert_all key ps T')"

definition treap_ok :: "('x \<Rightarrow> string) \<Rightarrow> 'x treap \<Rightarrow> bool" where
  "treap_ok key T \<longleftrightarrow> bst strcmp UNIV key T \<and> heap_ok T"

lemma treap_ok_insert:
  assumes "treap_ok key T" and "key x \<notin> key ` set (inorder T)"
  shows "\<exists>T'. tree_insert (probe strcmp key (key x)) T x y = Inr T' \<and> treap_ok key T' \<and>
     inorder T' = ins_ordered strcmp key x (inorder T)"
  using name_order.insert_bst[of key T x y] heap_ok_insert assms unfolding treap_ok_def by (metis UNIV_I)

lemma treap_ok_check: "treap_ok key T \<Longrightarrow> tree_check (\<lambda>a b. strcmp (key a) (key b)) T"
proof (induction T)
  case (TNode l x y r)
  have "tx u \<in> set (inorder u)" if "u \<noteq> TNil" for u :: "'a treap" using that by (cases u) auto
  with TNode show ?case
    using strcmp_flip by (auto simp: treap_ok_def bst_TNode)
qed simp

lemma insert_all_ok:
  assumes "treap_ok key T" and "distinct (map (key \<circ> fst) ps)"
    and "key ` set (inorder T) \<inter> (key \<circ> fst) ` set ps = {}"
  shows "\<exists>T'. insert_all key ps T = Inr T' \<and> treap_ok key T' \<and> set (inorder T') = set (inorder T) \<union> fst ` set ps"
  using assms
proof (induction ps arbitrary: T)
  case (Cons p ps)
  obtain x y where p: "p = (x, y)" by (cases p) auto
  have "key x \<notin> key ` set (inorder T)" using Cons.prems(3) by (auto simp: p)
  from treap_ok_insert[OF Cons.prems(1) this, of y] obtain U where U:
    "tree_insert (probe strcmp key (key x)) T x y = Inr U" "treap_ok key U"
    "inorder U = ins_ordered strcmp key x (inorder T)" by blast
  have "key ` set (inorder U) \<inter> (key \<circ> fst) ` set ps = {}"
    using Cons.prems(2,3) by (auto simp: U(3) p)
  from Cons.IH[OF U(2) _ this] Cons.prems(2) U(1,3) show ?case by (auto simp: p)
qed auto

text \<open>
  C24: The trees of named things are independent of chance: inserting distinct names succeeds in every
  order and with all priorities, and the sequence in which the tree is traversed (and so the order of
  the records in the output file) is always the same, the one of the names. The
  tree passes the check the code has for it.
\<close>

theorem treap_traversal_unique:
  assumes "distinct (map (key \<circ> fst) ps)" and "distinct (map (key \<circ> fst) qs)" and "fst ` set ps = fst ` set qs"
  shows "\<exists>T U. insert_all key ps TNil = Inr T \<and> insert_all key qs TNil = Inr U \<and>
     inorder T = inorder U \<and> ordered strcmp key (inorder T) \<and> set (inorder T) = fst ` set ps \<and> tree_check (\<lambda>a b. strcmp (key a) (key b)) T"
proof -
  have e: "treap_ok key TNil" by (simp add: treap_ok_def)
  from insert_all_ok[OF e assms(1)] obtain T where T: "insert_all key ps TNil = Inr T" "treap_ok key T" "set (inorder T) = fst ` set ps" by auto
  from insert_all_ok[OF e assms(2)] obtain U where U: "insert_all key qs TNil = Inr U" "treap_ok key U" "set (inorder U) = fst ` set qs" by auto
  have "inorder T = inorder U"
    using T U assms(3) by (intro name_order.ordered_unique) (auto simp: treap_ok_def bst_def)
  with T U treap_ok_check[OF T(2)] show ?thesis by (auto simp: treap_ok_def bst_def)
qed

theorem treap_traversal_unique_witness:
  "\<exists>T U. insert_all id [(''b'', 1), (''a'', 7)] TNil = Inr T \<and> insert_all id [(''a'', 2), (''b'', -5)] TNil = Inr U \<and>
     inorder T = inorder U"
  using treap_traversal_unique[of "id :: string \<Rightarrow> string" "[(''b'', 1), (''a'', 7)]" "[(''a'', 2), (''b'', -5)]"]
  by (auto simp del: insert_all.simps)

text \<open>
  Looking up, inserting and deleting on a tree of named things, on every branch: a lookup finds
  the element with the name; inserting an absent name and deleting a present one keep the search order and the heap
  order and change nothing else; deleting an absent name aborts.
\<close>

theorem treap_operations:
  assumes "treap_ok key T"
  shows "tree_lookup (probe strcmp key w) T = find (\<lambda>z. key z = w) (inorder T) \<and>
    (key x \<notin> key ` set (inorder T) \<longrightarrow> (\<exists>U. tree_insert (probe strcmp key (key x)) T x y = Inr U \<and> treap_ok key U \<and>
        inorder U = ins_ordered strcmp key x (inorder T))) \<and>
    (case tree_delete (probe strcmp key w) T of
       Inr U \<Rightarrow> treap_ok key U \<and> w \<in> key ` set (inorder T) \<and> inorder U = filter (\<lambda>z. key z \<noteq> w) (inorder T)
     | Inl e \<Rightarrow> e = Assertion \<and> w \<notin> key ` set (inorder T))"
proof -
  have T: "bst strcmp UNIV key T" "heap_ok T" using assms by (auto simp: treap_ok_def)
  have "case tree_delete (probe strcmp key w) T of
       Inr U \<Rightarrow> treap_ok key U \<and> w \<in> key ` set (inorder T) \<and> inorder U = filter (\<lambda>z. key z \<noteq> w) (inorder T)
     | Inl e \<Rightarrow> e = Assertion \<and> w \<notin> key ` set (inorder T)"
  proof (cases "w \<in> key ` set (inorder T)")
    case True
    from name_order.delete_inorder[OF T(1) UNIV_I True] obtain U where
      U: "tree_delete (probe strcmp key w) T = Inr U" "inorder U = filter (\<lambda>z. key z \<noteq> w) (inorder T)" by blast
    then show ?thesis
      using True heap_ok_delete[OF U(1) T(2)] name_order.bst_filter[OF T(1) U(2)] by (simp add: treap_ok_def)
  next
    case False
    with name_order.delete_missing[OF T(1)] show ?thesis by simp
  qed
  then show ?thesis using name_order.lookup_find[OF T(1)] treap_ok_insert[OF assms, of x y] by blast
qed

theorem treap_operations_witness:
  "tree_lookup (probe strcmp id ''a'') (TNode (TNode TNil ''a'' 1 TNil) ''b'' 5 TNil) = Some ''a'' \<and>
   tree_delete (probe strcmp id ''c'') (TNode (TNode TNil ''a'' 1 TNil) ''b'' 5 TNil) = Inl Assertion"
proof -
  have "treap_ok id (TNode (TNode TNil ''a'' 1 TNil) ''b'' 5 TNil)" by (simp add: treap_ok_def bst_def ordered_def)
  note t = treap_operations[OF this, where x = "''c''" and y = 0]
  have "''c'' \<notin> id ` set (inorder (TNode (TNode TNil ''a'' 1 TNil) ''b'' 5 TNil))" by simp
  with t[of "''c''"] have "tree_delete (probe strcmp id ''c'') (TNode (TNode TNil ''a'' 1 TNil) ''b'' 5 TNil) = Inl Assertion"
    by (cases "tree_delete (probe strcmp id ''c'') (TNode (TNode TNil ''a'' 1 TNil) ''b'' 5 TNil)") (simp_all only: sum.case, blast+)
  moreover have "tree_lookup (probe strcmp id ''a'') (TNode (TNode TNil ''a'' 1 TNil) ''b'' 5 TNil) =
      find (\<lambda>z. id z = ''a'') (inorder (TNode (TNode TNil ''a'' 1 TNil) ''b'' 5 TNil))"
    using t[of "''a''"] by blast
  ultimately show ?thesis by simp
qed

end
