(* ===== verification/TL_Config.thy ===== *)
theory TL_Config
  imports TL_Crc32
begin

section \<open>The reader of compiled schemes (tdtl: tl_simple_parser.h, tl_core.h, tl_config.cpp)\<close>

text \<open>
  The code generators of the repository read the file that \<open>tlc\<close> writes with \<open>tl_config_parser\<close>. The
  types of a configuration are shared and change while the file is read, so a \<open>tl_type *\<close> is the
  position of the type in the vector \<open>types\<close>, and a pointer to a function its position in
  \<open>functions\<close>. A 32-bit number is a word, read by \<open>sint\<close> where the code compares it. \<open>std::abort\<close>, a
  failed \<open>assert\<close> and an uncaught exception all abort: \<open>Assertion\<close>. The parameter \<open>int *var_count\<close> of the
  reading functions always points to the variable count of the combinator being read; here it is the field
  \<open>var_count\<close> of the state. Reading a type expression takes fuel; the length of the data is enough, since every
  level of nesting takes four bytes.
\<close>

unbundle bit_operations_syntax

subsection \<open>The byte parser (tl_simple_parser.h)\<close>

text \<open>
  \<open>sdata\<close> are the bytes that may be read from the pointer \<open>data\<close> on, \<open>sdata_len\<close> is the member
  \<open>data_len\<close>. After an error \<open>data\<close> points to a literal of eight zero bytes and its terminator.
\<close>

record tl_simple_parser =
  sdata :: "u8 list"
  sdata_pos :: nat
  sdata_len :: nat
  serror :: "string option"
  serror_pos :: nat

type_synonym 'a sp = "(tl_simple_parser, 'a) comp"

definition new_simple_parser :: "u8 list \<Rightarrow> nat \<Rightarrow> tl_simple_parser" where
  "new_simple_parser bs n = \<lparr>sdata = bs, sdata_pos = 0, sdata_len = n, serror = None, serror_pos = 0\<rparr>"

definition set_error :: "string \<Rightarrow> unit sp" where
  "set_error e =
     bind (gets serror) (\<lambda>err.
     if err = None then
       modify (\<lambda>s. s\<lparr>serror := Some e, serror_pos := sdata_pos s, sdata := replicate 9 0, sdata_len := 0\<rparr>)
     else
       bind (modify (\<lambda>s. s\<lparr>sdata := replicate 9 0\<rparr>)) (\<lambda>_.
       bind (gets sdata_len) (\<lambda>n. check (n = 0))))"

definition check_len :: "nat \<Rightarrow> unit sp" where
  "check_len n =
     bind (gets sdata_len) (\<lambda>m.
     if m < n then set_error ''Not enough data to read'' else modify (\<lambda>s. s\<lparr>sdata_len := m - n\<rparr>))"

definition read_bytes :: "nat \<Rightarrow> nat \<Rightarrow> u8 list sp" where
  "read_bytes k n =
     bind (gets sdata) (\<lambda>d. if k + n \<le> length d then ret (take n (drop k d)) else raise OutOfBounds)"

definition advance :: "nat \<Rightarrow> unit sp" where
  "advance n = modify (\<lambda>s. s\<lparr>sdata := drop n (sdata s), sdata_pos := sdata_pos s + n\<rparr>)"

fun le_word :: "u8 list \<Rightarrow> u32" where
  "le_word [a, b, c, d] = le32 a b c d"
| "le_word _ = 0"

definition fetch_int :: "u32 sp" where
  "fetch_int =
     bind (check_len 4) (\<lambda>_.
     bind (read_bytes 0 4) (\<lambda>b.
     bind (advance 4) (\<lambda>_. ret (le_word b))))"

definition fetch_long :: "u64 sp" where
  "fetch_long =
     bind (check_len 8) (\<lambda>_.
     bind (read_bytes 0 8) (\<lambda>b.
     bind (advance 8) (\<lambda>_.
     ret (ucast (le_word (take 4 b)) OR push_bit 32 (ucast (le_word (drop 4 b)))))))"

abbreviation chars :: "u8 list \<Rightarrow> string" where
  "chars bs \<equiv> map (\<lambda>b. char_of (unat b)) bs"

definition fetch_string :: "string sp" where
  "fetch_string =
     bind (check_len 4) (\<lambda>_.
     bind (read_bytes 0 1) (\<lambda>b0.
     let n = unat (hd b0) in
     if n < 254 then
       bind (check_len (n div 4 * 4)) (\<lambda>_.
       bind (read_bytes 1 n) (\<lambda>w.
       bind (advance ((n div 4 + 1) * 4)) (\<lambda>_. ret (chars w))))
     else if n = 254 then
       bind (read_bytes 1 3) (\<lambda>b.
       let m = unat (b ! 0) + unat (b ! 1) * 256 + unat (b ! 2) * 65536 in
       bind (check_len ((m + 3) div 4 * 4)) (\<lambda>_.
       bind (read_bytes 4 m) (\<lambda>w.
       bind (advance ((m + 7) div 4 * 4)) (\<lambda>_. ret (chars w)))))
     else bind (set_error ''Can't fetch string, 255 found'') (\<lambda>_. ret [])))"

definition fetch_end :: "unit sp" where
  "fetch_end =
     bind (gets sdata_len) (\<lambda>n. if n \<noteq> 0 then set_error ''Too much data to fetch'' else ret ())"

subsection \<open>Types, combinators and trees (tl_core.h)\<close>

definition ID_VAR_NUM :: u32 where "ID_VAR_NUM = 0x70659eff"
definition ID_VAR_TYPE :: u32 where "ID_VAR_TYPE = 0x2cecf817"

definition FLAG_NOVAR :: u32 where "FLAG_NOVAR = 2 ^ 21"
definition FLAG_BARE :: u32 where "FLAG_BARE = 1"
definition FLAG_COMPLEX :: u32 where "FLAG_COMPLEX = 2"
definition FLAG_OPT_VAR_core :: u32 where "FLAG_OPT_VAR_core = 2 ^ 17"
definition FLAG_EXCL_core :: u32 where "FLAG_EXCL_core = 2 ^ 18"

datatype tl_tree =
    tl_tree_type (t_flags: u32) (t_type: nat) (t_children: "tl_tree list")
  | tl_tree_nat_const (t_flags: u32) (t_num: int)
  | tl_tree_var_type (t_flags: u32) (t_var_num: int)
  | tl_tree_var_num (t_flags: u32) (t_var_num: int) (t_diff: int)
  | tl_tree_array (t_flags: u32) (t_multiplicity: tl_tree) (t_args: "tl_arg list")
and tl_arg =
    Arg (a_name: string) (a_flags: u32) (a_var_num: int) (a_exist_var_num: int) (a_exist_var_bit: int)
      (a_type: tl_tree)

record tl_combinator =
  cb_id :: u32
  cb_name :: string
  cb_var_count :: int
  cb_type_id :: u32
  cb_args :: "tl_arg list"
  cb_result :: "tl_tree option"

record tl_ctype =
  ct_id :: u32
  ct_name :: string
  ct_arity :: int
  ct_flags :: u32
  ct_simple_constructors :: int
  ct_constructors_num :: nat
  ct_constructors :: "tl_combinator list"

text \<open>\<open>tl_type::add_constructor\<close> (tl_core.cpp)\<close>

definition add_constructor :: "tl_combinator \<Rightarrow> tl_ctype \<Rightarrow> fault + tl_ctype" where
  "add_constructor c t =
     (let t = t\<lparr>ct_constructors := ct_constructors t @ [c]\<rparr> in
      if length (ct_constructors t) \<le> ct_constructors_num t then Inr t else Inl Assertion)"

subsection \<open>Configurations (tl_config)\<close>

record tl_config =
  cf_types :: "tl_ctype list"
  id_to_type :: "u32 \<Rightarrow> nat option"
  name_to_type :: "string \<Rightarrow> nat option"
  cf_functions :: "tl_combinator list"
  id_to_function :: "u32 \<Rightarrow> nat option"
  name_to_function :: "string \<Rightarrow> nat option"

definition empty_config :: tl_config where
  "empty_config = \<lparr>cf_types = [], id_to_type = Map.empty, name_to_type = Map.empty, cf_functions = [],
     id_to_function = Map.empty, name_to_function = Map.empty\<rparr>"

definition cfg_add_type :: "tl_ctype \<Rightarrow> tl_config \<Rightarrow> tl_config" where
  "cfg_add_type t c =
     c\<lparr>cf_types := cf_types c @ [t], id_to_type := (id_to_type c)(ct_id t \<mapsto> length (cf_types c)),
       name_to_type := (name_to_type c)(ct_name t \<mapsto> length (cf_types c))\<rparr>"

definition cfg_get_type :: "tl_config \<Rightarrow> u32 \<Rightarrow> fault + nat" where
  "cfg_get_type c i = (case id_to_type c i of None \<Rightarrow> Inl Assertion | Some t \<Rightarrow> Inr t)"

definition cfg_add_function :: "tl_combinator \<Rightarrow> tl_config \<Rightarrow> tl_config" where
  "cfg_add_function f c =
     c\<lparr>cf_functions := cf_functions c @ [f], id_to_function := (id_to_function c)(cb_id f \<mapsto> length (cf_functions c)),
       name_to_function := (name_to_function c)(cb_name f \<mapsto> length (cf_functions c))\<rparr>"

subsection \<open>Constants (tl_config.cpp)\<close>

definition TLS_SCHEMA_V2_cfg :: u32 where "TLS_SCHEMA_V2_cfg = 0x3a2f9be2"
definition TLS_SCHEMA_V3_cfg :: u32 where "TLS_SCHEMA_V3_cfg = 0xe4a8604b"
definition TLS_SCHEMA_V4_cfg :: u32 where "TLS_SCHEMA_V4_cfg = 0x90ac88d7"
definition TLS_TYPE_cfg :: u32 where "TLS_TYPE_cfg = 0x12eb4386"
definition TLS_COMBINATOR_cfg :: u32 where "TLS_COMBINATOR_cfg = 0x5c0a1ed5"
definition TLS_COMBINATOR_LEFT_BUILTIN_cfg :: u32 where "TLS_COMBINATOR_LEFT_BUILTIN_cfg = 0xcd211f63"
definition TLS_COMBINATOR_LEFT_cfg :: u32 where "TLS_COMBINATOR_LEFT_cfg = 0x4c12c6d9"
definition TLS_COMBINATOR_RIGHT_V2_cfg :: u32 where "TLS_COMBINATOR_RIGHT_V2_cfg = 0x2c064372"
definition TLS_ARG_V2_cfg :: u32 where "TLS_ARG_V2_cfg = 0x29dfe61b"
definition TLS_EXPR_NAT_cfg :: u32 where "TLS_EXPR_NAT_cfg = 0xdcb49bd8"
definition TLS_EXPR_TYPE_cfg :: u32 where "TLS_EXPR_TYPE_cfg = 0xecc9da78"
definition TLS_NAT_CONST_OLD_cfg :: u32 where "TLS_NAT_CONST_OLD_cfg = 0xdcb49bd8"
definition TLS_NAT_CONST_cfg :: u32 where "TLS_NAT_CONST_cfg = 0x8ce940b1"
definition TLS_NAT_VAR_cfg :: u32 where "TLS_NAT_VAR_cfg = 0x4e8a14f0"
definition TLS_TYPE_VAR_cfg :: u32 where "TLS_TYPE_VAR_cfg = 0x0142ceae"
definition TLS_ARRAY_cfg :: u32 where "TLS_ARRAY_cfg = 0xd9fb20de"
definition TLS_TYPE_EXPR_cfg :: u32 where "TLS_TYPE_EXPR_cfg = 0xc1863d08"

subsection \<open>The parser (tl_config_parser)\<close>

record tl_config_parser =
  cp :: tl_simple_parser
  schema_version :: int
  config :: tl_config
  var_count :: int

type_synonym 'a cfg = "(tl_config_parser, 'a) comp"

definition try_parse :: "'a sp \<Rightarrow> 'a cfg" where
  "try_parse m =
     bind (\<lambda>s. case m (cp s) of Inl e \<Rightarrow> Inl e | Inr (x, p) \<Rightarrow> Inr (x, s\<lparr>cp := p\<rparr>)) (\<lambda>x.
     bind (gets (serror \<circ> cp)) (\<lambda>err. if err \<noteq> None then raise Assertion else ret x))"

abbreviation try_parse_int :: "u32 cfg" where "try_parse_int \<equiv> try_parse fetch_int"
abbreviation try_parse_long :: "u64 cfg" where "try_parse_long \<equiv> try_parse fetch_long"
abbreviation try_parse_string :: "string cfg" where "try_parse_string \<equiv> try_parse fetch_string"

definition get_schema_version :: "u32 \<Rightarrow> int" where
  "get_schema_version v =
     (if v = TLS_SCHEMA_V4_cfg then 4 else if v = TLS_SCHEMA_V3_cfg then 3
      else if v = TLS_SCHEMA_V2_cfg then 2 else -1)"

text \<open>\<open>if (var_num >= *var_count) { *var_count = var_num + 1; }\<close>\<close>

definition note_var :: "int \<Rightarrow> unit cfg" where
  "note_var v = modify (\<lambda>s. if var_count s \<le> v then s\<lparr>var_count := v + 1\<rparr> else s)"

text \<open>A counted loop that collects what it reads.\<close>

primrec read_times :: "nat \<Rightarrow> 'a cfg \<Rightarrow> 'a list cfg" where
  "read_times 0 m = ret []"
| "read_times (Suc n) m = bind m (\<lambda>x. bind (read_times n m) (\<lambda>xs. ret (x # xs)))"

definition read_num_const :: "tl_tree cfg" where
  "read_num_const = bind try_parse_int (\<lambda>w. ret (tl_tree_nat_const FLAG_NOVAR (sint w)))"

definition read_num_var :: "tl_tree cfg" where
  "read_num_var =
     bind try_parse_int (\<lambda>diff.
     bind try_parse_int (\<lambda>v.
     bind (note_var (sint v)) (\<lambda>_.
     ret (tl_tree_var_num 0 (sint v) (sint diff)))))"

definition read_type_var :: "tl_tree cfg" where
  "read_type_var =
     bind try_parse_int (\<lambda>v.
     bind try_parse_int (\<lambda>f.
     bind (note_var (sint v)) (\<lambda>_.
     bind (check (f AND (FLAG_NOVAR OR FLAG_BARE) = 0)) (\<lambda>_.
     ret (tl_tree_var_type f (sint v))))))"

definition read_nat_expr :: "tl_tree cfg" where
  "read_nat_expr =
     bind try_parse_int (\<lambda>t.
     if t = TLS_NAT_CONST_OLD_cfg \<or> t = TLS_NAT_CONST_cfg then read_num_const
     else if t = TLS_NAT_VAR_cfg then read_num_var
     else raise Assertion)"

text \<open>
  The remaining functions call one another through \<open>read_type_expr\<close>, which they take as the argument
  \<open>re\<close>.
\<close>

definition read_expr :: "tl_tree cfg \<Rightarrow> tl_tree cfg" where
  "read_expr re =
     bind try_parse_int (\<lambda>t.
     if t = TLS_EXPR_NAT_cfg then read_nat_expr
     else if t = TLS_EXPR_TYPE_cfg then re
     else raise Assertion)"

text \<open>\<open>flags\<close> without \<open>FLAG_NOVAR\<close> when a part has variables.\<close>

definition novar_of :: "u32 \<Rightarrow> u32 list \<Rightarrow> u32" where
  "novar_of f fs = (if \<exists>g \<in> set fs. g AND FLAG_NOVAR = 0 then f AND NOT FLAG_NOVAR else f)"

definition read_arg :: "u32 \<Rightarrow> u32 \<Rightarrow> tl_tree cfg \<Rightarrow> tl_arg cfg" where
  "read_arg opt_field has_vars re =
     bind try_parse_int (\<lambda>m.
     bind (check (m = TLS_ARG_V2_cfg)) (\<lambda>_.
     bind try_parse_string (\<lambda>name.
     bind try_parse_int (\<lambda>f.
     let is_optional = f AND opt_field \<noteq> 0;
         f = (if is_optional then f AND NOT opt_field else f) in
     bind (if f AND has_vars \<noteq> 0
           then bind try_parse_int (\<lambda>v. ret (f AND NOT has_vars, sint v))
           else ret (f, -1)) (\<lambda>(f, v).
     bind (note_var v) (\<lambda>_.
     bind (if is_optional
           then bind try_parse_int (\<lambda>a. bind try_parse_int (\<lambda>b. ret (sint a, sint b)))
           else ret (-1, 0)) (\<lambda>(ev, eb).
     bind re (\<lambda>t.
     ret (Arg name (if t_flags t AND FLAG_NOVAR \<noteq> 0 then f OR FLAG_NOVAR else f) v ev eb t)))))))))"

definition read_args_list :: "tl_tree cfg \<Rightarrow> tl_arg list cfg" where
  "read_args_list re =
     bind (gets schema_version) (\<lambda>ver.
     let opt_field = (if 3 \<le> ver then 4 else 2); has_vars = opt_field XOR 6 in
     bind try_parse_int (\<lambda>n.
     bind (check (0 \<le> sint n)) (\<lambda>_.
     read_times (nat (sint n)) (read_arg opt_field has_vars re))))"

definition read_array :: "tl_tree cfg \<Rightarrow> tl_tree cfg" where
  "read_array re =
     bind read_nat_expr (\<lambda>m.
     bind (read_args_list re) (\<lambda>as.
     ret (tl_tree_array (novar_of FLAG_NOVAR (map a_flags as)) m as)))"

definition read_type_tree :: "tl_tree cfg \<Rightarrow> tl_tree cfg" where
  "read_type_tree re =
     bind try_parse_int (\<lambda>i.
     bind (gets config) (\<lambda>c.
     bind (lift (cfg_get_type c i)) (\<lambda>t.
     bind try_parse_int (\<lambda>f.
     bind try_parse_int (\<lambda>arity.
     bind (check (ct_arity (cf_types c ! t) = sint arity)) (\<lambda>_.
     bind (check (0 \<le> sint arity)) (\<lambda>_.
     bind (read_times (nat (sint arity)) (read_expr re)) (\<lambda>cs.
     ret (tl_tree_type (novar_of (f OR FLAG_NOVAR) (map t_flags cs)) t cs)))))))))"

primrec read_type_expr :: "nat \<Rightarrow> tl_tree cfg" where
  "read_type_expr 0 = raise OutOfFuel"
| "read_type_expr (Suc n) =
     bind try_parse_int (\<lambda>t.
     if t = TLS_TYPE_VAR_cfg then read_type_var
     else if t = TLS_TYPE_EXPR_cfg then read_type_tree (read_type_expr n)
     else if t = TLS_ARRAY_cfg then read_array (read_type_expr n)
     else raise Assertion)"

definition with_data_fuel :: "(nat \<Rightarrow> 'a cfg) \<Rightarrow> 'a cfg" where
  "with_data_fuel f = bind (gets (\<lambda>s. Suc (sdata_len (cp s)))) f"

definition read_combinator :: "tl_combinator cfg" where
  "read_combinator =
     bind try_parse_int (\<lambda>t.
     bind (check (t = TLS_COMBINATOR_cfg)) (\<lambda>_.
     bind try_parse_int (\<lambda>i.
     bind try_parse_string (\<lambda>name.
     bind try_parse_int (\<lambda>ty.
     bind (modify (\<lambda>s. s\<lparr>var_count := 0\<rparr>)) (\<lambda>_.
     bind try_parse_int (\<lambda>l.
     bind (if l = TLS_COMBINATOR_LEFT_cfg then with_data_fuel (\<lambda>n. read_args_list (read_type_expr n))
           else bind (check (l = TLS_COMBINATOR_LEFT_BUILTIN_cfg)) (\<lambda>_. ret [])) (\<lambda>as.
     bind try_parse_int (\<lambda>r.
     bind (check (r = TLS_COMBINATOR_RIGHT_V2_cfg)) (\<lambda>_.
     bind (with_data_fuel read_type_expr) (\<lambda>res.
     bind (gets var_count) (\<lambda>vc.
     ret \<lparr>cb_id = i, cb_name = name, cb_var_count = vc, cb_type_id = ty, cb_args = as,
          cb_result = Some res\<rparr>))))))))))))"

definition read_type :: "tl_ctype cfg" where
  "read_type =
     bind try_parse_int (\<lambda>t.
     bind (check (t = TLS_TYPE_cfg)) (\<lambda>_.
     bind try_parse_int (\<lambda>i.
     bind try_parse_string (\<lambda>name.
     bind try_parse_int (\<lambda>n.
     bind (check (0 \<le> sint n)) (\<lambda>_.
     bind try_parse_int (\<lambda>f.
     bind try_parse_int (\<lambda>arity.
     bind try_parse_long (\<lambda>_.
     ret \<lparr>ct_id = i, ct_name = name, ct_arity = sint arity, ct_flags = f AND NOT (1 OR 8 OR 16 OR 1024),
          ct_simple_constructors = 0, ct_constructors_num = nat (sint n), ct_constructors = []\<rparr>)))))))))"

primrec read_types :: "nat \<Rightarrow> nat cfg" where
  "read_types 0 = ret 0"
| "read_types (Suc n) =
     bind read_type (\<lambda>t.
     bind (modify (\<lambda>s. s\<lparr>config := cfg_add_type t (config s)\<rparr>)) (\<lambda>_.
     bind (read_types n) (\<lambda>k. ret (ct_constructors_num t + k))))"

text \<open>\<open>config.get_type (constructor->type_id)->add_constructor (constructor)\<close>\<close>

definition read_constructor :: "unit cfg" where
  "read_constructor =
     bind read_combinator (\<lambda>c.
     bind (gets config) (\<lambda>cf.
     bind (lift (cfg_get_type cf (cb_type_id c))) (\<lambda>t.
     bind (lift (add_constructor c (cf_types cf ! t))) (\<lambda>ty.
     modify (\<lambda>s. s\<lparr>config := cf\<lparr>cf_types := (cf_types cf)[t := ty]\<rparr>\<rparr>)))))"

definition read_function :: "unit cfg" where
  "read_function = bind read_combinator (\<lambda>f. modify (\<lambda>s. s\<lparr>config := cfg_add_function f (config s)\<rparr>))"

definition parse_config :: "tl_config cfg" where
  "parse_config =
     bind try_parse_int (\<lambda>v.
     bind (modify (\<lambda>s. s\<lparr>schema_version := get_schema_version v\<rparr>)) (\<lambda>_.
     bind (check (2 \<le> get_schema_version v)) (\<lambda>_.
     bind try_parse_int (\<lambda>_.
     bind try_parse_int (\<lambda>_.
     bind try_parse_int (\<lambda>types_n.
     bind (read_types (nat (sint types_n))) (\<lambda>total.
     bind try_parse_int (\<lambda>n.
     bind (check (0 \<le> sint n \<and> nat (sint n) = total)) (\<lambda>_.
     bind (read_times (nat (sint n)) read_constructor) (\<lambda>_.
     bind try_parse_int (\<lambda>functions_n.
     bind (read_times (nat (sint functions_n)) read_function) (\<lambda>_.
     bind (try_parse fetch_end) (\<lambda>_.
     gets config)))))))))))))"

text \<open>
  The constructor of the parser, and \<open>read_tl_config_from_file\<close> (tl_generate.cpp) on the contents of the
  file: the bytes of a \<open>std::string\<close> are followed by a zero byte.
\<close>

definition config_parser :: "u8 list \<Rightarrow> tl_config_parser" where
  "config_parser bs = \<lparr>cp = new_simple_parser (bs @ [0]) (length bs), schema_version = -1, config = empty_config,
     var_count = 0\<rparr>"

definition read_tl_config :: "u8 list \<Rightarrow> fault + tl_config" where
  "read_tl_config bs =
     (if bs = [] \<or> 2 ^ 25 \<le> length bs \<or> length bs mod 4 \<noteq> 0 then Inl Assertion
      else case parse_config (config_parser bs) of Inl e \<Rightarrow> Inl e | Inr (c, _) \<Rightarrow> Inr c)"

subsection \<open>The reader ends\<close>

text \<open>
  \<open>shr n m\<close>: from every state with less than \<open>n\<close> bytes left, \<open>m\<close> returns with no more bytes left than before, aborts, or reads
  behind the data. In particular it neither runs out of fuel nor follows a null pointer.
\<close>

definition abort :: "fault \<Rightarrow> bool" where
  "abort e \<longleftrightarrow> e = Assertion \<or> e = OutOfBounds"

definition shr :: "nat \<Rightarrow> 'a cfg \<Rightarrow> bool" where
  "shr n m \<longleftrightarrow> (\<forall>s. sdata_len (cp s) < n \<longrightarrow> post abort m (\<lambda>_ t. sdata_len (cp t) \<le> sdata_len (cp s)) s)"

named_theorems shr \<open>reading functions that end\<close>

lemma shr_basic [shr]:
  "shr n (ret x)" "shr n (raise Assertion)" "shr n (gets f)" "shr n (check b)"
  by (simp_all add: shr_def post_def abort_def)

lemma shr_modify: "(\<And>s. cp (f s) = cp s) \<Longrightarrow> shr n (modify f)"
  by (simp add: shr_def post_def)

lemma shr_bind [shr]:
  assumes "shr n m" and "\<And>x. shr n (f x)"
  shows "shr n (bind m f)"
  unfolding shr_def
proof (intro allI impI)
  fix s :: tl_config_parser assume s: "sdata_len (cp s) < n"
  show "post abort (bind m f) (\<lambda>_ t. sdata_len (cp t) \<le> sdata_len (cp s)) s"
  proof (rule post_bindI)
    show "post abort m (\<lambda>_ t. sdata_len (cp t) \<le> sdata_len (cp s)) s" using assms(1) s by (simp add: shr_def)
  next
    fix x and t :: tl_config_parser assume t: "sdata_len (cp t) \<le> sdata_len (cp s)"
    then have "post abort (f x) (\<lambda>_ u. sdata_len (cp u) \<le> sdata_len (cp t)) t" using assms(2) s by (simp add: shr_def)
    then show "post abort (f x) (\<lambda>_ u. sdata_len (cp u) \<le> sdata_len (cp s)) t" by (rule post_mono) (use t in simp)
  qed
qed

lemma shr_if [shr]: "(b \<Longrightarrow> shr n m) \<Longrightarrow> (\<not> b \<Longrightarrow> shr n k) \<Longrightarrow> shr n (if b then m else k)"
  by simp

lemma shr_Let [shr]: "(\<And>x. shr n (f x)) \<Longrightarrow> shr n (let x = e in f x)"
  by simp

lemma shr_case_prod [shr]: "(\<And>x y. shr n (f x y)) \<Longrightarrow> shr n (case r of (x, y) \<Rightarrow> f x y)"
  by (simp split: prod.split)

lemma shr_lift: "(\<And>e. r = Inl e \<Longrightarrow> abort e) \<Longrightarrow> shr n (lift r)"
  by (auto simp: shr_def post_def split: sum.splits)

lemma shr_times [shr]: "shr n m \<Longrightarrow> shr n (read_times k m)"
proof (induction k)
  case 0
  show ?case unfolding read_times.simps by (rule shr)
next
  case (Suc k)
  then show ?case unfolding read_times.simps by (intro shr)
qed

text \<open>A primitive reading function takes at least \<open>k\<close> bytes, or the parser has an error and no data.\<close>

definition took :: "nat \<Rightarrow> tl_simple_parser \<Rightarrow> bool" where
  "took n s \<longleftrightarrow> sdata_len s \<le> n \<or> serror s \<noteq> None \<and> sdata_len s = 0"

lemma took_check_len: "took n s \<Longrightarrow> post abort (check_len k) (\<lambda>_ t. took (n - k) t) s"
  by (auto simp: check_len_def set_error_def post_simps post_def abort_def took_def)

lemma took_steps:
  "took n s \<Longrightarrow> post abort (set_error e) (\<lambda>_. took n) s" "took n s \<Longrightarrow> post abort (read_bytes i k) (\<lambda>_. took n) s"
  "took n s \<Longrightarrow> post abort (advance k) (\<lambda>_. took n) s"
  by (auto simp: set_error_def read_bytes_def advance_def post_simps post_def abort_def took_def)

lemma took_ret: "took n s \<Longrightarrow> n \<le> m \<Longrightarrow> post abort (ret x) (\<lambda>_. took m) s"
  by (auto simp: post_simps took_def)

lemmas took_binds = post_bindI[OF took_check_len] post_bindI[OF took_steps(1)] post_bindI[OF took_steps(2)] post_bindI[OF took_steps(3)]

lemma took_fetch:
  "took n s \<Longrightarrow> post abort fetch_int (\<lambda>_. took (n - 4)) s" "took n s \<Longrightarrow> post abort fetch_long (\<lambda>_. took (n - 8)) s"
  "took n s \<Longrightarrow> post abort fetch_string (\<lambda>_. took (n - 4)) s" "took n s \<Longrightarrow> post abort fetch_end (\<lambda>_. took n) s"
     apply (unfold fetch_int_def fetch_long_def fetch_string_def Let_def)
     apply (rule took_binds took_ret post_ifI | assumption | simp)+
  apply (simp add: fetch_end_def post_gets post_ifI took_steps took_ret)
  done

lemma try_parse_post:
  assumes "\<And>n s. took n s \<Longrightarrow> post abort m (\<lambda>_. took (n - k)) s"
  shows "post abort (try_parse m) (\<lambda>_ t. sdata_len (cp t) \<le> sdata_len (cp s) - k) s"
proof -
  have "took (sdata_len (cp s)) (cp s)" by (simp add: took_def)
  from assms[OF this] show ?thesis
    by (auto simp: try_parse_def post_def bind_apply took_def abort_def split: sum.splits)
qed


lemma shr_try_parse:
  assumes "\<And>n s. took n s \<Longrightarrow> post abort m (\<lambda>_. took (n - k)) s"
  shows "shr n (try_parse m)"
  unfolding shr_def
proof (intro allI impI)
  fix s :: tl_config_parser
  have "post abort (try_parse m) (\<lambda>_ t. sdata_len (cp t) \<le> sdata_len (cp s) - k) s" by (rule try_parse_post) (rule assms)
  then show "post abort (try_parse m) (\<lambda>_ t. sdata_len (cp t) \<le> sdata_len (cp s)) s" by (rule post_mono) linarith
qed

lemma shr_parse [shr]: "shr n try_parse_int" "shr n try_parse_long" "shr n try_parse_string" "shr n (try_parse fetch_end)"
  using shr_try_parse[OF took_fetch(1)] shr_try_parse[OF took_fetch(2)] shr_try_parse[OF took_fetch(3)]
    shr_try_parse[of fetch_end 0] took_fetch(4) by simp_all

text \<open>Reading a number pays for one level of nesting.\<close>

lemma shr_int_bind:
  assumes "\<And>x. shr n (f x)"
  shows "shr (Suc n) (bind try_parse_int f)"
  unfolding shr_def
proof (intro allI impI)
  fix s :: tl_config_parser assume s: "sdata_len (cp s) < Suc n"
  show "post abort (bind try_parse_int f) (\<lambda>_ t. sdata_len (cp t) \<le> sdata_len (cp s)) s"
  proof (cases "4 \<le> sdata_len (cp s)")
    case True
    show ?thesis
    proof (rule post_bindI[OF try_parse_post[OF took_fetch(1)]])
      fix x and t :: tl_config_parser assume t: "sdata_len (cp t) \<le> sdata_len (cp s) - 4"
      then have "post abort (f x) (\<lambda>_ u. sdata_len (cp u) \<le> sdata_len (cp t)) t" using assms s True by (simp add: shr_def)
      then show "post abort (f x) (\<lambda>_ u. sdata_len (cp u) \<le> sdata_len (cp s)) t" by (rule post_mono) (use t in simp)
    qed
  next
    case False
    then have "try_parse_int s = Inl Assertion \<or> try_parse_int s = Inl OutOfBounds"
      by (cases "serror (cp s)")
        (auto simp: try_parse_def fetch_int_def check_len_def set_error_def read_bytes_def advance_def bind_apply)
    then show ?thesis by (auto simp: post_def abort_def)
  qed
qed

lemma shr_note [shr]: "shr n (note_var v)"
  unfolding note_var_def by (rule shr_modify) simp

lemma shr_numbers [shr]: "shr n read_num_const" "shr n read_num_var" "shr n read_type_var" "shr n read_nat_expr"
  unfolding read_num_const_def read_num_var_def read_type_var_def read_nat_expr_def by (intro shr)+

lemma shr_get_type [shr]: "shr n (lift (cfg_get_type c i))"
  by (rule shr_lift) (simp add: cfg_get_type_def abort_def split: option.splits)

lemma shr_nested:
  assumes "shr n re"
  shows "shr n (read_expr re)" and "shr n (read_array re)" and "shr n (read_args_list re)" and "shr n (read_type_tree re)"
proof -
  show e: "shr n (read_expr re)" unfolding read_expr_def by (intro shr assms)
  have "shr n (read_arg p q re)" for p q unfolding read_arg_def Let_def by (intro shr assms)
  then show a: "shr n (read_args_list re)" unfolding read_args_list_def Let_def by (intro shr)
  show "shr n (read_array re)" unfolding read_array_def by (intro shr a)
  show "shr n (read_type_tree re)" unfolding read_type_tree_def by (intro shr e)
qed

lemma shr_type_expr: "shr n (read_type_expr n)"
proof (induction n)
  case 0
  show ?case by (simp add: shr_def)
next
  case (Suc n)
  show ?case unfolding read_type_expr.simps by (intro shr_int_bind shr shr_nested Suc)
qed

lemma shr_fuel: "(\<And>n. shr n (f n)) \<Longrightarrow> shr m (with_data_fuel f)"
  unfolding shr_def with_data_fuel_def by (simp add: post_gets)

lemma shr_combinator [shr]: "shr n read_combinator" "shr n read_type"
  unfolding read_combinator_def read_type_def
  by (intro shr shr_fuel shr_type_expr shr_nested shr_modify; simp)+

lemma shr_records [shr]: "shr n (read_types k)" "shr n read_constructor" "shr n read_function"
proof -
  show "shr n (read_types k)" 
  proof (induction k)
    case 0
    show ?case unfolding read_types.simps by (rule shr)
  next
    case (Suc k)
    show ?case unfolding read_types.simps by (intro shr Suc shr_modify) simp
  qed
  show "shr n read_function" unfolding read_function_def by (intro shr shr_modify) simp
  have "shr n (lift (add_constructor c t))" for c t by (rule shr_lift) (simp add: add_constructor_def abort_def Let_def split: if_splits)
  then show "shr n read_constructor" unfolding read_constructor_def by (intro shr shr_modify) simp_all
qed

lemma shr_parse_config: "shr n parse_config"
  unfolding parse_config_def by (intro shr shr_modify) simp

text \<open>
  C36: Reading a compiled scheme ends on every file, whatever bytes it has: the reader returns a configuration, aborts with
  an error, or reads behind its data; it never recurses or loops without consuming bytes of the file, and it never follows a null pointer.
\<close>

theorem read_tl_config_ends:
  "(\<exists>c. read_tl_config bs = Inr c) \<or> read_tl_config bs = Inl Assertion \<or> read_tl_config bs = Inl OutOfBounds"
proof -
  have "post abort parse_config (\<lambda>_ _. True) (config_parser bs)"
    using shr_parse_config[of "Suc (sdata_len (cp (config_parser bs)))"] unfolding shr_def by (blast intro: post_mono)
  then show ?thesis by (auto simp: read_tl_config_def post_def abort_def split: sum.splits)
qed

text \<open>
  C37: A string that is cut off is read out of bounds: when the length byte announces more than eight characters and the data ends
  before them, the parser notes the error, moves its pointer to a literal of nine bytes and copies the announced number of characters from there.
\<close>

theorem fetch_string_overread:
  assumes "serror s = None" and "sdata s = b # r" and "8 < unat b" and "unat b < 254" and "4 \<le> sdata_len s"
    and "sdata_len s < 4 + unat b div 4 * 4"
  shows "fetch_string s = Inl OutOfBounds"
proof -
  have "sdata_len s - 4 < unat b div 4 * 4" using assms(5,6) by simp
  then show ?thesis using assms
    by (simp add: fetch_string_def check_len_def set_error_def read_bytes_def bind_apply Let_def)
qed

theorem fetch_string_overread_witness:
  "fetch_string (new_simple_parser [12, 97, 98, 99, 0] 4) = Inl OutOfBounds"
  by (rule fetch_string_overread[where b = 12]) (simp_all add: new_simple_parser_def)

end
