(* ===== verification/TL_Format.thy ===== *)
theory TL_Format
  imports TL_Writer TL_Config
begin

section \<open>The TLO format and its reader\<close>

text \<open>
  The file format that the C writer and the C++ reader agree on: schemes as abstract data (\<open>xschema\<close>), their bytes (\<open>enc_schema\<close>), and
  the configuration a scheme stands for (\<open>config_of\<close>). The reader is correct for the format: it reads the bytes of a well-formed
  scheme as exactly that configuration (\<open>read_enc_schema\<close>). The locale \<open>tlo_reader\<close> states this contract for the clients of a reader. The
  writer is compared with the format in TL_Exchange.
\<close>

unbundle bit_operations_syntax

subsection \<open>Schemes\<close>

text \<open>
  Natural number expressions, type expressions and arguments. \<open>XVar d v\<close> is variable \<open>v\<close> plus \<open>d\<close>; \<open>XType i f es\<close> is the type with id \<open>i\<close>
  applied to \<open>es\<close>; \<open>XArg w f v e t\<close> is the argument \<open>w\<close> of type \<open>t\<close> with flags \<open>f\<close>, the variable \<open>v\<close> it binds if
  any, and the bit \<open>e\<close> of a variable on which it depends if it is optional.
\<close>

datatype xnat = XConst u32 | XVar u32 u32

datatype xtype = XTypeVar u32 | XType u32 u32 "xexpr list" | XArray xnat "xarg list"
and xexpr = XNat xnat | XTy xtype
and xarg = XArg string u32 "u32 option" "(u32 \<times> u32) option" xtype

text \<open>A combinator without arguments list (\<open>None\<close>) is a built-in one.\<close>

record xcomb =
  xc_id :: u32
  xc_name :: string
  xc_type :: u32
  xc_args :: "xarg list option"
  xc_result :: xtype

record xty =
  xt_id :: u32
  xt_name :: string
  xt_num :: nat
  xt_flags :: u32
  xt_arity :: u32
  xt_params :: u64

record xschema =
  xs_types :: "xty list"
  xs_constructors :: "xcomb list"
  xs_functions :: "xcomb list"

subsection \<open>Bytes\<close>

primrec enc_nat :: "xnat \<Rightarrow> u8 list" where
  "enc_nat (XConst n) = bytes4 TLS_NAT_CONST @ bytes4 n"
| "enc_nat (XVar d v) = bytes4 TLS_NAT_VAR @ bytes4 d @ bytes4 v"

text \<open>Version 2 of the format marks optional arguments with bit 1 and arguments that bind a variable with bit 2.\<close>

definition arg_flags :: "u32 \<Rightarrow> 'a option \<Rightarrow> 'b option \<Rightarrow> u32" where
  "arg_flags f v e = f OR (if e \<noteq> None then 2 else 0) OR (if v \<noteq> None then 4 else 0)"

primrec enc_type :: "xtype \<Rightarrow> u8 list" and enc_expr :: "xexpr \<Rightarrow> u8 list" and enc_arg :: "xarg \<Rightarrow> u8 list" where
  "enc_type (XTypeVar v) = bytes4 TLS_TYPE_VAR @ bytes4 v @ bytes4 0"
| "enc_type (XType i f es) =
     bytes4 TLS_TYPE_EXPR @ bytes4 i @ bytes4 f @ bytes4 (of_nat (length es)) @ concat (map enc_expr es)"
| "enc_type (XArray m as) = bytes4 TLS_ARRAY @ enc_nat m @ bytes4 (of_nat (length as)) @ concat (map enc_arg as)"
| "enc_expr (XNat n) = bytes4 TLS_EXPR_NAT @ enc_nat n"
| "enc_expr (XTy t) = bytes4 TLS_EXPR_TYPE @ enc_type t"
| "enc_arg (XArg w f v e t) =
     bytes4 TLS_ARG_V2 @ string_bytes w @ bytes4 (arg_flags f v e)
     @ (case v of None \<Rightarrow> [] | Some k \<Rightarrow> bytes4 k)
     @ (case e of None \<Rightarrow> [] | Some (k, b) \<Rightarrow> bytes4 k @ bytes4 b) @ enc_type t"

definition enc_args :: "xarg list \<Rightarrow> u8 list" where
  "enc_args as = bytes4 (of_nat (length as)) @ concat (map enc_arg as)"

definition enc_comb :: "xcomb \<Rightarrow> u8 list" where
  "enc_comb c =
     bytes4 TLS_COMBINATOR @ bytes4 (xc_id c) @ string_bytes (xc_name c) @ bytes4 (xc_type c)
     @ (case xc_args c of None \<Rightarrow> bytes4 TLS_COMBINATOR_LEFT_BUILTIN | Some as \<Rightarrow> bytes4 TLS_COMBINATOR_LEFT @ enc_args as)
     @ bytes4 TLS_COMBINATOR_RIGHT_V2 @ enc_type (xc_result c)"

definition enc_ty :: "xty \<Rightarrow> u8 list" where
  "enc_ty t =
     bytes4 TLS_TYPE @ bytes4 (xt_id t) @ string_bytes (xt_name t) @ bytes4 (of_nat (xt_num t))
     @ bytes4 (xt_flags t) @ bytes4 (xt_arity t) @ bytes8 (xt_params t)"

definition enc_schema :: "xschema \<Rightarrow> u8 list" where
  "enc_schema X =
     bytes4 TLS_SCHEMA_V2 @ bytes4 0 @ bytes4 0
     @ bytes4 (of_nat (length (xs_types X))) @ concat (map enc_ty (xs_types X))
     @ bytes4 (of_nat (length (xs_constructors X))) @ concat (map enc_comb (xs_constructors X))
     @ bytes4 (of_nat (length (xs_functions X))) @ concat (map enc_comb (xs_functions X))"

subsection \<open>What the reader makes of it\<close>

primrec val_nat :: "xnat \<Rightarrow> tl_tree" where
  "val_nat (XConst n) = tl_tree_nat_const FLAG_NOVAR (sint n)"
| "val_nat (XVar d v) = tl_tree_var_num 0 (sint v) (sint d)"

type_synonym type_ids = "u32 \<Rightarrow> nat option"

primrec val_type :: "type_ids \<Rightarrow> xtype \<Rightarrow> tl_tree" and val_expr :: "type_ids \<Rightarrow> xexpr \<Rightarrow> tl_tree"
  and val_arg :: "type_ids \<Rightarrow> xarg \<Rightarrow> tl_arg" where
  "val_type I (XTypeVar v) = tl_tree_var_type 0 (sint v)"
| "val_type I (XType i f es) =
     tl_tree_type (novar_of (f OR FLAG_NOVAR) (map t_flags (map (val_expr I) es))) (the (I i)) (map (val_expr I) es)"
| "val_type I (XArray m as) =
     tl_tree_array (novar_of FLAG_NOVAR (map a_flags (map (val_arg I) as))) (val_nat m) (map (val_arg I) as)"
| "val_expr I (XNat n) = val_nat n"
| "val_expr I (XTy t) = val_type I t"
| "val_arg I (XArg w f v e t) =
     Arg w (if t_flags (val_type I t) AND FLAG_NOVAR \<noteq> 0 then f OR FLAG_NOVAR else f)
       (case v of None \<Rightarrow> -1 | Some k \<Rightarrow> sint k) (case e of None \<Rightarrow> -1 | Some (k, b) \<Rightarrow> sint k)
       (case e of None \<Rightarrow> 0 | Some (k, b) \<Rightarrow> sint b) (val_type I t)"

text \<open>The variables in the order in which they are read, and the number of variables counted from them.\<close>

primrec vars_nat :: "xnat \<Rightarrow> int list" where
  "vars_nat (XConst n) = []"
| "vars_nat (XVar d v) = [sint v]"

primrec vars_type :: "xtype \<Rightarrow> int list" and vars_expr :: "xexpr \<Rightarrow> int list" and vars_arg :: "xarg \<Rightarrow> int list" where
  "vars_type (XTypeVar v) = [sint v]"
| "vars_type (XType i f es) = concat (map vars_expr es)"
| "vars_type (XArray m as) = vars_nat m @ concat (map vars_arg as)"
| "vars_expr (XNat n) = vars_nat n"
| "vars_expr (XTy t) = vars_type t"
| "vars_arg (XArg w f v e t) = (case v of None \<Rightarrow> -1 | Some k \<Rightarrow> sint k) # vars_type t"

definition count_vars :: "int list \<Rightarrow> int \<Rightarrow> int" where
  "count_vars vs n = fold (\<lambda>v n. if n \<le> v then v + 1 else n) vs n"

text \<open>
  What the reader accepts, given the arities of the types: types that exist, applied to as many arguments as they have parameters; names
  of at most 253 characters; flags without the two bits of the format.
\<close>

primrec ok_type :: "(u32 \<Rightarrow> int option) \<Rightarrow> xtype \<Rightarrow> bool" and ok_expr :: "(u32 \<Rightarrow> int option) \<Rightarrow> xexpr \<Rightarrow> bool"
  and ok_arg :: "(u32 \<Rightarrow> int option) \<Rightarrow> xarg \<Rightarrow> bool" where
  "ok_type ar (XTypeVar v) = True"
| "ok_type ar (XType i f es) \<longleftrightarrow> ar i = Some (int (length es)) \<and> list_all (ok_expr ar) es"
| "ok_type ar (XArray m as) = list_all (ok_arg ar) as"
| "ok_expr ar (XNat n) = True"
| "ok_expr ar (XTy t) = ok_type ar t"
| "ok_arg ar (XArg w f v e t) \<longleftrightarrow> length w \<le> 253 \<and> f AND 6 = 0 \<and> ok_type ar t"

definition arity_of :: "tl_config \<Rightarrow> u32 \<Rightarrow> int option" where
  "arity_of c i = map_option (\<lambda>t. ct_arity (cf_types c ! t)) (id_to_type c i)"

subsection \<open>Reading\<close>

text \<open>
  \<open>reads m bs A x B\<close>: where the bytes \<open>bs\<close> are ahead, \<open>m\<close> consumes exactly these and returns \<open>x\<close>; the configuration and the count of variables
  change from \<open>A\<close> to \<open>B\<close>.
\<close>

definition ahead :: "u8 list \<Rightarrow> tl_config_parser \<Rightarrow> bool" where
  "ahead bs s \<longleftrightarrow> serror (cp s) = None \<and> sdata_len (cp s) \<le> length (sdata (cp s)) \<and>
     length bs \<le> sdata_len (cp s) \<and> take (length bs) (sdata (cp s)) = bs"

definition eat :: "nat \<Rightarrow> tl_config_parser \<Rightarrow> tl_config_parser" where
  "eat n s = s\<lparr>cp := (cp s)\<lparr>sdata := drop n (sdata (cp s)), sdata_pos := sdata_pos (cp s) + n,
     sdata_len := sdata_len (cp s) - n\<rparr>\<rparr>"

definition reads :: "'a cfg \<Rightarrow> u8 list \<Rightarrow> tl_config \<times> int \<Rightarrow> 'a \<Rightarrow> tl_config \<times> int \<Rightarrow> bool" where
  "reads m bs A x B \<longleftrightarrow> (\<forall>s. ahead bs s \<longrightarrow> schema_version s = 2 \<longrightarrow> config s = fst A \<longrightarrow> var_count s = snd A \<longrightarrow>
     m s = Inr (x, (eat (length bs) s)\<lparr>config := fst B, var_count := snd B\<rparr>))"

lemma ahead_append: "ahead (bs @ cs) s \<longleftrightarrow> ahead bs s \<and> ahead cs (eat (length bs) s)"
proof -
  have "take (length bs + length cs) d = bs @ cs \<longleftrightarrow> take (length bs) d = bs \<and> take (length cs) (drop (length bs) d) = cs"
    if "length bs + length cs \<le> length d" for d
    using that by (auto simp: take_add append_eq_conv_conj)
  then show ?thesis unfolding ahead_def eat_def by (auto dest: order_trans)
qed

lemma eat_eat: "eat n (eat m s) = eat (m + n) s"
  by (simp add: eat_def add.commute add.assoc)

lemma ahead_frame [simp]: "ahead bs (s\<lparr>config := c, var_count := v\<rparr>) = ahead bs s"
  by (simp add: ahead_def)

lemma eat_frame [simp]: "eat n (s\<lparr>config := c, var_count := v\<rparr>) = (eat n s)\<lparr>config := c, var_count := v\<rparr>"
  by (simp add: eat_def)

lemma eat_fields [simp]: "schema_version (eat n s) = schema_version s" "config (eat n s) = config s" "var_count (eat n s) = var_count s"
  by (simp_all add: eat_def)

lemma reads_bind:
  assumes "reads m bs A x B" and "reads (f x) cs B y C" and "ds = bs @ cs"
  shows "reads (bind m f) ds A y C"
  unfolding reads_def
proof (intro allI impI)
  fix s assume s: "ahead ds s" "schema_version s = 2" "config s = fst A" "var_count s = snd A"
  then have a: "ahead bs s" "ahead cs (eat (length bs) s)" using assms(3) by (simp_all add: ahead_append)
  with assms(1) s have "m s = Inr (x, (eat (length bs) s)\<lparr>config := fst B, var_count := snd B\<rparr>)"
    unfolding reads_def by blast
  moreover have "f x ((eat (length bs) s)\<lparr>config := fst B, var_count := snd B\<rparr>)
      = Inr (y, (eat (length ds) s)\<lparr>config := fst C, var_count := snd C\<rparr>)"
    using assms(2) a(2) s(2) assms(3) unfolding reads_def by (simp add: eat_eat)
  ultimately show "bind m f s = Inr (y, (eat (length ds) s)\<lparr>config := fst C, var_count := snd C\<rparr>)" by simp
qed

lemmas reads_seq = reads_bind[OF _ _ refl]

lemma reads_pre: "reads m [] A x B \<Longrightarrow> reads (f x) ds B y C \<Longrightarrow> reads (bind m f) ds A y C"
  using reads_bind[of m "[]" A x B f ds y C ds] by simp

lemma reads_last: "reads m ds A x B \<Longrightarrow> reads (f x) [] B y C \<Longrightarrow> reads (bind m f) ds A y C"
  using reads_bind[of m ds A x B f "[]" y C ds] by simp

lemma eat_0 [simp]: "eat 0 s = s"
  by (simp add: eat_def)

lemma same_frame: "config s = c \<Longrightarrow> var_count s = v \<Longrightarrow> s\<lparr>config := c, var_count := v\<rparr> = s"
  by auto

lemma reads_ret: "x = y \<Longrightarrow> reads (ret x) [] A y A"
  by (simp add: reads_def same_frame)

lemma reads_check: "b \<Longrightarrow> reads (check b) [] A () A"
  by (simp add: reads_def same_frame)

lemma reads_config: "reads (gets config) [] A (fst A) A"
  by (simp add: reads_def same_frame)

lemma reads_count: "reads (gets var_count) [] A (snd A) A"
  by (simp add: reads_def same_frame)

lemma reads_version: "reads (gets schema_version) [] A 2 A"
  by (simp add: reads_def same_frame)

lemma reads_lift: "r = Inr x \<Longrightarrow> reads (lift r) [] A x A"
  by (simp add: reads_def same_frame)

lemma reads_modify:
  "(\<And>s. config s = fst A \<Longrightarrow> var_count s = snd A \<Longrightarrow> f s = s\<lparr>config := fst B, var_count := snd B\<rparr>) \<Longrightarrow> reads (modify f) [] A () B"
  by (simp add: reads_def)

lemma reads_note: "reads (note_var v) [] A () (fst A, count_vars [v] (snd A))"
  unfolding note_var_def by (rule reads_modify) (auto simp: count_vars_def)

lemma le_word_bytes4 [simp]: "le_word (bytes4 a) = a"
  using word_bytes[of a] by (simp add: bytes4_def)

lemma read_bytes_ahead: "k + n \<le> length (sdata s) \<Longrightarrow> read_bytes k n s = Inr (take n (drop k (sdata s)), s)"
  by (simp add: read_bytes_def)

lemma try_parse_int_run: "ahead (bytes4 a) s \<Longrightarrow> try_parse_int s = Inr (a, eat 4 s)"
proof -
  assume "ahead (bytes4 a) s"
  then have "4 \<le> sdata_len (cp s)" "take 4 (sdata (cp s)) = bytes4 a" "4 \<le> length (sdata (cp s))" "serror (cp s) = None"
    by (auto simp: ahead_def)
  then show ?thesis
    by (simp add: try_parse_def fetch_int_def check_len_def read_bytes_def advance_def bind_apply eat_def)
qed

lemma reads_int: "reads try_parse_int (bytes4 a) A a A"
  by (simp add: reads_def try_parse_int_run same_frame)

lemma reads_long: "\<exists>x. reads try_parse_long (bytes8 a) A x A"
proof -
  let ?x = "ucast (le_word (take 4 (bytes8 a))) OR push_bit 32 (ucast (le_word (drop 4 (bytes8 a))))"
  have "reads try_parse_long (bytes8 a) A ?x A"
    unfolding reads_def
  proof (intro allI impI)
    fix s assume s: "ahead (bytes8 a) s" "schema_version s = 2" "config s = fst A" "var_count s = snd A"
    then have "8 \<le> sdata_len (cp s)" "take 8 (sdata (cp s)) = bytes8 a" "8 \<le> length (sdata (cp s))" "serror (cp s) = None"
      by (auto simp: ahead_def)
    then show "try_parse_long s = Inr (?x, (eat (length (bytes8 a)) s)\<lparr>config := fst A, var_count := snd A\<rparr>)"
      using s(3,4)
      by (simp add: try_parse_def fetch_long_def check_len_def read_bytes_def advance_def bind_apply eat_def)
  qed
  then show ?thesis by blast
qed

lemma string_bytes_length: "length w \<le> 253 \<Longrightarrow> length (string_bytes w) = (length w div 4 + 1) * 4"
proof -
  have "Suc n + (4 - Suc n mod 4) mod 4 = (n div 4 + 1) * 4" for n :: nat
  proof -
    have "n mod 4 = 0 \<or> n mod 4 = 1 \<or> n mod 4 = 2 \<or> n mod 4 = 3" by linarith
    moreover have "n = 4 * (n div 4) + n mod 4" by simp
    ultimately show ?thesis
      by (elim disjE) (simp_all add: mod_Suc)
  qed
  then show ?thesis by (simp add: string_bytes_def)
qed

lemma reads_string:
  assumes "length w \<le> 253"
  shows "reads try_parse_string (string_bytes w) A w A"
  unfolding reads_def
proof (intro allI impI)
  fix s assume s: "ahead (string_bytes w) s" "schema_version s = 2" "config s = fst A" "var_count s = snd A"
  let ?n = "length w" and ?d = "sdata (cp s)"
  let ?k = "(?n div 4 + 1) * 4"
  from s(1) have l: "?k \<le> sdata_len (cp s)" "?k \<le> length ?d" "take ?k ?d = string_bytes w" "serror (cp s) = None"
    unfolding ahead_def string_bytes_length[OF assms] by auto
  have k: "unat (of_nat ?n :: u8) = ?n" using assms by (simp only: unat_of_nat) simp
  have n: "Suc ?n \<le> ?k" by presburger
  from l(3) have d: "?d = string_bytes w @ drop ?k ?d" by (metis append_take_drop_id)
  have h: "take (Suc 0) ?d = [of_nat ?n]" and t: "take ?n (drop (Suc 0) ?d) = map of_char w"
    by (subst d, simp add: string_bytes_def)+
  have c: "map ((\<lambda>b. char_of (unat b)) \<circ> (of_char :: char \<Rightarrow> u8)) w = w" by (simp add: comp_def unat_of_char)
  have "sdata_len (cp s) - 4 - ?n div 4 * 4 = sdata_len (cp s) - ?k" "\<not> sdata_len (cp s) - 4 < ?n div 4 * 4"
    using l(1) by simp_all
  then show "try_parse_string s = Inr (w, (eat (length (string_bytes w)) s)\<lparr>config := fst A, var_count := snd A\<rparr>)"
    using s(3,4) l n assms unfolding string_bytes_length[OF assms]
    by (simp add: try_parse_def fetch_string_def check_len_def read_bytes_def advance_def bind_apply eat_def h k t c Let_def)
qed


lemma reads_note_var: "v = w \<Longrightarrow> reads (note_var v) [] A () (fst A, count_vars [w] (snd A))"
  using reads_note by simp

lemma count_vars_append: "count_vars ws (count_vars vs n) = count_vars (vs @ ws) n"
  by (simp add: count_vars_def)

lemma count_vars_Nil [simp]: "count_vars [] n = n"
  by (simp add: count_vars_def)

abbreviation noted :: "tl_config \<times> int \<Rightarrow> int list \<Rightarrow> tl_config \<times> int" where
  "noted A vs \<equiv> (fst A, count_vars vs (snd A))"

lemma reads_times:
  assumes "\<And>x A. x \<in> set xs \<Longrightarrow> fst A = c \<Longrightarrow> reads m (enc x) A (val x) (noted A (vs x))" and "fst A = c"
  shows "reads (read_times (length xs) m) (concat (map enc xs)) A (map val xs) (noted A (concat (map vs xs)))"
  using assms
proof (induction xs arbitrary: A)
  case Nil
  then show ?case unfolding list.size read_times.simps by (simp add: reads_def same_frame)
next
  case (Cons x xs)
  show ?case unfolding list.size add_Suc_right add_0_right read_times.simps
  proof (rule reads_bind)
    show "reads m (enc x) A (val x) (noted A (vs x))" using Cons.prems by simp
    show "reads (bind (read_times (length xs) m) (\<lambda>xs. ret (val x # xs))) (concat (map enc xs)) (noted A (vs x))
        (map val (x # xs)) (noted A (concat (map vs (x # xs))))"
      by (rule reads_bind[OF Cons.IH]) (use Cons.prems in \<open>simp_all add: reads_ret count_vars_append\<close>)
  qed simp
qed

lemmas tls_cfg = TLS_SCHEMA_V2_cfg_def TLS_TYPE_cfg_def TLS_COMBINATOR_cfg_def TLS_COMBINATOR_LEFT_BUILTIN_cfg_def
  TLS_COMBINATOR_LEFT_cfg_def TLS_COMBINATOR_RIGHT_V2_cfg_def TLS_ARG_V2_cfg_def TLS_EXPR_NAT_cfg_def TLS_EXPR_TYPE_cfg_def
  TLS_NAT_CONST_OLD_cfg_def TLS_NAT_CONST_cfg_def TLS_NAT_VAR_cfg_def TLS_TYPE_VAR_cfg_def TLS_ARRAY_cfg_def TLS_TYPE_EXPR_cfg_def
  TLS_SCHEMA_V3_cfg_def TLS_SCHEMA_V4_cfg_def

lemmas tls = TLS_SCHEMA_V2_def TLS_TYPE_def TLS_COMBINATOR_def TLS_COMBINATOR_LEFT_BUILTIN_def
  TLS_COMBINATOR_LEFT_def TLS_COMBINATOR_RIGHT_V2_def TLS_ARG_V2_def TLS_EXPR_NAT_def TLS_EXPR_TYPE_def
  TLS_NAT_CONST_def TLS_NAT_VAR_def TLS_TYPE_VAR_def TLS_ARRAY_def TLS_TYPE_EXPR_def

lemma reads_nat: "reads read_nat_expr (enc_nat x) A (val_nat x) (noted A (vars_nat x))"
proof (cases x)
  case (XConst n)
  have "reads read_num_const (bytes4 n) A (val_nat x) (noted A (vars_nat x))"
    unfolding read_num_const_def XConst by (rule reads_last[OF reads_int]) (simp add: reads_ret del: ret_apply)
  then show ?thesis unfolding read_nat_expr_def XConst enc_nat.simps
    by (intro reads_seq[OF reads_int]) (simp add: tls tls_cfg)
next
  case (XVar d v)
  have "reads read_num_var (bytes4 d @ bytes4 v) A (val_nat x) (noted A (vars_nat x))"
    unfolding read_num_var_def XVar
    by (rule reads_seq[OF reads_int], rule reads_last[OF reads_int], rule reads_pre[OF reads_note]) (simp add: reads_ret)
  then show ?thesis unfolding read_nat_expr_def XVar enc_nat.simps
    by (intro reads_seq[OF reads_int]) (simp add: tls tls_cfg)
qed

lemma reads_expr:
  assumes "\<And>t. e = XTy t \<Longrightarrow> reads re (enc_type t) A (val_type (id_to_type c) t) (noted A (vars_type t))"
  shows "reads (read_expr re) (enc_expr e) A (val_expr (id_to_type c) e) (noted A (vars_expr e))"
proof (cases e)
  case (XNat n)
  then show ?thesis using reads_nat[of n A] unfolding read_expr_def XNat enc_expr.simps
    by (intro reads_seq[OF reads_int]) (simp add: tls tls_cfg)
next
  case (XTy t)
  then show ?thesis using assms unfolding read_expr_def XTy enc_expr.simps
    by (intro reads_seq[OF reads_int]) (simp add: tls tls_cfg)
qed

text \<open>The two bits of the flags.\<close>

lemma flag_bits: "bit (2::int) n \<longleftrightarrow> n = 1" "bit (4::int) n \<longleftrightarrow> n = 2" "bit (6::int) n \<longleftrightarrow> n = 1 \<or> n = 2"
  "bit (-3::int) n \<longleftrightarrow> n \<noteq> 1" "bit (-5::int) n \<longleftrightarrow> n \<noteq> 2" "bit (-7::int) n \<longleftrightarrow> n \<noteq> 1 \<and> n \<noteq> 2"
proof -
  show b: "bit (2::int) n \<longleftrightarrow> n = 1" "bit (4::int) n \<longleftrightarrow> n = 2"
    using bit_exp_iff[of 1 n, where 'a = int] bit_exp_iff[of 2 n, where 'a = int] by auto
  show "bit (6::int) n \<longleftrightarrow> n = 1 \<or> n = 2" "bit (-3::int) n \<longleftrightarrow> n \<noteq> 1" "bit (-5::int) n \<longleftrightarrow> n \<noteq> 2"
    "bit (-7::int) n \<longleftrightarrow> n \<noteq> 1 \<and> n \<noteq> 2"
    using bit_or_iff[of "2::int" 4 n] bit_not_iff[of "2::int" n] bit_not_iff[of "4::int" n] bit_not_iff[of "6::int" n] b by auto
qed
lemma arg_flags_bits:
  fixes f :: u32 and v :: "'a option" and e :: "'b option"
  assumes "f AND 6 = 0"
  defines "g \<equiv> arg_flags f v e" and "h \<equiv> (if e \<noteq> None then arg_flags f v e AND NOT 2 else arg_flags f v e)"
  shows "g AND 2 \<noteq> 0 \<longleftrightarrow> e \<noteq> None" and "h AND 4 \<noteq> 0 \<longleftrightarrow> v \<noteq> None"
    and "v = None \<Longrightarrow> h = f" and "v \<noteq> None \<Longrightarrow> h AND NOT 4 = f"
proof -
  have a: "x AND 2 \<noteq> 0 \<longleftrightarrow> bit x 1" "x AND 4 \<noteq> 0 \<longleftrightarrow> bit x 2" for x :: u32
    using bit_iff_and_push_bit_not_eq_0[of x 1] bit_iff_and_push_bit_not_eq_0[of x 2] by simp_all
  have "(6::u32) = 2 OR 4" by simp
  with assms(1) have "f AND 2 = 0" "f AND 4 = 0" by (simp_all only: bit.conj_disj_distrib or_eq_0_iff)
  then have f: "\<not> bit f 1" "\<not> bit f 2" using a[of f] by simp_all
  show "g AND 2 \<noteq> 0 \<longleftrightarrow> e \<noteq> None" "h AND 4 \<noteq> 0 \<longleftrightarrow> v \<noteq> None"
    unfolding a g_def h_def arg_flags_def using f by (auto simp: bit_or_iff bit_and_iff flag_bits)
  show "v = None \<Longrightarrow> h = f" "v \<noteq> None \<Longrightarrow> h AND NOT 4 = f"
    unfolding g_def h_def arg_flags_def
    by (rule bit_word_eqI; use f in \<open>auto simp: bit_or_iff bit_and_iff flag_bits\<close>)+
qed

lemma reads_arg:
  assumes "reads re (enc_type t) (noted A [case v of None \<Rightarrow> -1 | Some k \<Rightarrow> sint k]) (val_type (id_to_type c) t) (noted A (vars_arg (XArg w f v e t)))"
    and "length w \<le> 253" and "f AND 6 = 0"
  shows "reads (read_arg 2 4 re) (enc_arg (XArg w f v e t)) A (val_arg (id_to_type c) (XArg w f v e t)) (noted A (vars_arg (XArg w f v e t)))"
proof -
  note F = arg_flags_bits[OF assms(3), where v = v and e = e]
  have m: "bytes4 TLS_ARG_V2 = bytes4 TLS_ARG_V2_cfg" by (simp add: tls tls_cfg)
  define h where "h = (if e \<noteq> None then arg_flags f v e AND NOT 2 else arg_flags f v e)"
  let ?v = "case v of None \<Rightarrow> -1 | Some k \<Rightarrow> sint k"
  let ?e = "case e of None \<Rightarrow> (-1, 0) | Some (k, b) \<Rightarrow> (sint k, sint b)"
  have V: "reads (if h AND 4 \<noteq> 0 then bind try_parse_int (\<lambda>v. ret (h AND NOT 4, sint v)) else ret (h, -1))
      (case v of None \<Rightarrow> [] | Some k \<Rightarrow> bytes4 k) A (f, ?v) A"
    using F(2-4) unfolding h_def[symmetric] by (cases v) (auto intro!: reads_ret reads_last[OF reads_int])
  have E: "reads (if e \<noteq> None then bind try_parse_int (\<lambda>a. bind try_parse_int (\<lambda>b. ret (sint a, sint b))) else ret (-1, 0))
      (case e of None \<Rightarrow> [] | Some (k, b) \<Rightarrow> bytes4 k @ bytes4 b) B ?e B" for B
    by (cases e) (auto intro!: reads_ret reads_seq[OF reads_int] reads_last[OF reads_int])
  have T: "reads (bind re (\<lambda>t. ret (Arg w (if t_flags t AND FLAG_NOVAR \<noteq> 0 then f OR FLAG_NOVAR else f) ?v (fst ?e) (snd ?e) t)))
      (enc_type t) (noted A [?v]) (val_arg (id_to_type c) (XArg w f v e t)) (noted A (vars_arg (XArg w f v e t)))"
    by (rule reads_last[OF assms(1)], rule reads_ret) (simp split: option.split)
  show ?thesis
    unfolding read_arg_def enc_arg.simps m Let_def
    apply (rule reads_seq[OF reads_int], rule reads_pre[OF reads_check], simp)
    apply (rule reads_seq[OF reads_string[OF assms(2)]], rule reads_seq[OF reads_int])
    unfolding F(1) h_def[symmetric]
    apply (rule reads_seq[OF V])
    unfolding prod.case
    apply (rule reads_pre[OF reads_note], rule reads_seq[OF E])
    using T by (simp add: split_beta)
qed


lemma reads_args_list:
  assumes "\<And>a B. a \<in> set as \<Longrightarrow> fst B = c \<Longrightarrow> reads (read_arg 2 4 re) (enc_arg a) B (val_arg (id_to_type c) a) (noted B (vars_arg a))"
    and "fst A = c" and "length as < 2 ^ 31"
  shows "reads (read_args_list re) (enc_args as) A (map (val_arg (id_to_type c)) as) (noted A (concat (map vars_arg as)))"
proof -
  have n: "sint (of_nat (length as) :: u32) = int (length as)" using assms(3) by (simp add: signed_of_nat signed_take_bit_int_eq_self)
  show ?thesis
    unfolding read_args_list_def enc_args_def
    apply (rule reads_pre[OF reads_version])
    apply (simp add: Let_def)
    apply (rule reads_seq[OF reads_int], rule reads_pre[OF reads_check])
    using assms by (auto simp: n intro!: reads_times)
qed

lemma length_concat_le: "x \<in> set xs \<Longrightarrow> length (f x) \<le> length (concat (map f xs))"
  by (induction xs) auto

lemma length_le_concat: "(\<And>x. x \<in> set xs \<Longrightarrow> 4 \<le> length (f x)) \<Longrightarrow> 4 * length xs \<le> length (concat (map f xs))"
  by (induction xs) force+

lemma enc_lengths: "4 \<le> length (enc_expr e)" "4 \<le> length (enc_arg a)"
  by (cases e; simp) (cases a; simp)

lemma reads_type_expr:
  assumes "ok_type (arity_of c) x" and "length (enc_type x) < n" and "length (enc_type x) < 2 ^ 31" and "fst A = c"
  shows "reads (read_type_expr n) (enc_type x) A (val_type (id_to_type c) x) (noted A (vars_type x))"
  using assms
proof (induction n arbitrary: x A)
  case (Suc n)
  show ?case
  proof (cases x)
    case (XTypeVar v)
    have "reads read_type_var (bytes4 v @ bytes4 0) A (val_type (id_to_type c) x) (noted A (vars_type x))"
      unfolding read_type_var_def XTypeVar
      by (rule reads_seq[OF reads_int], rule reads_last[OF reads_int], rule reads_pre[OF reads_note], rule reads_pre[OF reads_check])
        (simp_all add: reads_ret)
    then show ?thesis unfolding read_type_expr.simps XTypeVar enc_type.simps
      by (intro reads_seq[OF reads_int]) (simp add: tls tls_cfg)
  next
    case (XType i f es)
    obtain t where t: "id_to_type c i = Some t" "ct_arity (cf_types c ! t) = int (length es)"
      using Suc.prems(1) XType by (auto simp: arity_of_def)
    have l: "4 * length es \<le> length (concat (map enc_expr es))" by (rule length_le_concat) (rule enc_lengths)
    then have "length es < 2 ^ 31" using Suc.prems(3) XType by simp
    then have n: "sint (of_nat (length es) :: u32) = int (length es)" by (simp add: signed_of_nat signed_take_bit_int_eq_self)
    have E: "reads (read_expr (read_type_expr n)) (enc_expr e) B (val_expr (id_to_type c) e) (noted B (vars_expr e))"
      if e: "e \<in> set es" and B: "fst B = c" for e B
    proof (rule reads_expr)
      fix y assume y: "e = XTy y"
      have "length (enc_expr e) \<le> length (concat (map enc_expr es))" by (rule length_concat_le[OF e])
      with Suc.prems y e XType B show "reads (read_type_expr n) (enc_type y) B (val_type (id_to_type c) y) (noted B (vars_type y))"
        by (intro Suc.IH) (auto simp: list_all_iff)
    qed
    have "reads (read_type_tree (read_type_expr n)) (bytes4 i @ bytes4 f @ bytes4 (of_nat (length es)) @ concat (map enc_expr es))
        A (val_type (id_to_type c) x) (noted A (vars_type x))"
      unfolding read_type_tree_def XType
      apply (rule reads_seq[OF reads_int], rule reads_pre[OF reads_config], rule reads_pre[OF reads_lift])
       apply (simp add: cfg_get_type_def Suc.prems t(1))
      apply (rule reads_seq[OF reads_int], rule reads_seq[OF reads_int], rule reads_pre[OF reads_check])
       apply (simp add: Suc.prems t(2) n)
      apply (rule reads_pre[OF reads_check])
       apply (simp add: n)
      apply (unfold n nat_int)
      apply (rule reads_last[OF reads_times[where c = c and vs = vars_expr and val = "val_expr (id_to_type c)"]])
        apply (rule E; assumption)
       apply (rule Suc.prems)
      by (simp add: reads_ret t(1))
    then show ?thesis unfolding read_type_expr.simps XType enc_type.simps
      by (intro reads_seq[OF reads_int]) (simp add: tls tls_cfg)
  next
    case (XArray m as)
    have l: "4 * length as \<le> length (concat (map enc_arg as))" by (rule length_le_concat) (rule enc_lengths)
    then have n: "length as < 2 ^ 31" using Suc.prems(3) XArray by simp
    have a: "reads (read_arg 2 4 (read_type_expr n)) (enc_arg a) B (val_arg (id_to_type c) a) (noted B (vars_arg a))"
      if a: "a \<in> set as" and B: "fst B = c" for a B
    proof (cases a)
      case (XArg w f v e y)
      have "length (enc_arg a) \<le> length (concat (map enc_arg as))" by (rule length_concat_le[OF a])
      moreover have "ok_arg (arity_of c) a" using Suc.prems(1) a XArray by (simp add: list_all_iff)
      ultimately show ?thesis using Suc.prems XArg XArray B unfolding XArg
        using Suc.IH[of y "noted B [case v of None \<Rightarrow> -1 | Some k \<Rightarrow> sint k]"]
        by (intro reads_arg) (simp_all add: count_vars_append)
    qed
    have "reads (read_array (read_type_expr n)) (enc_nat m @ enc_args as) A (val_type (id_to_type c) x) (noted A (vars_type x))"
      unfolding read_array_def XArray
      apply (rule reads_seq[OF reads_nat])
      apply (rule reads_last[OF reads_args_list[where c = c]])
         apply (rule a; assumption)
      using n Suc.prems by (simp_all add: reads_ret count_vars_append)
    then show ?thesis unfolding read_type_expr.simps XArray enc_type.simps enc_args_def
      by (intro reads_seq[OF reads_int]) (simp add: tls tls_cfg)
  qed
qed simp


lemma reads_fuel: "(\<And>n. length bs < n \<Longrightarrow> reads (f n) bs A x B) \<Longrightarrow> reads (with_data_fuel f) bs A x B"
  unfolding reads_def with_data_fuel_def ahead_def by (simp add: bind_apply)

lemma reads_magic: "reads (bind try_parse_int (\<lambda>t. check (t = a))) (bytes4 a) A () A"
  by (rule reads_last[OF reads_int]) (rule reads_check, rule refl)

subsection \<open>Combinators\<close>

definition val_comb :: "type_ids \<Rightarrow> xcomb \<Rightarrow> tl_combinator" where
  "val_comb I x =
     (let as = (case xc_args x of None \<Rightarrow> [] | Some as \<Rightarrow> as) in
      \<lparr>cb_id = xc_id x, cb_name = xc_name x,
       cb_var_count = count_vars (concat (map vars_arg as) @ vars_type (xc_result x)) 0,
       cb_type_id = xc_type x, cb_args = map (val_arg I) as, cb_result = Some (val_type I (xc_result x))\<rparr>)"

definition ok_comb :: "(u32 \<Rightarrow> int option) \<Rightarrow> xcomb \<Rightarrow> bool" where
  "ok_comb ar x \<longleftrightarrow> length (xc_name x) \<le> 253 \<and> list_all (ok_arg ar) (case xc_args x of None \<Rightarrow> [] | Some as \<Rightarrow> as) \<and>
     ok_type ar (xc_result x)"

lemma reads_left:
  assumes "list_all (ok_arg (arity_of c)) as" and "length (enc_args as) < 2 ^ 31" and "fst A = c"
  shows "reads (with_data_fuel (\<lambda>n. read_args_list (read_type_expr n))) (enc_args as) A (map (val_arg (id_to_type c)) as)
    (noted A (concat (map vars_arg as)))"
proof (rule reads_fuel, rule reads_args_list)
  fix n a and B :: "tl_config \<times> int" assume n: "length (enc_args as) < n" and a: "a \<in> set as" and B: "fst B = c"
  have l: "length (enc_arg a) \<le> length (enc_args as)" using length_concat_le[OF a, of enc_arg] by (simp add: enc_args_def)
  obtain w f v e t where x: "a = XArg w f v e t" by (cases a)
  have "ok_arg (arity_of c) a" using a assms(1) by (simp add: list_all_iff)
  then show "reads (read_arg 2 4 (read_type_expr n)) (enc_arg a) B (val_arg (id_to_type c) a) (noted B (vars_arg a))"
    using reads_type_expr[of c t n "noted B [case v of None \<Rightarrow> -1 | Some k \<Rightarrow> sint k]"] l n B assms(2) unfolding x
    by (intro reads_arg) (simp_all add: count_vars_append)
next
  have "4 * length as \<le> length (concat (map enc_arg as))" by (rule length_le_concat) (rule enc_lengths)
  then show "length as < 2 ^ 31" using assms(2) by (simp add: enc_args_def)
qed (rule assms(3))

lemma reads_result:
  assumes "ok_type (arity_of c) x" and "length (enc_type x) < 2 ^ 31" and "fst A = c"
  shows "reads (with_data_fuel read_type_expr) (enc_type x) A (val_type (id_to_type c) x) (noted A (vars_type x))"
  by (rule reads_fuel) (rule reads_type_expr[OF assms(1) _ assms(2,3)])

lemma reads_combinator:
  assumes "ok_comb (arity_of c) x" and "length (enc_comb x) < 2 ^ 31" and "fst A = c"
  shows "reads read_combinator (enc_comb x) A (val_comb (id_to_type c) x) (c, cb_var_count (val_comb (id_to_type c) x))"
proof -
  let ?as = "case xc_args x of None \<Rightarrow> [] | Some as \<Rightarrow> as" and ?I = "id_to_type c"
  let ?left = "case xc_args x of None \<Rightarrow> bytes4 TLS_COMBINATOR_LEFT_BUILTIN | Some as \<Rightarrow> bytes4 TLS_COMBINATOR_LEFT @ enc_args as"
  let ?B = "noted (c, 0) (concat (map vars_arg ?as))"
  have l: "reads (bind try_parse_int (\<lambda>l. 
       if l = TLS_COMBINATOR_LEFT_cfg then with_data_fuel (\<lambda>n. read_args_list (read_type_expr n))
           else bind (check (l = TLS_COMBINATOR_LEFT_BUILTIN_cfg)) (\<lambda>_. ret []))) ?left (c, 0) (map (val_arg ?I) ?as) ?B"
  proof (cases "xc_args x")
    case None
    then show ?thesis by (auto simp: tls tls_cfg reads_ret intro!: reads_last[OF reads_int] reads_pre[OF reads_check])
  next
    case (Some as)
    then have "length (enc_args as) < 2 ^ 31" using assms(2) by (simp add: enc_comb_def)
    with Some assms(1) reads_left[of c as "(c, 0)"] show ?thesis
      by (auto simp: tls tls_cfg ok_comb_def intro!: reads_seq[OF reads_int])
  qed
  have m: "bytes4 TLS_COMBINATOR = bytes4 TLS_COMBINATOR_cfg" "bytes4 TLS_COMBINATOR_RIGHT_V2 = bytes4 TLS_COMBINATOR_RIGHT_V2_cfg"
    by (simp_all add: tls tls_cfg)
  have r: "reads (with_data_fuel read_type_expr) (enc_type (xc_result x)) ?B (val_type ?I (xc_result x)) (noted ?B (vars_type (xc_result x)))"
    using assms by (intro reads_result) (simp_all add: ok_comb_def enc_comb_def)
  have w: "length (xc_name x) \<le> 253" using assms(1) by (simp add: ok_comb_def)
  show ?thesis
    unfolding read_combinator_def enc_comb_def m bind_assoc[symmetric, of try_parse_int]
    apply (rule reads_seq[OF reads_magic], rule reads_seq[OF reads_int], rule reads_seq[OF reads_string[OF w]], rule reads_seq[OF reads_int])
    apply (rule reads_pre[OF reads_modify[where B = "(c, 0)"]], simp add: assms(3) same_frame)
    apply (rule reads_seq[OF l], rule reads_seq[OF reads_magic], rule reads_last[OF r], rule reads_pre[OF reads_count])
    by (simp add: reads_ret val_comb_def Let_def count_vars_append)
qed

subsection \<open>Types\<close>

text \<open>The position of the last element with a given key: what the maps of a configuration hold.\<close>

definition index_map :: "('x \<Rightarrow> 'k) \<Rightarrow> 'x list \<Rightarrow> 'k \<Rightarrow> nat option" where
  "index_map f xs = map_of (rev (zip (map f xs) [0..<length xs]))"

lemma index_map_snoc: "index_map f (xs @ [x]) = (index_map f xs)(f x \<mapsto> length xs)"
  by (simp add: index_map_def)

lemma index_map_Nil [simp]: "index_map f [] = Map.empty"
  by (simp add: index_map_def)

lemma index_map_distinct:
  assumes "distinct (map f xs)"
  shows "index_map f xs k = Some i \<longleftrightarrow> i < length xs \<and> f (xs ! i) = k"
  using assms
proof (induction xs arbitrary: i rule: rev_induct)
  case (snoc x xs)
  then show ?case
    by (auto simp: index_map_snoc nth_append less_Suc_eq) (metis imageI nth_mem)+
qed simp

definition val_ty :: "xty \<Rightarrow> tl_ctype" where
  "val_ty t = \<lparr>ct_id = xt_id t, ct_name = xt_name t, ct_arity = sint (xt_arity t),
     ct_flags = xt_flags t AND NOT (1 OR 8 OR 16 OR 1024), ct_simple_constructors = 0,
     ct_constructors_num = xt_num t, ct_constructors = []\<rparr>"

definition ok_ty :: "xty \<Rightarrow> bool" where
  "ok_ty t \<longleftrightarrow> length (xt_name t) \<le> 253 \<and> xt_num t < 2 ^ 31"

lemma sint_of_nat: "n < 2 ^ 31 \<Longrightarrow> sint (of_nat n :: u32) = int n"
  by (simp add: signed_of_nat signed_take_bit_int_eq_self)

lemma reads_ty:
  assumes "ok_ty t"
  shows "reads read_type (enc_ty t) A (val_ty t) A"
proof -
  have w: "length (xt_name t) \<le> 253" and n: "sint (of_nat (xt_num t) :: u32) = int (xt_num t)"
    using assms by (simp_all add: ok_ty_def sint_of_nat)
  have m: "bytes4 TLS_TYPE = bytes4 TLS_TYPE_cfg" by (simp add: tls tls_cfg)
  obtain y where y: "reads try_parse_long (bytes8 (xt_params t)) A y A" using reads_long by blast
  show ?thesis
    unfolding read_type_def enc_ty_def m bind_assoc[symmetric, of try_parse_int]
    apply (rule reads_seq[OF reads_magic], rule reads_seq[OF reads_int], rule reads_seq[OF reads_string[OF w]])
    unfolding bind_assoc
    apply (rule reads_seq[OF reads_int], rule reads_pre[OF reads_check], simp add: n)
    apply (rule reads_seq[OF reads_int], rule reads_seq[OF reads_int], rule reads_last[OF y])
    by (simp add: reads_ret val_ty_def n)
qed

lemma reads_types:
  assumes "list_all ok_ty ts"
  shows "reads (read_types (length ts)) (concat (map enc_ty ts)) A (sum_list (map xt_num ts))
     (fold (cfg_add_type \<circ> val_ty) ts (fst A), snd A)"
  using assms
proof (induction ts arbitrary: A)
  case Nil
  then show ?case unfolding list.size read_types.simps by (simp add: reads_def same_frame)
next
  case (Cons t ts)
  have t: "reads read_type (enc_ty t) A (val_ty t) A" using Cons.prems by (intro reads_ty) simp
  let ?B = "(cfg_add_type (val_ty t) (fst A), snd A)"
  have m: "reads (modify (\<lambda>s. s\<lparr>config := cfg_add_type (val_ty t) (config s)\<rparr>)) [] A () ?B"
    by (rule reads_modify) simp
  show ?case unfolding list.size add_Suc_right add_0_right read_types.simps list.map concat.simps
    apply (rule reads_seq[OF t], rule reads_pre[OF m], rule reads_last[OF Cons.IH])
    using Cons.prems by (simp_all add: reads_ret val_ty_def)
qed

lemma added_types:
  "fold (cfg_add_type \<circ> val_ty) ts empty_config =
     empty_config\<lparr>cf_types := map val_ty ts, id_to_type := index_map xt_id ts, name_to_type := index_map xt_name ts\<rparr>"
proof (induction ts rule: rev_induct)
  case (snoc t ts)
  have v: "ct_id (val_ty t) = xt_id t" "ct_name (val_ty t) = xt_name t" by (simp_all add: val_ty_def)
  have "cfg_add_type (val_ty t) (fold (cfg_add_type \<circ> val_ty) ts empty_config) = empty_config\<lparr>cf_types := map val_ty (ts @ [t]),
      id_to_type := index_map xt_id (ts @ [t]), name_to_type := index_map xt_name (ts @ [t])\<rparr>"
    unfolding snoc by (simp add: cfg_add_type_def index_map_snoc v)
  then show ?case by (simp add: comp_def)
qed (simp add: empty_config_def)

lemma reads_steps:
  assumes "\<And>i. i < length xs \<Longrightarrow> reads m (enc (xs ! i)) (S i) () (S (Suc i))"
  shows "reads (read_times (length xs) m) (concat (map enc xs)) (S 0) (replicate (length xs) ()) (S (length xs))"
  using assms
proof (induction xs arbitrary: S)
  case Nil
  then show ?case unfolding list.size read_times.simps by (simp add: reads_def same_frame)
next
  case (Cons x xs)
  have x: "reads m (enc x) (S 0) () (S (Suc 0))" using Cons.prems[of 0] by simp
  have xs: "reads (read_times (length xs) m) (concat (map enc xs)) (S (Suc 0)) (replicate (length xs) ()) (S (Suc (length xs)))"
    using Cons.IH[of "\<lambda>i. S (Suc i)"] Cons.prems by fastforce
  show ?case unfolding list.size add_Suc_right add_0_right read_times.simps list.map concat.simps
    by (rule reads_seq[OF x], rule reads_last[OF xs]) (simp add: reads_ret)
qed


subsection \<open>The whole file\<close>

text \<open>The constructors of a type.\<close>

definition of_type :: "xschema \<Rightarrow> xty \<Rightarrow> xcomb list" where
  "of_type X t = filter (\<lambda>x. xc_type x = xt_id t) (xs_constructors X)"

definition schema_arity :: "xschema \<Rightarrow> u32 \<Rightarrow> int option" where
  "schema_arity X i = map_option (\<lambda>k. sint (xt_arity (xs_types X ! k))) (index_map xt_id (xs_types X) i)"

text \<open>
  A well-formed scheme: the ids of the types are distinct, every constructor belongs to a type, every type announces its number of
  constructors, and all combinators are acceptable.
\<close>

definition ok_schema :: "xschema \<Rightarrow> bool" where
  "ok_schema X \<longleftrightarrow> distinct (map xt_id (xs_types X)) \<and> list_all ok_ty (xs_types X) \<and>
     list_all (\<lambda>t. xt_num t = length (of_type X t)) (xs_types X) \<and>
     list_all (\<lambda>x. xc_type x \<in> set (map xt_id (xs_types X)) \<and> ok_comb (schema_arity X) x) (xs_constructors X) \<and>
     list_all (ok_comb (schema_arity X)) (xs_functions X)"

text \<open>The configuration of a scheme.\<close>

definition config_of :: "xschema \<Rightarrow> tl_config" where
  "config_of X =
     (let I = index_map xt_id (xs_types X); fs = xs_functions X in
      \<lparr>cf_types = map (\<lambda>t. (val_ty t)\<lparr>ct_constructors := map (val_comb I) (of_type X t)\<rparr>) (xs_types X),
       id_to_type = I, name_to_type = index_map xt_name (xs_types X),
       cf_functions = map (val_comb I) fs, id_to_function = index_map xc_id fs, name_to_function = index_map xc_name fs\<rparr>)"

text \<open>The configuration after the types, \<open>i\<close> constructors and \<open>j\<close> functions.\<close>

definition config_at :: "xschema \<Rightarrow> nat \<Rightarrow> nat \<Rightarrow> tl_config" where
  "config_at X i j = config_of (X\<lparr>xs_constructors := take i (xs_constructors X), xs_functions := take j (xs_functions X)\<rparr>)"

lemma config_at_ids [simp]: "id_to_type (config_at X i j) = index_map xt_id (xs_types X)"
  by (simp add: config_at_def config_of_def Let_def)

lemma arity_of_config: "distinct (map xt_id (xs_types X)) \<Longrightarrow> arity_of (config_at X i j) = schema_arity X"
  by (auto simp: arity_of_def schema_arity_def config_at_def config_of_def Let_def fun_eq_iff val_ty_def index_map_distinct
      split: option.split intro!: map_option_cong)

lemma length_of_types:
  assumes "distinct ids" and "\<And>x. x \<in> set xs \<Longrightarrow> f x \<in> set ids"
  shows "sum_list (map (\<lambda>i. length (filter (\<lambda>x. f x = i) xs)) ids) = length xs"
  using assms(2)
proof (induction xs)
  case (Cons x xs)
  have "sum_list (map (\<lambda>i. (if f x = i then Suc else id) (g i)) ids) = (if f x \<in> set ids then 1 else 0) + sum_list (map g ids)" for g :: "_ \<Rightarrow> nat"
    using assms(1) by (induction ids) auto
  moreover have "length (filter (\<lambda>x. f x = i) (x # xs)) = (if f x = i then Suc else id) (length (filter (\<lambda>x. f x = i) xs))" for i
    by simp
  ultimately show ?case using Cons by (simp del: filter.simps)
qed simp

lemma reads_constructor:
  assumes "ok_schema X" and "i < length (xs_constructors X)" and "length (enc_comb (xs_constructors X ! i)) < 2 ^ 31"
  shows "reads read_constructor (enc_comb (xs_constructors X ! i)) (config_at X i 0, v) ()
    (config_at X (Suc i) 0, cb_var_count (val_comb (index_map xt_id (xs_types X)) (xs_constructors X ! i)))"
proof -
  let ?x = "xs_constructors X ! i" and ?c = "config_at X i 0" and ?I = "index_map xt_id (xs_types X)" and ?ts = "xs_types X"
  have x: "?x \<in> set (xs_constructors X)" using assms(2) by simp
  have d: "distinct (map xt_id ?ts)" and ok: "ok_comb (arity_of ?c) ?x" and xt: "xc_type ?x \<in> set (map xt_id ?ts)"
    using assms(1) x by (auto simp: ok_schema_def list_all_iff arity_of_config)
  then obtain k where k: "k < length ?ts" "xt_id (?ts ! k) = xc_type ?x" by (auto simp: in_set_conv_nth)
  then have Ik: "?I (xc_type ?x) = Some k" using d by (simp add: index_map_distinct)
  let ?old = "\<lambda>t. filter (\<lambda>x. xc_type x = xt_id t) (take i (xs_constructors X))"
  have T: "cf_types ?c = map (\<lambda>t. (val_ty t)\<lparr>ct_constructors := map (val_comb ?I) (?old t)\<rparr>) ?ts"
    by (simp add: config_at_def config_of_def Let_def of_type_def)
  have "length (filter P (take (Suc i) xs)) \<le> length (filter P xs)" for P and xs :: "xcomb list"
    by (metis append_take_drop_id filter_append length_append le_add1)
  from this[of "\<lambda>x. xc_type x = xt_id (?ts ! k)" "xs_constructors X"]
  have "Suc (length (?old (?ts ! k))) \<le> xt_num (?ts ! k)"
    using assms(1,2) k by (auto simp: ok_schema_def list_all_length of_type_def take_Suc_conv_app_nth)
  then have add: "add_constructor (val_comb ?I ?x) (cf_types ?c ! k)
      = Inr ((val_ty (?ts ! k))\<lparr>ct_constructors := map (val_comb ?I) (?old (?ts ! k)) @ [val_comb ?I ?x]\<rparr>)" (is "_ = Inr ?ty")
    using k by (simp add: add_constructor_def T Let_def val_ty_def)
  have "(cf_types ?c)[k := ?ty] = cf_types (config_at X (Suc i) 0)"
  proof (rule nth_equalityI)
    fix j assume "j < length ((cf_types ?c)[k := ?ty])"
    then have j: "j < length ?ts" by (simp add: T)
    have "xc_type ?x = xt_id (?ts ! j) \<longleftrightarrow> j = k" using d j k by (metis distinct_conv_nth length_map nth_map)
    then show "(cf_types ?c)[k := ?ty] ! j = cf_types (config_at X (Suc i) 0) ! j"
      using j k assms(2)
      by (auto simp: T nth_list_update config_at_def config_of_def Let_def of_type_def take_Suc_conv_app_nth)
  qed (simp add: T config_at_def config_of_def Let_def)
  then have next_c: "?c\<lparr>cf_types := (cf_types ?c)[k := ?ty]\<rparr> = config_at X (Suc i) 0"
    by (simp add: config_at_def config_of_def Let_def)
  note r = reads_combinator[OF ok assms(3), of "(?c, v)"]
  show ?thesis
    unfolding read_constructor_def
    apply (rule reads_last[OF r], simp)
    apply (rule reads_pre[OF reads_config], rule reads_pre[OF reads_lift])
     apply (simp add: cfg_get_type_def val_comb_def Let_def Ik)
    apply (rule reads_pre[OF reads_lift], simp add: add)
    by (rule reads_modify) (simp add: next_c)
qed

lemma reads_function:
  assumes "ok_schema X" and "i < length (xs_functions X)" and "length (enc_comb (xs_functions X ! i)) < 2 ^ 31"
  defines "n \<equiv> length (xs_constructors X)"
  shows "reads read_function (enc_comb (xs_functions X ! i)) (config_at X n i, v) ()
    (config_at X n (Suc i), cb_var_count (val_comb (index_map xt_id (xs_types X)) (xs_functions X ! i)))"
proof -
  let ?x = "xs_functions X ! i" and ?c = "config_at X n i"
  have d: "distinct (map xt_id (xs_types X))" and ok: "ok_comb (arity_of ?c) ?x"
    using assms(1,2) by (auto simp: ok_schema_def list_all_length arity_of_config)
  have "cfg_add_function (val_comb (index_map xt_id (xs_types X)) ?x) ?c = config_at X n (Suc i)"
    using assms(2)
    by (simp add: cfg_add_function_def config_at_def config_of_def Let_def take_Suc_conv_app_nth index_map_snoc of_type_def)
      (simp add: val_comb_def Let_def)
  then show ?thesis
    unfolding read_function_def
    apply (intro reads_last[OF reads_combinator[OF ok assms(3)]], simp)
    by (rule reads_modify) simp
qed


lemma reads_end: "ahead [] s \<Longrightarrow> sdata_len (cp s) = 0 \<Longrightarrow> try_parse fetch_end s = Inr ((), s)"
  by (simp add: try_parse_def fetch_end_def ahead_def bind_apply)

definition read_body :: "unit cfg" where
  "read_body =
     bind try_parse_int (\<lambda>_.
     bind try_parse_int (\<lambda>_.
     bind try_parse_int (\<lambda>types_n.
     bind (read_types (nat (sint types_n))) (\<lambda>total.
     bind try_parse_int (\<lambda>n.
     bind (check (0 \<le> sint n \<and> nat (sint n) = total)) (\<lambda>_.
     bind (read_times (nat (sint n)) read_constructor) (\<lambda>_.
     bind try_parse_int (\<lambda>functions_n.
     bind (read_times (nat (sint functions_n)) read_function) (\<lambda>_. ret ())))))))))"

lemma sum_constructors: "ok_schema X \<Longrightarrow> sum_list (map xt_num (xs_types X)) = length (xs_constructors X)"
proof -
  assume X: "ok_schema X"
  then have "map xt_num (xs_types X) = map (\<lambda>i. length (filter (\<lambda>x. xc_type x = i) (xs_constructors X))) (map xt_id (xs_types X))"
    by (auto simp: ok_schema_def list_all_iff of_type_def)
  with X show ?thesis by (simp only:) (rule length_of_types, auto simp: ok_schema_def list_all_iff)
qed

lemma length_enc_comb: "4 \<le> length (enc_comb x)"
  by (simp add: enc_comb_def)

lemma length_enc_ty: "4 \<le> length (enc_ty x)"
  by (simp add: enc_ty_def)

lemma reads_body:
  assumes "ok_schema X" and "length (enc_schema X) < 2 ^ 31"
  shows "\<exists>v. reads read_body (drop 4 (enc_schema X)) (empty_config, 0) () (config_of X, v)"
proof -
  let ?I = "index_map xt_id (xs_types X)" and ?cs = "xs_constructors X" and ?fs = "xs_functions X" and ?ts = "xs_types X"
  have l: "4 * length ?cs \<le> length (concat (map enc_comb ?cs))" "4 * length ?fs \<le> length (concat (map enc_comb ?fs))"
    "4 * length ?ts \<le> length (concat (map enc_ty ?ts))"
    by (rule length_le_concat; simp add: length_enc_comb length_enc_ty)+
  have "length ?cs < 2 ^ 31" "length ?fs < 2 ^ 31" "length ?ts < 2 ^ 31"
    using assms(2) l by (simp_all add: enc_schema_def)
  then have n: "nat (sint (of_nat (length ?cs) :: u32)) = length ?cs" "nat (sint (of_nat (length ?fs) :: u32)) = length ?fs"
    "nat (sint (of_nat (length ?ts) :: u32)) = length ?ts" "0 \<le> sint (of_nat (length ?cs) :: u32)"
    by (simp_all add: sint_of_nat)
  define S where "S xs i = (if i = 0 then 0 else cb_var_count (val_comb ?I (xs ! (i - 1))))" for xs i
  have c0: "config_at X 0 0 = fold (cfg_add_type \<circ> val_ty) ?ts empty_config"
    unfolding added_types by (simp add: config_at_def config_of_def Let_def of_type_def empty_config_def val_ty_def)
  have ts: "reads (read_types (length ?ts)) (concat (map enc_ty ?ts)) (empty_config, 0) (length ?cs) (config_at X 0 0, 0)"
    using reads_types[of ?ts "(empty_config, 0)"] assms(1) by (simp add: ok_schema_def c0 sum_constructors[OF assms(1)])
  have len: "length (enc_comb x) < 2 ^ 31" if "x \<in> set ?cs \<or> x \<in> set ?fs" for x
    using that assms(2) length_concat_le[of x ?cs enc_comb] length_concat_le[of x ?fs enc_comb] by (auto simp: enc_schema_def)
  have cs: "reads (read_times (length ?cs) read_constructor) (concat (map enc_comb ?cs)) (config_at X 0 0, 0)
      (replicate (length ?cs) ()) (config_at X (length ?cs) 0, S ?cs (length ?cs))"
    using reads_steps[of ?cs read_constructor enc_comb "\<lambda>i. (config_at X i 0, S ?cs i)"] reads_constructor[OF assms(1)] len
    by (simp add: S_def)
  have fs: "\<exists>v. reads (read_times (length ?fs) read_function) (concat (map enc_comb ?fs)) (config_at X (length ?cs) 0, w)
      (replicate (length ?fs) ()) (config_of X, v)" for w
    using reads_steps[of ?fs read_function enc_comb "\<lambda>i. (config_at X (length ?cs) i, if i = 0 then w else S ?fs i)"]
      reads_function[OF assms(1)] len by (auto simp: S_def config_at_def)
  then obtain v where fs: "reads (read_times (length ?fs) read_function) (concat (map enc_comb ?fs))
      (config_at X (length ?cs) 0, S ?cs (length ?cs)) (replicate (length ?fs) ()) (config_of X, v)" by blast
  have "reads read_body (bytes4 0 @ bytes4 0 @ bytes4 (of_nat (length ?ts)) @ concat (map enc_ty ?ts)
     @ bytes4 (of_nat (length ?cs)) @ concat (map enc_comb ?cs)
     @ bytes4 (of_nat (length ?fs)) @ concat (map enc_comb ?fs)) (empty_config, 0) () (config_of X, v)"
    unfolding read_body_def
    apply (rule reads_seq[OF reads_int], rule reads_seq[OF reads_int], rule reads_seq[OF reads_int])
    unfolding n
    apply (rule reads_seq[OF ts], rule reads_seq[OF reads_int], rule reads_pre[OF reads_check])
     apply (simp add: n)
    unfolding n
    apply (rule reads_seq[OF cs], rule reads_seq[OF reads_int])
    unfolding n
    by (rule reads_last[OF fs]) (simp add: reads_ret)
  then show ?thesis by (auto simp: enc_schema_def)
qed

lemma parse_config_body:
  "parse_config =
     bind try_parse_int (\<lambda>v.
     bind (modify (\<lambda>s. s\<lparr>schema_version := get_schema_version v\<rparr>)) (\<lambda>_.
     bind (check (2 \<le> get_schema_version v)) (\<lambda>_.
     bind read_body (\<lambda>_.
     bind (try_parse fetch_end) (\<lambda>_. gets config)))))"
  by (simp add: parse_config_def read_body_def bind_assoc)

lemma aligned_concat: "(\<And>x. x \<in> set xs \<Longrightarrow> aligned (f x)) \<Longrightarrow> aligned (concat (map f xs))"
  by (induction xs) simp_all

lemma aligned_bytes [simp]: "aligned (bytes4 a)" "aligned (bytes8 b)" "aligned (string_bytes w)"
  by (simp_all add: aligned_def aligned_string_bytes[unfolded aligned_def])

lemma aligned_nat [simp]: "aligned (enc_nat n)"
  by (cases n) simp_all

lemma aligned_enc: "aligned (enc_type t)" "aligned (enc_expr e)" "aligned (enc_arg a)"
  by (induction t and e and a) (auto intro!: aligned_concat split: option.split)

lemma aligned_schema: "aligned (enc_schema X)"
proof -
  have "aligned (enc_comb x)" for x
    by (simp add: enc_comb_def enc_args_def aligned_enc aligned_concat split: option.split)
  moreover have "aligned (enc_ty t)" for t by (simp add: enc_ty_def)
  ultimately show ?thesis by (simp add: enc_schema_def aligned_concat)
qed

lemma read_enc_schema:
  assumes "ok_schema X" and "length (enc_schema X) < 2 ^ 25"
  shows "read_tl_config (enc_schema X) = Inr (config_of X)"
proof -
  let ?bs = "enc_schema X"
  let ?s = "config_parser ?bs"
  define r where "r = drop 4 ?bs"
  have bs: "?bs = bytes4 TLS_SCHEMA_V2 @ r" by (simp add: r_def enc_schema_def)
  have a: "ahead ?bs ?s" by (simp add: ahead_def config_parser_def new_simple_parser_def)
  then have a4: "ahead (bytes4 TLS_SCHEMA_V2) ?s" and ar: "ahead r (eat 4 ?s)" unfolding bs ahead_append by simp_all
  let ?t = "(eat 4 ?s)\<lparr>schema_version := 2\<rparr>"
  obtain v where "reads read_body r (empty_config, 0) () (config_of X, v)"
    using reads_body[OF assms(1)] assms(2) by (auto simp: r_def)
  moreover have "ahead r ?t" using ar by (simp add: ahead_def)
  ultimately have b: "read_body ?t = Inr ((), (eat (length r) ?t)\<lparr>config := config_of X, var_count := v\<rparr>)" (is "_ = Inr ((), ?u)")
    unfolding reads_def by (simp add: config_parser_def)
  have "length ?bs = 4 + length r" by (simp add: bs)
  then have "sdata_len (cp ?u) = 0" by (simp add: eat_def config_parser_def new_simple_parser_def)
  moreover have "serror (cp ?u) = None" by (simp add: eat_def config_parser_def new_simple_parser_def)
  ultimately have e: "try_parse fetch_end ?u = Inr ((), ?u)"
    by (simp add: try_parse_def fetch_end_def bind_apply)
  have "get_schema_version TLS_SCHEMA_V2 = 2" by (simp add: get_schema_version_def tls tls_cfg)
  then have "parse_config ?s = Inr (config_of X, ?u)"
    unfolding parse_config_body using try_parse_int_run[OF a4] b e by simp
  moreover have "?bs \<noteq> []" using bs by (auto simp: bytes4_def)
  ultimately show ?thesis using aligned_schema[of X] assms(2) by (simp add: read_tl_config_def aligned_def)
qed

subsection \<open>The contract of a reader\<close>

text \<open>
  What the producer of a file may rely on: the bytes of an acceptable scheme that are not too many for the reader are read as the
  configuration of the scheme.
\<close>

locale tlo_reader =
  fixes read :: "u8 list \<Rightarrow> fault + 'c" and accepts :: "xschema \<Rightarrow> bool" and meaning :: "xschema \<Rightarrow> 'c" and limit :: nat
  assumes reads_back: "accepts X \<Longrightarrow> length (enc_schema X) < limit \<Longrightarrow> read (enc_schema X) = Inr (meaning X)"
begin

lemma never_fails: "accepts X \<Longrightarrow> length (enc_schema X) < limit \<Longrightarrow> read (enc_schema X) \<noteq> Inl e"
  by (simp add: reads_back)

lemma same_bytes_same_meaning:
  "accepts X \<Longrightarrow> accepts Y \<Longrightarrow> length (enc_schema X) < limit \<Longrightarrow> enc_schema X = enc_schema Y \<Longrightarrow> meaning X = meaning Y"
  using reads_back[of X] reads_back[of Y] by simp

end

interpretation config_reader: tlo_reader read_tl_config ok_schema config_of "2 ^ 25"
  by unfold_locales (rule read_enc_schema)

subsection \<open>Properties\<close>



text \<open>
  C38: Writer and reader disagree on strings of exactly 254 characters: the writer accepts them and writes the length in one byte, which the
  reader takes for the mark of a long string. It then reads a length from the first three characters and, when less data is left, copies that
  many bytes from behind a literal.
\<close>

theorem string_254_misread:
  assumes "length w = 254" and "0 < (of_char (w ! 2) :: nat)" and "length r < 2 ^ 15"
  shows "wstr (Some w) s = Inr ((), s\<lparr>out := out s @ string_bytes w\<rparr>) \<and>
    fetch_string (new_simple_parser (string_bytes w @ r) (length (string_bytes w @ r))) = Inl OutOfBounds"
proof
  show "wstr (Some w) s = Inr ((), s\<lparr>out := out s @ string_bytes w\<rparr>)" using assms(1) by (simp add: wstr_bytes)
  obtain a b c v where "w = a # b # c # v" using assms(1) by (cases w; cases "tl w"; cases "tl (tl w)") auto
  then have w: "w = a # b # c # v" "length v = 251" "0 < (of_char c :: nat)" using assms(1,2) by auto
  let ?m = "of_char a + of_char b * 256 + of_char c * 65536 :: nat"
  have l: "string_bytes w = 254 # of_char a # of_char b # of_char c # map of_char v @ [0]"
    using w(1,2) by (simp add: string_bytes_def)
  have "252 + length r < (?m + 3) div 4 * 4"
  proof -
    have "m \<le> (m + 3) div 4 * 4" for m :: nat by presburger
    from this[of ?m] have "?m \<le> (?m + 3) div 4 * 4" .
    moreover have "65536 \<le> ?m" using w(3) by simp
    moreover have "252 + length r < 65536" using assms(3) by simp
    ultimately show ?thesis by (meson le_less_trans less_le_trans)
  qed
  moreover have "length (string_bytes w @ r) = 256 + length r" by (simp add: l w(2))
  moreover have "unat (254 :: u8) = 254" by (simp add: unat_numeral)
  moreover have "\<not> 4 + ?m \<le> 9" using w(3) by simp
  ultimately show "fetch_string (new_simple_parser (string_bytes w @ r) (length (string_bytes w @ r))) = Inl OutOfBounds"
    by (simp add: fetch_string_def new_simple_parser_def check_len_def set_error_def read_bytes_def bind_apply Let_def l unat_of_char)
qed

theorem string_254_misread_witness:
  "fetch_string (new_simple_parser (string_bytes (replicate 254 (CHR ''a''))) (length (string_bytes (replicate 254 (CHR ''a'')))))
     = Inl OutOfBounds"
  using string_254_misread[of "replicate 254 (CHR ''a'')" "[]"] by simp

end
