(* ===== verification/TL_Exchange.thy ===== *)
theory TL_Exchange
  imports TL_Format
begin

section \<open>What tlc writes is what the code generators read\<close>

text \<open>
  The meaning of the compiler's tables as a scheme of the exchange format: \<open>abs_tree\<close> follows a combinator tree as the writer does and gives
  its abstract syntax, or nothing when the tree is not well formed (a node of the wrong kind, a variable that is not
  bound, a type with the wrong number of arguments, a name of more than 253 characters). The writer writes exactly
  the bytes of this scheme, and with the reader of TL_Format this gives the round trip from the compiler's tables to the configuration of the code generators.
\<close>

unbundle bit_operations_syntax

subsection \<open>The meaning of combinator trees\<close>

text \<open>
  What a node can stand for: a number, a type, a type under a condition (variable and bit), or a list of arguments. A numbering gives the numbers of
  the variables bound so far, by the address of the field that binds them, and the next free number.
\<close>

datatype xtree = XN xnat | XT xtype | XO u32 u32 xtype | XL "xarg list"

type_synonym numbering = "(addr \<Rightarrow> u32 option) \<times> int"

text \<open>The flags that are written.\<close>

definition type_word :: "u64 \<Rightarrow> u32" where
  "type_word f = (if f AND 1 \<noteq> 0 then 1 else 0) OR
     (if f AND ucast FLAG_DEFAULT_CONSTRUCTOR \<noteq> 0 then FLAG_DEFAULT_CONSTRUCTOR else 0)"

definition field_word :: "u64 \<Rightarrow> u32" where
  "field_word f = (if f AND 1 \<noteq> 0 then 1 else 0) OR (if f AND 32 \<noteq> 0 then ucast FLAG_OPT_VAR else 0) OR
     (if f AND FLAG_EXCL \<noteq> 0 then ucast FLAG_EXCL else 0)"

abbreviation obind :: "'a option \<Rightarrow> ('a \<Rightarrow> 'b option) \<Rightarrow> 'b option" where
  "obind \<equiv> Option.bind"

definition var_number :: "numbering \<Rightarrow> cdata \<Rightarrow> u32 option" where
  "var_number v d = (case d of DNode q \<Rightarrow> fst v q | _ \<Rightarrow> None)"

definition abs_num :: "numbering \<Rightarrow> cnode \<Rightarrow> xnat option" where
  "abs_num v N =
     (if ctype N = type_num_value then Some (XConst (ucast (type_flags N)))
      else map_option (XVar (ucast (type_flags N))) (var_number v (data N)))"

definition abs_name :: "cdata \<Rightarrow> string option" where
  "abs_name d = (case d of DNull \<Rightarrow> Some [] | DStr w \<Rightarrow> if w = ''_'' then Some [] else if length w \<le> 253 then Some w else None | _ \<Rightarrow> None)"

text \<open>Is the field type \<open>#\<close> or \<open>Type\<close>, so that the field binds a variable?\<close>

definition node_is_var :: "tlst \<Rightarrow> cnode \<Rightarrow> bool option" where
  "node_is_var p l =
     (if act l = act_type \<and> data l \<noteq> DNull then
        case data l of
          DType t \<Rightarrow> if t = 0 then Some False else map_option (\<lambda>ty. ty_id ty = ''#'' \<or> ty_id ty = ''Type'') (types p t)
        | _ \<Rightarrow> None
      else Some False)"

text \<open>As in the writer, the meaning of subtrees is an argument \<open>at\<close>, and \<open>abs_tree\<close> passes itself with one unit of fuel less.\<close>

type_synonym subtree_abs = "addr \<Rightarrow> numbering \<Rightarrow> (xtree \<times> numbering) option"

definition abs_arg :: "tlst \<Rightarrow> subtree_abs \<Rightarrow> addr \<Rightarrow> cnode \<Rightarrow> numbering \<Rightarrow> (xarg \<times> numbering) option" where
  "abs_arg p at T N v =
     (if act N = act_field \<and> left N \<noteq> 0 \<and> flags N AND (FLAG_OPT_FIELD OR FLAG_IS_VAR) = 0 then
        obind (abs_name (data N)) (\<lambda>w.
        obind (nodes p (left N)) (\<lambda>l.
        obind (node_is_var p l) (\<lambda>isv.
        let v1 = (if isv then ((fst v)(T \<mapsto> word_of_int (snd v)), snd v + 1) else v);
            k = (if isv then Some (word_of_int (snd v)) else None) in
        obind (at (left N) v1) (\<lambda>(x, v2).
        case x of
          XT t \<Rightarrow> if act l = act_opt_field then None else Some (XArg w (field_word (flags N)) k None t, v2)
        | XO a b t \<Rightarrow> if act l = act_opt_field then Some (XArg w (field_word (flags N)) k (Some (a, b)) t, v2) else None
        | _ \<Rightarrow> None))))
      else None)"

primrec abs_args :: "nat \<Rightarrow> tlst \<Rightarrow> subtree_abs \<Rightarrow> addr \<Rightarrow> numbering \<Rightarrow> (xarg list \<times> numbering) option" where
  "abs_args 0 p at T v = None"
| "abs_args (Suc n) p at T v =
     obind (nodes p T) (\<lambda>N.
     if ctype N = type_list then
       (if act N = act_union \<and> left N \<noteq> 0 \<and> right N \<noteq> 0 then
          obind (abs_args n p at (left N) v) (\<lambda>(as, v).
          obind (abs_args n p at (right N) v) (\<lambda>(bs, v). Some (as @ bs, v)))
        else None)
     else if ctype N = type_list_item then map_option (\<lambda>(a, v). ([a], v)) (abs_arg p at T N v)
     else None)"

primrec abs_spine :: "nat \<Rightarrow> tlst \<Rightarrow> subtree_abs \<Rightarrow> addr \<Rightarrow> numbering \<Rightarrow> (tl_type \<times> u32 \<times> xexpr list \<times> numbering) option" where
  "abs_spine 0 p at T v = None"
| "abs_spine (Suc n) p at T v =
     obind (nodes p T) (\<lambda>N.
     if act N = act_arg then
       obind (abs_spine n p at (left N) v) (\<lambda>(ty, f, es, v).
       obind (nodes p (right N)) (\<lambda>r.
       obind (at (right N) v) (\<lambda>(x, v).
       case x of
         XN e \<Rightarrow> if is_num (ctype r) then Some (ty, f, es @ [XNat e], v) else None
       | XT t \<Rightarrow> if is_num (ctype r) then None else Some (ty, f, es @ [XTy t], v)
       | _ \<Rightarrow> None)))
     else if act N = act_type then
       (case data N of
          DType t \<Rightarrow> map_option (\<lambda>ty. (ty, type_word (flags N), [], v)) (types p t)
        | _ \<Rightarrow> None)
     else None)"

definition abs_type :: "nat \<Rightarrow> tlst \<Rightarrow> subtree_abs \<Rightarrow> addr \<Rightarrow> cnode \<Rightarrow> numbering \<Rightarrow> (xtype \<times> numbering) option" where
  "abs_type n p at T N v =
     (if n = 0 then None
      else if act N = act_var then
        if flags N AND 1 = 0 then map_option (\<lambda>k. (XTypeVar k, v)) (var_number v (data N)) else None
      else if act N = act_type \<or> act N = act_arg then
        obind (abs_spine n p at T v) (\<lambda>(ty, f, es, v).
        if params_num ty = int (length es) then Some (XType (ty_name ty) f es, v) else None)
      else None)"

definition abs_array :: "subtree_abs \<Rightarrow> cnode \<Rightarrow> numbering \<Rightarrow> (xtype \<times> numbering) option" where
  "abs_array at N v =
     obind (at (left N) v) (\<lambda>(m, v).
     obind (at (right N) v) (\<lambda>(as, v).
     case (m, as) of (XN m, XL as) \<Rightarrow> Some (XArray m as, v) | _ \<Rightarrow> None))"

primrec abs_tree :: "nat \<Rightarrow> tlst \<Rightarrow> subtree_abs" where
  "abs_tree 0 p T v = None"
| "abs_tree (Suc n) p T v =
     (if T = 0 then None
      else
        obind (nodes p T) (\<lambda>N.
        if ctype N = type_list_item \<or> ctype N = type_list then
          map_option (\<lambda>(as, v). (XL as, v)) (abs_args (Suc n) p (abs_tree n p) T v)
        else if is_num (ctype N) then map_option (\<lambda>x. (XN x, v)) (abs_num v N)
        else if act N = act_array then map_option (\<lambda>(t, v). (XT t, v)) (abs_array (abs_tree n p) N v)
        else if act N = act_opt_field then
          obind (nodes p (left N)) (\<lambda>l.
          obind (var_number v (data l)) (\<lambda>k.
          obind (nodes p (right N)) (\<lambda>r.
          if ctype r = type_type then
            map_option (\<lambda>(t, v). (XO k (ucast (type_flags l)) t, v))
              (if act r = act_array then abs_array (abs_tree n p) r v else abs_type n p (abs_tree n p) (right N) r v)
          else None)))
        else map_option (\<lambda>(t, v). (XT t, v)) (abs_type (Suc n) p (abs_tree n p) T N v)))"

subsection \<open>Writing\<close>

text \<open>
  \<open>puts p m R bs\<close>: on the program \<open>p\<close>, \<open>m\<close> returns, appends exactly \<open>bs\<close>, changes nothing of \<open>p\<close> but the position in the random sequence, and its result
  satisfies \<open>R\<close>.
\<close>

definition puts :: "tlst \<Rightarrow> 'a wr \<Rightarrow> ('a \<Rightarrow> bool) \<Rightarrow> u8 list \<Rightarrow> bool" where
  "puts p m R bs \<longleftrightarrow> (\<forall>k w. \<exists>x k'. m \<lparr>prog = p\<lparr>lrand48_count := k\<rparr>, out = w\<rparr> =
     Inr (x, \<lparr>prog = p\<lparr>lrand48_count := k'\<rparr>, out = w @ bs\<rparr>) \<and> R x)"

lemma puts_bind:
  assumes "puts p m R bs" and "\<And>x. R x \<Longrightarrow> puts p (f x) Q cs"
  shows "puts p (bind m f) Q (bs @ cs)"
  unfolding puts_def
proof (intro allI)
  fix k w
  obtain x i where 1: "m \<lparr>prog = p\<lparr>lrand48_count := k\<rparr>, out = w\<rparr> = Inr (x, \<lparr>prog = p\<lparr>lrand48_count := i\<rparr>, out = w @ bs\<rparr>)" "R x"
    using assms(1) unfolding puts_def by blast
  obtain y j where 2: "f x \<lparr>prog = p\<lparr>lrand48_count := i\<rparr>, out = w @ bs\<rparr> =
      Inr (y, \<lparr>prog = p\<lparr>lrand48_count := j\<rparr>, out = (w @ bs) @ cs\<rparr>)" "Q y"
    using assms(2)[OF 1(2)] unfolding puts_def by blast
  show "\<exists>x k'. bind m f \<lparr>prog = p\<lparr>lrand48_count := k\<rparr>, out = w\<rparr> =
      Inr (x, \<lparr>prog = p\<lparr>lrand48_count := k'\<rparr>, out = w @ bs @ cs\<rparr>) \<and> Q x"
    using 1 2 by auto
qed

lemma puts_seq: "puts p m (\<lambda>y. y = x) bs \<Longrightarrow> puts p (f x) Q cs \<Longrightarrow> puts p (bind m f) Q (bs @ cs)"
  using puts_bind[of p m "\<lambda>y. y = x" bs f Q cs] by blast

lemma puts_pre: "puts p m (\<lambda>y. y = x) [] \<Longrightarrow> puts p (f x) Q cs \<Longrightarrow> puts p (bind m f) Q cs"
  using puts_seq[of p m x "[]"] by simp

lemma puts_last: "puts p m R bs \<Longrightarrow> (\<And>x. R x \<Longrightarrow> puts p (f x) Q []) \<Longrightarrow> puts p (bind m f) Q bs"
  using puts_bind[of p m R bs f Q "[]"] by simp

lemma puts_ret: "R x \<Longrightarrow> puts p (ret x) R []"
  by (simp add: puts_def) blast

lemma puts_check: "b \<Longrightarrow> puts p (check b) (\<lambda>y. y = ()) []"
  by (simp add: puts_def) blast

lemma puts_int: "puts p (wint a) (\<lambda>y. y = ()) (bytes4 a)"
  by (simp add: puts_def wint_def wdata_def) blast

lemma puts_long: "puts p (wll a) (\<lambda>y. y = ()) (bytes8 a)"
  by (simp add: puts_def wll_def wdata_def) blast

lemma puts_string: "length w \<le> 254 \<Longrightarrow> puts p (wstr (Some w)) (\<lambda>y. y = ()) (string_bytes w)"
  by (simp add: puts_def wstr_bytes) blast

lemma puts_no_string: "puts p (wstr None) (\<lambda>y. y = ()) (string_bytes [])"
proof -
  have "string_bytes [] = bytes4 0" by code_simp
  then show ?thesis using puts_int by (simp add: wstr_def)
qed

text \<open>What the writer asks of the program.\<close>

lemma puts_prog: "(\<And>k. m (p\<lparr>lrand48_count := k\<rparr>) = Inr (x, p\<lparr>lrand48_count := k\<rparr>)) \<Longrightarrow> puts p (in_prog m) (\<lambda>y. y = x) []"
  by (simp add: puts_def in_prog_def) blast

lemma puts_node: "nodes p T = Some N \<Longrightarrow> puts p (in_prog (node T)) (\<lambda>y. y = N) []"
  by (rule puts_prog) (simp add: deref_def)

lemma puts_type: "types p T = Some N \<Longrightarrow> puts p (in_prog (tyobj T)) (\<lambda>y. y = N) []"
  by (rule puts_prog) (simp add: deref_def)

lemma puts_comb: "combs p T = Some N \<Longrightarrow> puts p (in_prog (comb T)) (\<lambda>y. y = N) []"
  by (rule puts_prog) (simp add: deref_def)

text \<open>The numbering kept in a binding tree.\<close>

definition agree :: "vnums \<Rightarrow> numbering \<Rightarrow> bool" where
  "agree v a \<longleftrightarrow> snd v = snd a \<and> values_ok (fst v) \<and> fst a = map_option vv_num \<circ> tree_map vv_ptr (fst v) \<and>
     dom (fst a) \<subseteq> near - {0}"

lemma agree_empty: "agree (TNil, 0) (Map.empty, 0)"
  by (simp add: agree_def fun_eq_iff)

lemma agree_number: "agree v a \<Longrightarrow> fst a q = Some k \<Longrightarrow> tl_get_var_value_num (fst v) q = k"
proof -
  assume a: "agree v a" "fst a q = Some k"
  then have "q \<in> near" "q \<noteq> 0" unfolding agree_def by blast+
  with a show ?thesis unfolding agree_def by (auto simp: tl_get_var_value_map)
qed

lemma ucast_word_of_int: "(ucast (word_of_int k :: u64) :: u32) = word_of_int k"
  by (rule bit_word_eqI) (simp add: bit_ucast_iff bit_word_of_int_iff)

lemma agree_set:
  assumes "agree v a" and "T \<in> near" and "T \<noteq> 0"
  shows "puts p (in_prog (tl_set_var_value_num (fst v) T 0 (word_of_int (snd v))))
    (\<lambda>V. agree (V, snd v + 1) ((fst a)(T \<mapsto> word_of_int (snd a)), snd a + 1)) []"
  unfolding puts_def
proof (intro allI)
  fix k w
  let ?s = "p\<lparr>lrand48_count := k\<rparr>"
  have V: "values_ok (fst v)" using assms(1) by (simp add: agree_def)
  obtain V' where V': "tl_set_var_value_num (fst v) T 0 (word_of_int (snd v)) ?s = Inr (V', ?s\<lparr>lrand48_count := Suc k\<rparr>)" "values_ok V'"
     "tree_map vv_ptr V' = (tree_map vv_ptr (fst v))(T \<mapsto> \<lparr>vv_ptr = T, vv_val = 0, vv_num = ucast (word_of_int (snd v) :: u64)\<rparr>)"
    using tl_set_var_value_num_map[OF V assms(2,3), of 0 "word_of_int (snd v)" ?s] by auto
  have "agree (V', snd v + 1) ((fst a)(T \<mapsto> word_of_int (snd a)), snd a + 1)"
    using assms V'(2,3) by (auto simp: agree_def fun_eq_iff ucast_word_of_int)
  then show "\<exists>x k'. in_prog (tl_set_var_value_num (fst v) T 0 (word_of_int (snd v))) \<lparr>prog = ?s, out = w\<rparr> =
      Inr (x, \<lparr>prog = p\<lparr>lrand48_count := k'\<rparr>, out = w @ []\<rparr>) \<and>
      agree (x, snd v + 1) ((fst a)(T \<mapsto> word_of_int (snd a)), snd a + 1)"
    using V'(1) by (simp add: in_prog_def) blast
qed

primrec enc_tree :: "xtree \<Rightarrow> u8 list" where
  "enc_tree (XN n) = enc_nat n"
| "enc_tree (XT t) = enc_type t"
| "enc_tree (XO a b t) = bytes4 a @ bytes4 b @ enc_type t"
| "enc_tree (XL as) = enc_args as"

primrec ok_tree :: "(u32 \<Rightarrow> int option) \<Rightarrow> xtree \<Rightarrow> bool" where
  "ok_tree ar (XN n) = True"
| "ok_tree ar (XT t) = ok_type ar t"
| "ok_tree ar (XO a b t) = ok_type ar t"
| "ok_tree ar (XL as) = list_all (ok_arg ar) as"

text \<open>Flags.\<close>

lemma and_flag: "x AND push_bit k 1 \<noteq> 0 \<longleftrightarrow> bit x k" for x :: "'a :: len word"
  by (simp add: bit_iff_and_push_bit_not_eq_0)

lemma field_word_ok: "field_word f AND 6 = 0"
proof -
  have "\<not> bit (field_word f) 1" "\<not> bit (field_word f) 2"
    by (auto simp: field_word_def bit_simps FLAG_OPT_VAR_def FLAG_EXCL_def)
  then show ?thesis by (intro bit_word_eqI) (auto simp: bit_and_iff flag_bits)
qed

lemma field_flags_word:
  fixes k :: u32 and e :: "(u32 \<times> u32) option"
  assumes "f AND (FLAG_OPT_FIELD OR FLAG_IS_VAR) = 0" and "e \<noteq> None \<longleftrightarrow> o1"
  shows "write_field_flags ((if o1 then f OR FLAG_OPT_FIELD else f) OR FLAG_IS_VAR) = wint (arg_flags (field_word f) (Some k) e)"
    and "write_field_flags (if o1 then f OR FLAG_OPT_FIELD else f) = wint (arg_flags (field_word f) (None :: u32 option) e)"
proof -
  have "f AND FLAG_OPT_FIELD = 0" "f AND FLAG_IS_VAR = 0"
    using assms(1) by (simp_all add: bit.conj_disj_distrib or_eq_0_iff)
  then have f: "\<not> bit f 20" "\<not> bit f 21" unfolding FLAG_OPT_FIELD_def FLAG_IS_VAR_def using and_flag[of f 20] and_flag[of f 21] by simp_all
  have m: "x AND 1 \<noteq> 0 \<longleftrightarrow> bit x 0" "x AND 32 \<noteq> 0 \<longleftrightarrow> bit x 5" "x AND FLAG_EXCL \<noteq> 0 \<longleftrightarrow> bit x 18"
    "x AND FLAG_OPT_FIELD \<noteq> 0 \<longleftrightarrow> bit x 20" "x AND FLAG_IS_VAR \<noteq> 0 \<longleftrightarrow> bit x 21" for x :: u64
    using and_flag[of x 0] and_flag[of x 5] and_flag[of x 18] and_flag[of x 20] and_flag[of x 21]
    by (simp_all add: FLAG_EXCL_def FLAG_OPT_FIELD_def FLAG_IS_VAR_def)
  have b: "bit (x OR FLAG_OPT_FIELD) n \<longleftrightarrow> bit x n \<or> n = 20" "bit (x OR FLAG_IS_VAR) n \<longleftrightarrow> bit x n \<or> n = 21" for x :: u64 and n
    using bit_exp_iff[of 20 n, where 'a = u64] bit_exp_iff[of 21 n, where 'a = u64]
    by (auto simp: bit_or_iff FLAG_OPT_FIELD_def FLAG_IS_VAR_def push_bit_of_1)
  have n: "(0::nat) \<noteq> 20" "(0::nat) \<noteq> 21" "(5::nat) \<noteq> 20" "(5::nat) \<noteq> 21" "(18::nat) \<noteq> 20" "(18::nat) \<noteq> 21" "(20::nat) \<noteq> 21" "(21::nat) \<noteq> 20"
    by simp_all
  show "write_field_flags ((if o1 then f OR FLAG_OPT_FIELD else f) OR FLAG_IS_VAR) = wint (arg_flags (field_word f) (Some k) e)"
    "write_field_flags (if o1 then f OR FLAG_OPT_FIELD else f) = wint (arg_flags (field_word f) (None :: u32 option) e)"
    unfolding write_field_flags_def arg_flags_def field_word_def m assms(2)
    by (cases o1; simp only: b n f if_True if_False simp_thms option.distinct not_False_eq_True; simp only: or.assoc)+
qed


subsection \<open>The writer writes what trees mean\<close>

text \<open>\<open>faithful\<close>: a writer of subtrees writes what they mean.\<close>

definition ty_arities :: "tlst \<Rightarrow> (u32 \<Rightarrow> int option) \<Rightarrow> bool" where
  "ty_arities p ar \<longleftrightarrow> (\<forall>t ty. types p t = Some ty \<longrightarrow> ar (ty_name ty) = Some (params_num ty))"

definition faithful :: "tlst \<Rightarrow> (u32 \<Rightarrow> int option) \<Rightarrow> subtree_writer \<Rightarrow> subtree_abs \<Rightarrow> bool" where
  "faithful p ar wt at \<longleftrightarrow> (\<forall>T a x a' v. at T a = Some (x, a') \<longrightarrow> agree v a \<longrightarrow>
     ok_tree ar x \<and> puts p (wt T False v) (\<lambda>v'. agree v' a') (enc_tree x))"

lemma faithfulD:
  "faithful p ar wt at \<Longrightarrow> at T a = Some (x, a') \<Longrightarrow> agree v a \<Longrightarrow> puts p (wt T False v) (\<lambda>v'. agree v' a') (enc_tree x)"
  "faithful p ar wt at \<Longrightarrow> at T a = Some (x, a') \<Longrightarrow> agree v a \<Longrightarrow> ok_tree ar x"
  unfolding faithful_def by blast+

lemma puts_var_number:
  assumes "agree v a" and "var_number a d = Some k"
  shows "puts p (bind (in_prog (data_ptr d)) (\<lambda>q. bind (wint (tl_get_var_value_num (fst v) q)) f)) R bs \<longleftrightarrow>
    puts p (bind (wint k) f) R bs"
proof -
  obtain q where "d = DNode q" "fst a q = Some k" using assms(2) by (auto simp: var_number_def split: cdata.splits)
  with agree_number[OF assms(1)] have "in_prog (data_ptr d) = ret q" "tl_get_var_value_num (fst v) q = k"
    by (simp_all add: in_prog_def fun_eq_iff)
  then show ?thesis by simp
qed

lemma puts_name:
  assumes "abs_name d = Some w"
  shows "puts p (bind (in_prog (field_name d)) wstr) (\<lambda>y. y = ()) (string_bytes w)" and "length w \<le> 253"
proof -
  show "length w \<le> 253" using assms by (auto simp: abs_name_def split: cdata.splits if_splits)
  have "in_prog (field_name d) = ret (if d = DNull \<or> w = [] \<and> d = DStr ''_'' then None else Some w)"
    using assms by (auto simp: abs_name_def field_name_def in_prog_def fun_eq_iff bind_apply split: cdata.splits if_splits)
  moreover have "d = DNull \<or> d = DStr ''_'' \<Longrightarrow> w = []" using assms by (auto simp: abs_name_def)
  ultimately show "puts p (bind (in_prog (field_name d)) wstr) (\<lambda>y. y = ()) (string_bytes w)"
    using puts_no_string puts_string[of w] \<open>length w \<le> 253\<close> by auto
qed

lemma puts_is_var:
  assumes "node_is_var p l = Some b"
  shows "puts p (in_prog (is_var_field l)) (\<lambda>y. y = b) []"
  using assms
  by (intro puts_prog) (auto simp: node_is_var_def is_var_field_def type_has_id_def deref_def bind_apply split: if_splits cdata.splits option.splits)

lemma obind_Some: "obind x f = Some y \<longleftrightarrow> (\<exists>z. x = Some z \<and> f z = Some y)"
  by (rule Option.bind_eq_Some_conv)

definition arg_tree :: "(u32 \<times> u32) option \<Rightarrow> xtype \<Rightarrow> xtree" where
  "arg_tree e t = (case e of None \<Rightarrow> XT t | Some (a, b) \<Rightarrow> XO a b t)"

lemma arg_tree_simps [simp]:
  "enc_tree (arg_tree e t) = (case e of None \<Rightarrow> [] | Some (k, b) \<Rightarrow> bytes4 k @ bytes4 b) @ enc_type t"
  "ok_tree ar (arg_tree e t) = ok_type ar t"
  by (auto simp: arg_tree_def split: option.split)

lemma abs_argE:
  assumes "abs_arg p at T N a = Some (x, a')"
  obtains w l isv e t where "act N = act_field" and "left N \<noteq> 0" and "flags N AND (FLAG_OPT_FIELD OR FLAG_IS_VAR) = 0"
    and "abs_name (data N) = Some w" and "nodes p (left N) = Some l" and "node_is_var p l = Some isv"
    and "at (left N) (if isv then ((fst a)(T \<mapsto> word_of_int (snd a)), snd a + 1) else a) = Some (arg_tree e t, a')"
    and "e \<noteq> None \<longleftrightarrow> act l = act_opt_field"
    and "x = XArg w (field_word (flags N)) (if isv then Some (word_of_int (snd a)) else None) e t"
proof -
  let ?a = "\<lambda>isv. if isv then ((fst a)(T \<mapsto> word_of_int (snd a)), snd a + 1) else a"
  from assms obtain w l isv y a2 where y: "act N = act_field" "left N \<noteq> 0" "flags N AND (FLAG_OPT_FIELD OR FLAG_IS_VAR) = 0"
      "abs_name (data N) = Some w" "nodes p (left N) = Some l" "node_is_var p l = Some isv" "at (left N) (?a isv) = Some (y, a2)"
      "(case y of
          XT t \<Rightarrow> if act l = act_opt_field then None
            else Some (XArg w (field_word (flags N)) (if isv then Some (word_of_int (snd a)) else None) None t, a2)
        | XO k b t \<Rightarrow> if act l = act_opt_field
            then Some (XArg w (field_word (flags N)) (if isv then Some (word_of_int (snd a)) else None) (Some (k, b)) t, a2) else None
        | _ \<Rightarrow> None) = Some (x, a')"
    unfolding abs_arg_def Let_def by (clarsimp simp: obind_Some split: if_split_asm)
  have "\<exists>e t. y = arg_tree e t \<and> a2 = a' \<and> (e \<noteq> None \<longleftrightarrow> act l = act_opt_field) \<and>
      x = XArg w (field_word (flags N)) (if isv then Some (word_of_int (snd a)) else None) e t"
  proof (cases y)
    case (XT t)
    with y(8) show ?thesis by (intro exI[of _ None] exI[of _ t]) (simp add: arg_tree_def split: if_split_asm)
  next
    case (XO k b t)
    with y(8) show ?thesis by (intro exI[of _ "Some (k, b)"] exI[of _ t]) (simp add: arg_tree_def split: if_split_asm)
  qed (use y(8) in simp_all)
  with y(1-7) that show thesis by blast
qed

lemma puts_arg:
  assumes "faithful p ar wt at" and "abs_arg p at T N a = Some (x, a')" and "agree v a" and "T \<in> near" and "T \<noteq> 0"
  shows "ok_arg ar x \<and> puts p (write_arg wt T N v) (\<lambda>v'. agree v' a') (enc_arg x)"
proof -
  from abs_argE[OF assms(2)] obtain w l isv e t where N: "act N = act_field" "left N \<noteq> 0"
      "flags N AND (FLAG_OPT_FIELD OR FLAG_IS_VAR) = 0" "abs_name (data N) = Some w" "nodes p (left N) = Some l"
      "node_is_var p l = Some isv"
      "at (left N) (if isv then ((fst a)(T \<mapsto> word_of_int (snd a)), snd a + 1) else a) = Some (arg_tree e t, a')"
      "e \<noteq> None \<longleftrightarrow> act l = act_opt_field"
      "x = XArg w (field_word (flags N)) (if isv then Some (word_of_int (snd a)) else None) e t" .
  let ?a = "if isv then ((fst a)(T \<mapsto> word_of_int (snd a)), snd a + 1) else a"
  let ?k = "if isv then Some (word_of_int (snd a) :: u32) else None"
  let ?f = "if act l = act_opt_field then flags N OR FLAG_OPT_FIELD else flags N"
  have sa: "snd v = snd a" using assms(3) by (simp add: agree_def)
  note F = field_flags_word[OF N(3,8)]
  have K: "puts p (if isv then
             bind (write_field_flags (?f OR FLAG_IS_VAR)) (\<lambda>_.
             bind (wint (word_of_int (snd v))) (\<lambda>_.
             bind (in_prog (tl_set_var_value_num (fst v) T 0 (word_of_int (snd v)))) (\<lambda>V.
             ret (V, snd v + 1))))
           else bind (write_field_flags ?f) (\<lambda>_. ret v)) (\<lambda>v'. agree v' ?a)
         (bytes4 (arg_flags (field_word (flags N)) ?k e) @ (case ?k of None \<Rightarrow> [] | Some k \<Rightarrow> bytes4 k))"
  proof (cases isv)
    case True
    show ?thesis unfolding if_P[OF True] option.case F(1)[where k = "word_of_int (snd a) :: u32"]
      by (rule puts_seq[OF puts_int], unfold sa, rule puts_last[OF puts_int], rule puts_last[OF agree_set[OF assms(3-5), unfolded sa]])
        (simp add: puts_ret)
  next
    case False
    show ?thesis unfolding if_not_P[OF False] option.case F(2) append_Nil2
      by (rule puts_last[OF puts_int]) (rule puts_ret, rule assms(3))
  qed
  have t: "puts p (wt (left N) False v') (\<lambda>v'. agree v' a') (enc_tree (arg_tree e t))" if "agree v' ?a" for v'
    using faithfulD(1)[OF assms(1) N(7) that] .
  have ag: "\<exists>v'. agree v' ?a" using K unfolding puts_def by blast
  have "ok_arg ar x" using faithfulD(2)[OF assms(1) N(7)] ag puts_name(2)[OF N(4)] field_word_ok N(9) by auto
  moreover have "puts p (write_arg wt T N v) (\<lambda>v'. agree v' a') (enc_arg x)"
    unfolding write_arg_def N(9) enc_arg.simps Let_def
    apply (rule puts_seq[OF puts_int], rule puts_pre[OF puts_check], rule N, rule puts_pre[OF puts_check], rule N)
    apply (subst bind_assoc[of _ wstr, symmetric], rule puts_seq[OF puts_name(1)[OF N(4)]])
    apply (rule puts_pre[OF puts_node[OF N(5)]], rule puts_pre[OF puts_is_var[OF N(6)]])
    using puts_bind[OF K t] by (simp add: arg_tree_simps)
  ultimately show ?thesis by blast
qed

lemma node_near: "store_ok p \<Longrightarrow> brk p \<le> 2 ^ 31 \<Longrightarrow> nodes p T = Some N \<Longrightarrow> T \<in> near \<and> T \<noteq> 0"
  using store_ok_node[of p T N] by (simp add: near_def)

lemma puts_args:
  assumes "faithful p ar wt at" and "store_ok p" and "brk p \<le> 2 ^ 31"
  shows "abs_args n p at T a = Some (as, a') \<Longrightarrow> agree v a \<Longrightarrow>
    list_all (ok_arg ar) as \<and> puts p (write_args n wt T v) (\<lambda>v'. agree v' a') (concat (map enc_arg as))"
proof (induction n arbitrary: T a as a' v)
  case (Suc n)
  from Suc.prems(1) obtain N where N: "nodes p T = Some N" by (auto simp: obind_Some)
  show ?case
  proof (cases "ctype N = type_list")
    case True
    with Suc.prems(1) N obtain bs cs a1 where b: "act N = act_union" "left N \<noteq> 0" "right N \<noteq> 0"
        "abs_args n p at (left N) a = Some (bs, a1)" "abs_args n p at (right N) a1 = Some (cs, a')" "as = bs @ cs"
      by (auto simp: obind_Some split: if_split_asm)
    note l = Suc.IH[OF b(4) Suc.prems(2)]
    then obtain v1 where "agree v1 a1" unfolding puts_def by blast
    note r = Suc.IH[OF b(5)]
    have "puts p (write_args (Suc n) wt T v) (\<lambda>v'. agree v' a') (concat (map enc_arg bs) @ concat (map enc_arg cs))"
      unfolding write_args.simps
      apply (rule puts_pre[OF puts_node[OF N]], rule puts_pre[OF puts_check], simp add: True)
      unfolding if_P[OF True]
      apply ((rule puts_pre[OF puts_check], rule b)+, rule puts_bind[OF conjunct2[OF l]])
      using r by blast
    then show ?thesis using l r[OF \<open>agree v1 a1\<close>] b(6) by simp
  next
    case False
    with Suc.prems(1) N obtain x where x: "ctype N = type_list_item" "abs_arg p at T N a = Some (x, a')" "as = [x]"
      by (auto simp: obind_Some split: if_split_asm)
    note y = puts_arg[OF assms(1) x(2) Suc.prems(2)] node_near[OF assms(2,3) N]
    then have "puts p (write_args (Suc n) wt T v) (\<lambda>v'. agree v' a') (enc_arg x)"
      unfolding write_args.simps using x False
      by (auto intro!: puts_pre[OF puts_node[OF N]] puts_pre[OF puts_check])
    then show ?thesis using x(3) y by simp
  qed
qed simp

lemma count_args:
  "abs_args n p at T a = Some (as, a') \<Longrightarrow> n \<le> m \<Longrightarrow>
    count_list_size m T (p\<lparr>lrand48_count := k\<rparr>) = Inr (int (length as), p\<lparr>lrand48_count := k\<rparr>)"
proof (induction n arbitrary: m T a as a')
  case (Suc n)
  from Suc.prems(2) obtain m' where m: "m = Suc m'" "n \<le> m'" by (cases m) auto
  from Suc.prems(1) obtain N where N: "nodes p T = Some N" by (auto simp: obind_Some)
  show ?case
  proof (cases "ctype N = type_list")
    case True
    with Suc.prems(1) N obtain bs cs a1 where 
        "abs_args n p at (left N) a = Some (bs, a1)" "abs_args n p at (right N) a1 = Some (cs, a')" "as = bs @ cs"
      by (auto simp: obind_Some split: if_split_asm)
    with Suc.IH[OF _ m(2)] True N m(1) show ?thesis by (simp add: deref_def)
  next
    case False
    with Suc.prems(1) N m(1) show ?thesis by (auto simp: obind_Some deref_def split: if_split_asm)
  qed
qed simp

lemma type_flags_word: "write_type_flags f = wint (type_word f)"
  by (simp add: write_type_flags_def type_word_def)

lemma puts_spine:
  assumes "faithful p ar wt at"
  shows "abs_spine n p at T a = Some (tt, f, es, a') \<Longrightarrow> agree v a \<Longrightarrow>
    list_all (ok_expr ar) es \<and> (\<exists>t. types p t = Some tt) \<and> puts p (write_type_rec n wt T cc v) (\<lambda>v'. agree v' a')
      (bytes4 TLS_TYPE_EXPR @ bytes4 (ty_name tt) @ bytes4 f @ bytes4 (word_of_int (cc + int (length es))) @ concat (map enc_expr es))"
proof (induction n arbitrary: T a tt f es a' cc v)
  case (Suc n)
  from Suc.prems(1) obtain N where N: "nodes p T = Some N" by (auto simp: obind_Some)
  show ?case
  proof (cases "act N = act_arg")
    case True
    with Suc.prems(1) N obtain fs a1 r x where b: "abs_spine n p at (left N) a = Some (tt, f, fs, a1)"
        "nodes p (right N) = Some r" "at (right N) a1 = Some (x, a')"
        "(\<exists>e. x = XN e \<and> is_num (ctype r) \<and> es = fs @ [XNat e]) \<or> (\<exists>t. x = XT t \<and> \<not> is_num (ctype r) \<and> es = fs @ [XTy t])"
      by (clarsimp simp: obind_Some) (auto split: if_split_asm xtree.splits)
    note l = Suc.IH[OF b(1) Suc.prems(2), of "cc + 1"]
    then obtain v1 where v1: "agree v1 a1" unfolding puts_def by blast
    note x = faithfulD[OF assms b(3)]
    obtain z where z: "es = fs @ [z]" "enc_expr z = bytes4 (if is_num (ctype r) then TLS_EXPR_NAT else TLS_EXPR_TYPE) @ enc_tree x"
        "ok_tree ar x \<Longrightarrow> ok_expr ar z"
      using b(4) by auto
    have "puts p (write_type_rec (Suc n) wt T cc v) (\<lambda>v'. agree v' a')
      ((bytes4 TLS_TYPE_EXPR @ bytes4 (ty_name tt) @ bytes4 f @ bytes4 (word_of_int (cc + 1 + int (length fs))) @ concat (map enc_expr fs))
        @ bytes4 (if is_num (ctype r) then TLS_EXPR_NAT else TLS_EXPR_TYPE) @ enc_tree x)"
      unfolding write_type_rec.simps
      apply (rule puts_pre[OF puts_node[OF N]])
      unfolding if_P[OF True]
      apply (rule puts_bind[OF conjunct2[OF conjunct2[OF l]]], rule puts_pre[OF puts_node[OF b(2)]], rule puts_seq[OF puts_int])
      by (rule x(1))
    moreover have "cc + 1 + int (length fs) = cc + int (length es)" by (simp add: z(1))
    ultimately show ?thesis using l z x(2)[OF v1] by simp
  next
    case False
    with Suc.prems(1) N obtain t where t: "act N = act_type" "data N = DType t" "types p t = Some tt" "f = type_word (flags N)" "es = []" "a' = a"
      by (auto simp: obind_Some split: if_split_asm cdata.splits)
    have d: "puts p (in_prog (data_type (data N))) (\<lambda>y. y = t) []" by (rule puts_prog) (simp add: t)
    have "puts p (write_type_leaf N cc v) (\<lambda>v'. agree v' a')
        (bytes4 TLS_TYPE_EXPR @ bytes4 (ty_name tt) @ bytes4 f @ bytes4 (word_of_int cc))"
      unfolding write_type_leaf_def type_flags_word t(4)
      apply (rule puts_pre[OF puts_check], simp add: t)
      apply (simp add: t(1))
      apply (rule puts_seq[OF puts_int], rule puts_pre[OF d], rule puts_pre[OF puts_type[OF t(3)]])
      by (rule puts_seq[OF puts_int], rule puts_seq[OF puts_int], rule puts_last[OF puts_int]) (simp add: puts_ret Suc.prems t(6))
    then show ?thesis using t False by (auto intro: puts_pre[OF puts_node[OF N]])
  qed
qed simp


lemma puts_type_expr:
  assumes "faithful p ar wt at" and "ty_arities p ar" and "abs_type n p at T N a = Some (t, a')" and "nodes p T = Some N"
    and "agree v a"
  shows "ok_type ar t \<and> (act N = act_type \<or> act N = act_var \<or> act N = act_arg) \<and>
    puts p (write_type_rec n wt T 0 v) (\<lambda>v'. agree v' a') (enc_type t)"
proof (cases "act N = act_var")
  case True
  with assms(3) obtain k where k: "flags N AND 1 = 0" "var_number a (data N) = Some k" "t = XTypeVar k" "a' = a"
    by (auto simp: abs_type_def split: if_split_asm)
  obtain m where n: "n = Suc m" using assms(3) by (cases n) (auto simp: abs_type_def)
  have "puts p (write_type_leaf N 0 v) (\<lambda>v'. agree v' a') (bytes4 TLS_TYPE_VAR @ bytes4 k @ bytes4 0)"
    unfolding write_type_leaf_def
    apply (rule puts_pre[OF puts_check], simp add: True)
    apply (simp add: True, rule puts_pre[OF puts_check], simp)
    apply (rule puts_seq[OF puts_int])
    unfolding puts_var_number[OF assms(5) k(2)] write_var_type_flags_def
    by (simp add: k(1), rule puts_seq[OF puts_int], rule puts_last[OF puts_int]) (simp add: puts_ret assms(5) k(4))
  then show ?thesis using True n k(3) by (auto intro: puts_pre[OF puts_node[OF assms(4)]])
next
  case False
  with assms(3) obtain u f es where u: "act N = act_type \<or> act N = act_arg" "abs_spine n p at T a = Some (u, f, es, a')"
      "params_num u = int (length es)" "t = XType (ty_name u) f es"
    by (auto simp: abs_type_def obind_Some split: if_split_asm)
  note s = puts_spine[OF assms(1) u(2) assms(5), of 0]
  then have "ar (ty_name u) = Some (int (length es))" using assms(2) u(3) by (auto simp: ty_arities_def)
  then show ?thesis using s u(1,4) by auto
qed

lemma puts_array:
  assumes "faithful p ar wt at" and "abs_array at N a = Some (t, a')" and "nodes p T = Some N" and "agree v a"
  shows "ok_type ar t \<and> puts p (write_array wt T v) (\<lambda>v'. agree v' a') (enc_type t)"
proof -
  from assms(2) obtain m a1 as where b: "at (left N) a = Some (XN m, a1)" "at (right N) a1 = Some (XL as, a')" "t = XArray m as"
  proof -
    from assms(2) obtain x a1 y a2 where "at (left N) a = Some (x, a1)" "at (right N) a1 = Some (y, a2)"
        "(case (x, y) of (XN m, XL as) \<Rightarrow> Some (XArray m as, a2) | _ \<Rightarrow> None) = Some (t, a')"
      by (auto simp: abs_array_def obind_Some)
    with that show thesis by (cases x; cases y) auto
  qed
  note l = faithfulD(1)[OF assms(1) b(1) assms(4)]
  then obtain v1 where v1: "agree v1 a1" unfolding puts_def by blast
  have "puts p (write_array wt T v) (\<lambda>v'. agree v' a') (bytes4 TLS_ARRAY @ enc_tree (XN m) @ enc_tree (XL as))"
    unfolding write_array_def
    by (rule puts_seq[OF puts_int], rule puts_pre[OF puts_node[OF assms(3)]], rule puts_bind[OF l]) (rule faithfulD(1)[OF assms(1) b(2)])
  then show ?thesis using faithfulD(2)[OF assms(1) b(2) v1] b(3) by (simp add: enc_args_def)
qed

lemma puts_count:
  assumes "abs_args (Suc n) p at T a = Some (as, a')" and "Suc n \<le> nat (brk p)"
  shows "puts p (in_prog (with_fuel (\<lambda>m. count_list_size m T))) (\<lambda>y. y = int (length as)) []"
  by (rule puts_prog) (simp add: with_fuel_def bind_apply count_args[OF assms])

lemma puts_opt:
  assumes "faithful p ar (write_tree n) (abs_tree n p)" and "ty_arities p ar" and "agree v a" and "nodes p T = Some N"
    and "nodes p (left N) = Some l" and "var_number a (data l) = Some k" and "nodes p (right N) = Some r" and "ctype r = type_type"
    and "(if act r = act_array then abs_array (abs_tree n p) r a else abs_type n p (abs_tree n p) (right N) r a) = Some (t, a')"
  shows "ok_type ar t \<and> puts p (write_opt_type n (write_tree n) T v) (\<lambda>v'. agree v' a') (bytes4 k @ bytes4 (ucast (type_flags l)) @ enc_type t)"
proof -
  have "ok_type ar t \<and> puts p (if act r = act_array then write_array (write_tree n) (right N) v
     else
       bind (check (act r = act_type \<or> act r = act_var \<or> act r = act_arg)) (\<lambda>_.
       write_type_rec n (write_tree n) (right N) 0 v)) (\<lambda>v'. agree v' a') (enc_type t)"
  proof (cases "act r = act_array")
    case True
    with puts_array[OF assms(1) _ assms(7,3)] assms(9) show ?thesis by simp
  next
    case False
    then have x: "abs_type n p (abs_tree n p) (right N) r a = Some (t, a')" using assms(9) by simp
    from puts_type_expr[OF assms(1,2) x assms(7,3)] False show ?thesis by (auto intro!: puts_pre[OF puts_check])
  qed
  then show ?thesis
    unfolding write_opt_type_def
    apply (intro conjI, blast)
    apply (rule puts_pre[OF puts_node[OF assms(4)]], rule puts_pre[OF puts_node[OF assms(5)]])
    unfolding puts_var_number[OF assms(3,6)]
    apply (rule puts_seq[OF puts_int], rule puts_seq[OF puts_int], rule puts_pre[OF puts_node[OF assms(7)]])
    by (rule puts_pre[OF puts_check], rule assms(8)) blast
qed

lemma puts_tree:
  assumes "store_ok p" and "brk p \<le> 2 ^ 31" and "ty_arities p ar" and "n \<le> nat (brk p)"
    and "abs_tree n p T a = Some (x, a')" and "agree v a" and "\<And>as. x = XL as \<Longrightarrow> \<not> ex"
  shows "ok_tree ar x \<and> puts p (write_tree n T ex v) (\<lambda>v'. agree v' a') (enc_tree x)"
  using assms(4-)
proof (induction n arbitrary: T a x a' v ex)
  case (Suc n)
  have F: "faithful p ar (write_tree n) (abs_tree n p)"
    unfolding faithful_def using Suc.IH[where ex = False] Suc.prems(1) by simp
  from Suc.prems(2) obtain N where N: "T \<noteq> 0" "nodes p T = Some N" by (auto simp: obind_Some split: if_split_asm)
  note pre = puts_pre[OF puts_check[OF N(1)] puts_pre[OF puts_node[OF N(2)]]]
  let ?l = "ctype N = type_list_item \<or> ctype N = type_list"
  consider (list) "?l" | (num) "\<not> ?l" "is_num (ctype N)" | (arr) "\<not> ?l" "\<not> is_num (ctype N)" "act N = act_array"
    | (opt) "\<not> ?l" "\<not> is_num (ctype N)" "act N = act_opt_field"
    | (ty) "\<not> ?l" "\<not> is_num (ctype N)" "act N \<noteq> act_array" "act N \<noteq> act_opt_field" by blast
  then show ?case
  proof cases
    case list
    with Suc.prems(2) N obtain as where as: "abs_args (Suc n) p (abs_tree n p) T a = Some (as, a')" "x = XL as"
      by (auto simp: obind_Some simp del: abs_args.simps)
    note r = puts_args[OF F assms(1,2) as(1) Suc.prems(3)]
    have "\<not> ex" using Suc.prems(4) as(2) by blast
    have "puts p (bind (if ex then wint TLS_COMBINATOR_RIGHT_V2 else ret ()) (\<lambda>_.
       bind (in_prog (with_fuel (\<lambda>m. count_list_size m T))) (\<lambda>k.
       bind (wint (word_of_int k)) (\<lambda>_. write_args (Suc n) (write_tree n) T v)))) (\<lambda>v'. agree v' a') (enc_args as)"
      unfolding enc_args_def if_not_P[OF \<open>\<not> ex\<close>] bind_ret_left
      apply (rule puts_pre[OF puts_count[OF as(1) Suc.prems(1)]])
      using r by (auto intro!: puts_seq[OF puts_int] simp del: write_args.simps)
    then show ?thesis unfolding write_tree.simps using list r as(2) by (auto intro!: pre simp del: write_args.simps)
  next
    case num
    show ?thesis
    proof (cases "ctype N = type_num_value")
      case True
      then have x: "x = XN (XConst (ucast (type_flags N)))" "a' = a" using Suc.prems(2) N num by (auto simp: abs_num_def)
      have "puts p (bind (wint TLS_NAT_CONST) (\<lambda>_. bind (wint (ucast (type_flags N))) (\<lambda>_. ret v))) (\<lambda>v'. agree v' a') (enc_tree x)"
        unfolding x enc_tree.simps enc_nat.simps by (rule puts_seq[OF puts_int], rule puts_last[OF puts_int]) (rule puts_ret, rule Suc.prems)
      then show ?thesis unfolding write_tree.simps using True x by (auto intro!: pre)
    next
      case False
      with num have t: "ctype N = type_num" by (simp add: is_num_def)
      with False obtain k where x: "var_number a (data N) = Some k" "x = XN (XVar (ucast (type_flags N)) k)" "a' = a"
        using Suc.prems(2) N num by (auto simp: abs_num_def)
      have "puts p (bind (wint TLS_NAT_VAR) (\<lambda>_. bind (wint (ucast (type_flags N))) (\<lambda>_.
          bind (in_prog (data_ptr (data N))) (\<lambda>p. bind (wint (tl_get_var_value_num (fst v) p)) (\<lambda>_. ret v)))))
         (\<lambda>v'. agree v' a') (enc_tree x)"
        unfolding x(2,3) enc_tree.simps enc_nat.simps
        apply (rule puts_seq[OF puts_int], rule puts_seq[OF puts_int])
        unfolding puts_var_number[OF Suc.prems(3) x(1)]
        by (rule puts_last[OF puts_int]) (rule puts_ret, rule Suc.prems)
      then show ?thesis unfolding write_tree.simps using t x by (auto intro!: pre)
    qed
  next
    case arr
    with Suc.prems(2) N obtain t where t: "abs_array (abs_tree n p) N a = Some (t, a')" "x = XT t" by auto
    from puts_array[OF F t(1) N(2) Suc.prems(3)] arr show ?thesis
      unfolding write_tree.simps t(2) by (auto intro!: pre simp: is_num_def)
  next
    case opt
    with Suc.prems(2) N obtain l k r t where t: "nodes p (left N) = Some l" "var_number a (data l) = Some k" "nodes p (right N) = Some r"
        "ctype r = type_type" "x = XO k (ucast (type_flags l)) t"
        "(if act r = act_array then abs_array (abs_tree n p) r a else abs_type n p (abs_tree n p) (right N) r a) = Some (t, a')"
      by (auto simp: obind_Some split: if_split_asm)
    from puts_opt[OF F assms(3) Suc.prems(3) N(2) t(1-4,6)] opt show ?thesis
      unfolding write_tree.simps t(5) by (auto intro!: pre puts_pre[OF puts_check] simp: is_num_def)
  next
    case ty
    with Suc.prems(2) N obtain t where t: "abs_type (Suc n) p (abs_tree n p) T N a = Some (t, a')" "x = XT t" by (auto simp: obind_Some)
    from puts_type_expr[OF F assms(3) t(1) N(2) Suc.prems(3)] ty show ?thesis
      unfolding write_tree.simps t(2) by (auto intro!: pre simp: is_num_def simp del: write_type_rec.simps)
  qed
qed simp

subsection \<open>Combinators, types and the whole program\<close>

definition abs_left :: "tlst \<Rightarrow> tl_constructor \<Rightarrow> (xarg list option \<times> numbering) option" where
  "abs_left p co =
     (if c_left co = 0 then Some (Some [], (Map.empty, 0))
      else if is_builtin_type (c_id co) then Some (None, (Map.empty, 0))
      else
        obind (abs_tree (nat (brk p)) p (c_left co) (Map.empty, 0)) (\<lambda>(x, a).
        case x of XL as \<Rightarrow> Some (Some as, a) | _ \<Rightarrow> None))"

definition abs_comb :: "tlst \<Rightarrow> addr \<Rightarrow> xcomb option" where
  "abs_comb p c =
     obind (combs p c) (\<lambda>co.
     if length (c_id co) \<le> 253 \<and> c_right co \<noteq> 0 then
       obind (if c_type co = 0 then Some 0 else map_option ty_name (types p (c_type co))) (\<lambda>tn.
       obind (abs_left p co) (\<lambda>(as, a).
       obind (abs_tree (nat (brk p)) p (c_right co) a) (\<lambda>(x, _).
       case x of
         XT t \<Rightarrow> Some \<lparr>xc_id = c_name co, xc_name = c_id co, xc_type = tn, xc_args = as, xc_result = t\<rparr>
       | _ \<Rightarrow> None)))
     else None)"

definition abs_ty :: "tlst \<Rightarrow> addr \<Rightarrow> xty option" where
  "abs_ty p t =
     obind (types p t) (\<lambda>u.
     if length (ty_id u) \<le> 253 \<and> params_num u \<in> {- (2 ^ 31)..<2 ^ 31} then
       Some \<lparr>xt_id = ty_name u, xt_name = ty_id u, xt_num = length (constructors u), xt_flags = ty_flags u,
             xt_arity = word_of_int (params_num u), xt_params = params_types u\<rparr>
     else None)"

definition abs_schema :: "tlst \<Rightarrow> xschema option" where
  "abs_schema p =
     (let ts = inorder (tl_type_tree p) in
      obind (those (map (abs_ty p) ts)) (\<lambda>tys.
      obind (those (map (abs_comb p) (concat (map (constructors_of p) ts)))) (\<lambda>cs.
      obind (those (map (abs_comb p) (inorder (tl_function_tree p)))) (\<lambda>fs.
      Some \<lparr>xs_types = tys, xs_constructors = cs, xs_functions = fs\<rparr>))))"

lemma puts_fuel: "puts p (f (nat (brk p))) R bs \<Longrightarrow> puts p (with_write_fuel f) R bs"
  unfolding puts_def with_write_fuel_def by (simp add: bind_apply)

lemma abs_combE:
  assumes "abs_comb p c = Some x"
  obtains co tn as a t a' where "combs p c = Some co" and "length (c_id co) \<le> 253" and "c_right co \<noteq> 0"
    and "(if c_type co = 0 then Some 0 else map_option ty_name (types p (c_type co))) = Some tn"
    and "abs_left p co = Some (as, a)" and "abs_tree (nat (brk p)) p (c_right co) a = Some (XT t, a')"
    and "x = \<lparr>xc_id = c_name co, xc_name = c_id co, xc_type = tn, xc_args = as, xc_result = t\<rparr>"
proof -
  from assms obtain co tn as a y a' where "combs p c = Some co" "length (c_id co) \<le> 253" "c_right co \<noteq> 0"
    "(if c_type co = 0 then Some 0 else map_option ty_name (types p (c_type co))) = Some tn"
    "abs_left p co = Some (as, a)" "abs_tree (nat (brk p)) p (c_right co) a = Some (y, a')"
    "(case y of XT t \<Rightarrow> Some \<lparr>xc_id = c_name co, xc_name = c_id co, xc_type = tn, xc_args = as, xc_result = t\<rparr> | _ \<Rightarrow> None) = Some x"
    unfolding abs_comb_def by (clarsimp simp: obind_Some split: if_split_asm)
  with that show thesis by (cases y) auto
qed

lemma puts_combinator:
  assumes "store_ok p" and "brk p \<le> 2 ^ 31" and "ty_arities p ar" and "abs_comb p c = Some x"
  shows "ok_comb ar x \<and> puts p (write_constructor c) (\<lambda>y. y = ()) (enc_comb x) \<and> puts p (write_function c) (\<lambda>y. y = ()) (enc_comb x)"
proof -
  from abs_combE[OF assms(4)] obtain co tn as a t a' where co: "combs p c = Some co" "length (c_id co) \<le> 253" "c_right co \<noteq> 0"
      "(if c_type co = 0 then Some 0 else map_option ty_name (types p (c_type co))) = Some tn"
      "abs_left p co = Some (as, a)" "abs_tree (nat (brk p)) p (c_right co) a = Some (XT t, a')"
      "x = \<lparr>xc_id = c_name co, xc_name = c_id co, xc_type = tn, xc_args = as, xc_result = t\<rparr>" .
  note W = puts_tree[OF assms(1-3) order_refl]
  have tn: "puts p (if c_type co \<noteq> 0 then bind (in_prog (tyobj (c_type co))) (\<lambda>ty. ret (ty_name ty)) else ret 0) (\<lambda>y. y = tn) []"
    using co(4) by (auto intro!: puts_ret puts_pre[OF puts_type] split: if_splits)
  let ?left = "case as of None \<Rightarrow> bytes4 TLS_COMBINATOR_LEFT_BUILTIN | Some as \<Rightarrow> bytes4 TLS_COMBINATOR_LEFT @ enc_args as"
  have l: "list_all (ok_arg ar) (case as of None \<Rightarrow> [] | Some as \<Rightarrow> as) \<and> puts p (if c_left co \<noteq> 0 then
             (if is_builtin_type (c_id co) then
                bind (wint TLS_COMBINATOR_LEFT_BUILTIN) (\<lambda>_. ret (TNil, 0))
              else
                bind (wint TLS_COMBINATOR_LEFT) (\<lambda>_.
                with_write_fuel (\<lambda>n. write_tree n (c_left co) False (TNil, 0))))
           else
             bind (wint TLS_COMBINATOR_LEFT) (\<lambda>_. bind (wint 0) (\<lambda>_. ret (TNil, 0)))) (\<lambda>v. agree v a) ?left"
  proof -
    consider (none) "c_left co = 0" | (builtin) "c_left co \<noteq> 0" "is_builtin_type (c_id co)"
      | (tree) "c_left co \<noteq> 0" "\<not> is_builtin_type (c_id co)" by blast
    then show ?thesis
    proof cases
      case none
      then have "as = Some []" "a = (Map.empty, 0)" using co(5) by (simp_all add: abs_left_def)
      then show ?thesis using none agree_empty
        by (auto simp: enc_args_def intro!: puts_seq[OF puts_int] puts_last[OF puts_int] puts_ret)
    next
      case builtin
      then have "as = None" "a = (Map.empty, 0)" using co(5) by (simp_all add: abs_left_def)
      then show ?thesis using builtin agree_empty by (auto intro!: puts_last[OF puts_int] puts_ret)
    next
      case tree
      then obtain bs where "as = Some bs" "abs_tree (nat (brk p)) p (c_left co) (Map.empty, 0) = Some (XL bs, a)"
      proof -
        from tree co(5) obtain y b where "abs_tree (nat (brk p)) p (c_left co) (Map.empty, 0) = Some (y, b)"
            "(case y of XL as \<Rightarrow> Some (Some as, b) | _ \<Rightarrow> None) = Some (as, a)"
          by (auto simp: abs_left_def obind_Some)
        with that show thesis by (cases y) auto
      qed
      with W[OF this(2) agree_empty, of False] tree show ?thesis by (auto intro!: puts_seq[OF puts_int] puts_fuel)
    qed
  qed
  then obtain v where v: "agree v a" unfolding puts_def by blast
  note r = W[OF co(6), of _ True]
  have "puts p (write_constructor c) (\<lambda>y. y = ()) (enc_comb x)"
    unfolding write_constructor_def write_combinator_def co(7) enc_comb_def xcomb.simps
    apply (rule puts_seq[OF puts_int], rule puts_pre[OF puts_comb[OF co(1)]], rule puts_seq[OF puts_int], rule puts_seq[OF puts_string])
    using co(2) apply simp
    apply (rule puts_pre[OF tn], rule puts_seq[OF puts_int], rule puts_pre[OF puts_check], rule co(3))
    apply (rule puts_bind[OF conjunct2[OF l]], rule puts_seq[OF puts_int],
        rule puts_last[where R = "\<lambda>v'. agree v' a'"], rule puts_fuel)
     apply (use r in simp)
    by (rule puts_ret, rule refl)
  moreover have "ok_comb ar x" using l r[OF v] co(2,7) by (simp add: ok_comb_def)
  ultimately show ?thesis by (simp add: write_constructor_def write_function_def)
qed

lemma puts_ty:
  assumes "abs_ty p t = Some x"
  shows "puts p (write_type t) (\<lambda>y. y = ()) (enc_ty x)"
proof -
  from assms obtain u where u: "types p t = Some u" "length (ty_id u) \<le> 253"
      "x = \<lparr>xt_id = ty_name u, xt_name = ty_id u, xt_num = length (constructors u), xt_flags = ty_flags u,
             xt_arity = word_of_int (params_num u), xt_params = params_types u\<rparr>"
    by (auto simp: abs_ty_def obind_Some split: if_split_asm)
  show ?thesis
    unfolding write_type_def enc_ty_def u(3) xty.simps
    apply (rule puts_pre[OF puts_type[OF u(1)]], rule puts_seq[OF puts_int], rule puts_seq[OF puts_int], rule puts_seq[OF puts_string])
    using u(2) apply simp
    by (rule puts_seq[OF puts_int], rule puts_seq[OF puts_int], rule puts_seq[OF puts_int], rule puts_long)
qed

lemma puts_iterate:
  "those (map f xs) = Some ys \<Longrightarrow> (\<And>x y. x \<in> set xs \<Longrightarrow> f x = Some y \<Longrightarrow> puts p (m x) (\<lambda>y. y = ()) (enc y)) \<Longrightarrow>
    puts p (iterate m xs) (\<lambda>y. y = ()) (concat (map enc ys))"
proof (induction xs arbitrary: ys)
  case Nil
  then have "ys = []" by simp
  then show ?case unfolding iterate.simps by (simp only: list.map concat.simps) (rule puts_ret, rule refl)
next
  case (Cons x xs)
  then obtain y zs where "f x = Some y" "those (map f xs) = Some zs" "ys = y # zs" by (auto split: option.splits)
  with Cons show ?case unfolding iterate.simps by (auto intro!: puts_seq)
qed


lemma those_Some: "those (map f xs) = Some ys \<longleftrightarrow> map f xs = map Some ys"
proof (induction xs arbitrary: ys)
  case (Cons x xs)
  then show ?case by (cases ys) (auto split: option.splits)
qed (use those.simps in auto)

lemma puts_nested:
  assumes "those (map f (concat (map g ts))) = Some ys"
    and "\<And>t zs. t \<in> set ts \<Longrightarrow> those (map f (g t)) = Some zs \<Longrightarrow> puts p (m t) (\<lambda>y. y = ()) (concat (map enc zs))"
  shows "puts p (iterate m ts) (\<lambda>y. y = ()) (concat (map enc ys))"
  using assms
proof (induction ts arbitrary: ys)
  case Nil
  then have "ys = []" by simp
  then show ?case unfolding iterate.simps by (simp only: list.map concat.simps) (rule puts_ret, rule refl)
next
  case (Cons t ts)
  from Cons.prems(1) obtain us vs where "ys = us @ vs" "those (map f (g t)) = Some us" "those (map f (concat (map g ts))) = Some vs"
    unfolding those_Some by (auto simp: append_eq_map_conv)
  with Cons show ?case unfolding iterate.simps by (auto intro!: puts_seq)
qed

lemma puts_state: "puts p (gets prog) (\<lambda>q. \<exists>k. q = p\<lparr>lrand48_count := k\<rparr>) []"
  unfolding puts_def by auto

lemma puts_schema:
  assumes "reg_ok p" and "store_ok p" and "brk p \<le> 2 ^ 31" and "ty_arities p ar" and "abs_schema p = Some X"
  shows "puts p write_types (\<lambda>y. y = ()) (enc_schema X)"
    and "list_all (ok_comb ar) (xs_constructors X @ xs_functions X)"
proof -
  let ?ts = "inorder (tl_type_tree p)" and ?fs = "inorder (tl_function_tree p)"
  from assms(5) obtain tys cs fs where X: "those (map (abs_ty p) ?ts) = Some tys"
      "those (map (abs_comb p) (concat (map (constructors_of p) ?ts))) = Some cs" "those (map (abs_comb p) ?fs) = Some fs"
      "X = \<lparr>xs_types = tys, xs_constructors = cs, xs_functions = fs\<rparr>"
    by (auto simp: abs_schema_def Let_def obind_Some)
  note C = puts_combinator[OF assms(2-4)]
  have ok: "list_all (ok_comb ar) zs" if "those (map (abs_comb p) xs) = Some zs" for xs zs
  proof -
    from that have "length xs = length zs" "\<And>i. i < length zs \<Longrightarrow> abs_comb p (xs ! i) = Some (zs ! i)"
      unfolding those_Some by (metis length_map, metis length_map nth_map)
    with C show ?thesis by (auto simp: list_all_length)
  qed
  then show "list_all (ok_comb ar) (xs_constructors X @ xs_functions X)" using X by simp
  have n: "word_of_int (total_types_num p) = (of_nat (length tys) :: u32)"
    "word_of_int (total_constructors_num p) = (of_nat (length cs) :: u32)"
    "word_of_int (total_functions_num p) = (of_nat (length fs) :: u32)"
  proof -
    have l: "length tys = length ?ts" "length cs = length (concat (map (constructors_of p) ?ts))" "length fs = length ?fs"
      using X(1-3) unfolding those_Some by (metis length_map)+
    have "sum_list (map (int \<circ> length \<circ> constructors_of p) xs) = int (length (concat (map (constructors_of p) xs)))" for xs
      by (induction xs) simp_all
    then show "word_of_int (total_types_num p) = (of_nat (length tys) :: u32)"
      "word_of_int (total_constructors_num p) = (of_nat (length cs) :: u32)"
      "word_of_int (total_functions_num p) = (of_nat (length fs) :: u32)"
      unfolding l using assms(1) by (simp_all add: reg_ok_def tree_count_inorder)
  qed
  have t: "puts p (iterate write_type ?ts) (\<lambda>y. y = ()) (concat (map enc_ty tys))"
    by (rule puts_iterate[OF X(1)]) (rule puts_ty)
  have f: "puts p (iterate write_function ?fs) (\<lambda>y. y = ()) (concat (map enc_comb fs))"
    by (rule puts_iterate[OF X(3)]) (use C in blast)
  have c: "puts p (iterate write_type_constructors ?ts) (\<lambda>y. y = ()) (concat (map enc_comb cs))"
  proof (rule puts_nested[OF X(2)])
    fix t zs assume t: "t \<in> set ?ts" and zs: "those (map (abs_comb p) (constructors_of p t)) = Some zs"
    have "t \<in> dom (types p)" using t assms(1) by (simp add: reg_ok_def)
    then obtain u where u: "types p t = Some u" by blast
    have "puts p (iterate write_constructor (constructors u)) (\<lambda>y. y = ()) (concat (map enc_comb zs))"
      by (rule puts_iterate) (use zs u C in \<open>auto simp: constructors_of_def\<close>)
    then show "puts p (write_type_constructors t) (\<lambda>y. y = ()) (concat (map enc_comb zs))"
      unfolding write_type_constructors_def by (rule puts_pre[OF puts_type[OF u]])
  qed
  have "puts p (bind (gets prog) (\<lambda>p.
     bind (wint (word_of_int (total_types_num p))) (\<lambda>_.
     bind (tree_act (tl_type_tree p) write_type) (\<lambda>_.
     bind (wint (word_of_int (total_constructors_num p))) (\<lambda>_.
     bind (tree_act (tl_type_tree p) write_type_constructors) (\<lambda>_.
     bind (wint (word_of_int (total_functions_num p))) (\<lambda>_.
     tree_act (tl_function_tree p) write_function))))))) (\<lambda>y. y = ())
     ([] @ bytes4 (of_nat (length tys)) @ concat (map enc_ty tys) @ bytes4 (of_nat (length cs)) @ concat (map enc_comb cs)
      @ bytes4 (of_nat (length fs)) @ concat (map enc_comb fs))"
    apply (rule puts_bind[OF puts_state])
    apply (elim exE)
    apply (simp add: n tree_act_inorder)
    by (rule puts_seq[OF puts_int], rule puts_seq[OF t], rule puts_seq[OF puts_int], rule puts_seq[OF c], rule puts_seq[OF puts_int])
      (use f in simp)
  then show "puts p write_types (\<lambda>y. y = ()) (enc_schema X)"
    unfolding write_types_def enc_schema_def X(4) xschema.simps append_Nil
    by (intro puts_seq[OF puts_int])
qed

subsection \<open>The scheme of a program is well formed\<close>

lemma those_nth: "those (map f xs) = Some ys \<Longrightarrow> length ys = length xs \<and> (\<forall>i < length xs. f (xs ! i) = Some (ys ! i))"
  unfolding those_Some by (metis length_map nth_map)

lemma concat_unique:
  "distinct (map k ts) \<Longrightarrow> t \<in> set ts \<Longrightarrow> concat (map (\<lambda>u. if k u = k t then h u else []) ts) = h t"
proof (induction ts)
  case (Cons u ts)
  show ?case
  proof (cases "u = t")
    case True
    with Cons.prems(1) have "concat (map (\<lambda>v. if k v = k t then h v else []) ts) = []" by (auto simp: image_iff)
    with True show ?thesis by simp
  next
    case False
    with Cons.prems have "t \<in> set ts" "k u \<noteq> k t" by auto
    with Cons show ?thesis by simp
  qed
qed simp

lemma filter_concat: "filter P (concat xss) = concat (map (filter P) xss)"
  by (induction xss) simp_all

lemma group_by:
  assumes "those (map f (concat (map g ts))) = Some cs" and "distinct (map k ts)" and "t \<in> set ts"
    and "\<And>t c y. t \<in> set ts \<Longrightarrow> c \<in> set (g t) \<Longrightarrow> f c = Some y \<Longrightarrow> key y = k t"
  shows "length (filter (\<lambda>y. key y = k t) cs) = length (g t)"
proof -
  let ?h = "\<lambda>t. map (the \<circ> f) (g t)"
  have all: "\<exists>y. f c = Some y" if "t \<in> set ts" "c \<in> set (g t)" for t c
  proof -
    have "Some ` set cs = f ` set (concat (map g ts))" using assms(1) unfolding those_Some by (metis set_map)
    with that show ?thesis by force
  qed
  have "cs = map the (map Some cs)" by (simp add: comp_def)
  also have "\<dots> = map the (map f (concat (map g ts)))" using assms(1) unfolding those_Some by simp
  also have "\<dots> = concat (map ?h ts)" by (simp add: map_concat comp_def)
  finally have cs: "cs = concat (map ?h ts)" .
  have "filter (\<lambda>y. key y = k t) (?h u) = (if k u = k t then ?h u else [])" if "u \<in> set ts" for u
  proof -
    have "key (the (f c)) = k u" if "c \<in> set (g u)" for c
      using all[OF \<open>u \<in> set ts\<close> that] assms(4)[OF \<open>u \<in> set ts\<close> that] by auto
    then show ?thesis by (auto simp: filter_map comp_def intro!: filter_True filter_False)
  qed
  then have "filter (\<lambda>y. key y = k t) cs = concat (map (\<lambda>u. if k u = k t then ?h u else []) ts)"
    unfolding cs filter_concat by (simp add: comp_def cong: map_cong)
  also have "\<dots> = ?h t" by (rule concat_unique[OF assms(2,3)])
  finally show ?thesis by simp
qed

lemma abs_schema_parts:
  assumes "reg_ok p" and "abs_schema p = Some X" and "distinct (map xt_id (xs_types X))"
  shows "ty_arities p (schema_arity X)"
    and "list_all (\<lambda>t. length (xt_name t) \<le> 253 \<and> xt_num t = length (of_type X t)) (xs_types X)"
    and "list_all (\<lambda>x. xc_type x \<in> set (map xt_id (xs_types X))) (xs_constructors X)"
proof -
  let ?ts = "inorder (tl_type_tree p)"
  from assms(2) obtain tys cs fs where X: "those (map (abs_ty p) ?ts) = Some tys"
      "those (map (abs_comb p) (concat (map (constructors_of p) ?ts))) = Some cs" "those (map (abs_comb p) (inorder (tl_function_tree p))) = Some fs"
      "X = \<lparr>xs_types = tys, xs_constructors = cs, xs_functions = fs\<rparr>"
    by (auto simp: abs_schema_def Let_def obind_Some)
  have dom: "set ?ts = dom (types p)" "owned p" and pos: "dom (types p) \<subseteq> {0<..<brk p}" using assms(1) by (simp_all add: reg_ok_def)
  note T = those_nth[OF X(1)]
  define k where "k t = ty_name (the (types p t))" for t
  have ty: "\<exists>u. types p (?ts ! i) = Some u \<and> tys ! i = \<lparr>xt_id = ty_name u, xt_name = ty_id u, xt_num = length (constructors u),
      xt_flags = ty_flags u, xt_arity = word_of_int (params_num u), xt_params = params_types u\<rparr> \<and>
      length (ty_id u) \<le> 253 \<and> params_num u \<in> {- (2 ^ 31)..<2 ^ 31}" if "i < length ?ts" for i
    using T that by (auto simp: abs_ty_def obind_Some split: if_split_asm)
  have ids: "map xt_id tys = map k ?ts"
    by (rule nth_equalityI) (use T ty in \<open>fastforce simp: k_def\<close>)+
  have d: "distinct (map k ?ts)" using assms(3) ids X(4) by simp
  have own: "xc_type y = k t" if c: "t \<in> set ?ts" "c \<in> set (constructors_of p t)" "abs_comb p c = Some y" for t c y
  proof -
    have "t \<noteq> 0" using c(1) dom(1) pos by auto
    moreover from abs_combE[OF c(3)] obtain co' tn as a v where
      "combs p c = Some co'" "(if c_type co' = 0 then Some 0 else map_option ty_name (types p (c_type co'))) = Some tn"
      "y = \<lparr>xc_id = c_name co', xc_name = c_id co', xc_type = tn, xc_args = as, xc_result = v\<rparr>" by metis
    moreover obtain co where "combs p c = Some co" "c_type co = t"
      using c(2) dom(2) unfolding owned_def constructors_of_def by (cases "types p t") (simp, simp, blast)
    ultimately show ?thesis using c(1) dom(1) by (auto simp: k_def)
  qed
  show "ty_arities p (schema_arity X)"
    unfolding ty_arities_def
  proof (intro allI impI)
    fix t u assume u: "types p t = Some u"
    then obtain i where i: "i < length ?ts" "?ts ! i = t" using dom(1) by (metis domI in_set_conv_nth)
    with ty[OF i(1)] u have t: "xt_id (tys ! i) = ty_name u" "xt_arity (tys ! i) = word_of_int (params_num u)"
        "params_num u \<in> {- (2 ^ 31)..<2 ^ 31}" by auto
    have "index_map xt_id tys (ty_name u) = Some i" using assms(3) X(4) T i t by (simp add: index_map_distinct)
    then show "schema_arity X (ty_name u) = Some (params_num u)"
      using X(4) t(2,3) by (simp add: schema_arity_def sint_sbintrunc' signed_take_bit_int_eq_self)
  qed
  have "length (of_type X (tys ! i)) = xt_num (tys ! i) \<and> length (xt_name (tys ! i)) \<le> 253" if i: "i < length ?ts" for i
  proof -
    from ty[OF i] obtain u where u: "types p (?ts ! i) = Some u" "xt_id (tys ! i) = ty_name u"
      "xt_num (tys ! i) = length (constructors u)" "length (xt_name (tys ! i)) \<le> 253" by auto
    then show ?thesis using group_by[OF X(2) d nth_mem[OF i] own] X(4) by (simp add: of_type_def k_def constructors_of_def)
  qed
  then show "list_all (\<lambda>t. length (xt_name t) \<le> 253 \<and> xt_num t = length (of_type X t)) (xs_types X)"
    using T X(4) by (simp add: list_all_length)
  show "list_all (\<lambda>x. xc_type x \<in> set (map xt_id (xs_types X))) (xs_constructors X)"
    unfolding list_all_iff
  proof
    fix y assume "y \<in> set (xs_constructors X)"
    then have "Some y \<in> abs_comb p ` set (concat (map (constructors_of p) ?ts))"
      using X(2,4) unfolding those_Some by (metis (no_types) image_eqI list.set_map xschema.select_convs(2))
    then obtain t c where "t \<in> set ?ts" "c \<in> set (constructors_of p t)" "abs_comb p c = Some y" by auto
    with own show "xc_type y \<in> set (map xt_id (xs_types X))" unfolding X(4) xschema.simps ids by auto
  qed
qed


lemma ok_schema_abs:
  assumes "reg_ok p" and "store_ok p" and "brk p \<le> 2 ^ 31" and "abs_schema p = Some X"
    and "distinct (map xt_id (xs_types X))" and "length (enc_schema X) < 2 ^ 31"
  shows "ok_schema X"
proof -
  note A = abs_schema_parts[OF assms(1,4,5)]
  have "4 * length (xs_constructors X) \<le> length (concat (map enc_comb (xs_constructors X)))"
    by (rule length_le_concat) (rule length_enc_comb)
  then have "length (xs_constructors X) < 2 ^ 31" using assms(6) by (simp add: enc_schema_def)
  then have "length (of_type X t) < 2 ^ 31" for t using length_filter_le[of _ "xs_constructors X"] unfolding of_type_def by (rule le_less_trans[rotated])
  with A(2,3) puts_schema(2)[OF assms(1-3) A(1) assms(4)] assms(5) show ?thesis
    by (auto simp: ok_schema_def ok_ty_def list_all_iff)
qed

lemma write_types_abs:
  assumes "reg_ok p" and "store_ok p" and "brk p \<le> 2 ^ 31" and "abs_schema p = Some X"
    and "distinct (map xt_id (xs_types X))"
  shows "\<exists>t. write_types \<lparr>prog = p, out = []\<rparr> = Inr ((), t) \<and> out t = enc_schema X"
proof -
  from puts_schema(1)[OF assms(1-3) abs_schema_parts(1)[OF assms(1,4,5)] assms(4)]
  have "\<exists>k'. write_types \<lparr>prog = p\<lparr>lrand48_count := lrand48_count p\<rparr>, out = []\<rparr> =
      Inr ((), \<lparr>prog = p\<lparr>lrand48_count := k'\<rparr>, out = [] @ enc_schema X\<rparr>)"
    unfolding puts_def by (metis (full_types))
  then show ?thesis by auto
qed

text \<open>The writer as a client of a reader.\<close>

context tlo_reader
begin

lemma written_is_read:
  assumes "reg_ok p" and "store_ok p" and "brk p \<le> 2 ^ 31" and "abs_schema p = Some X" and "distinct (map xt_id (xs_types X))"
    and "accepts X" and "length (enc_schema X) < limit"
  shows "\<exists>t. write_types \<lparr>prog = p, out = []\<rparr> = Inr ((), t) \<and> read (out t) = Inr (meaning X)"
  using write_types_abs[OF assms(1-5)] reads_back[OF assms(6,7)] by auto

end

subsection \<open>Round trip\<close>

text \<open>
  An example: the type \<open>Int\<close> with its constructor \<open>int\<close>, and the function \<open>f n:# x:n*[Int] = Int\<close>.
\<close>

definition type_node :: "addr \<Rightarrow> cnode" where
  "type_node t = zero_node\<lparr>act := act_type, ctype := type_type, data := DType t\<rparr>"

definition field_node :: "cdata \<Rightarrow> addr \<Rightarrow> cnode" where
  "field_node d l = zero_node\<lparr>act := act_field, ctype := type_list_item, data := d, left := l\<rparr>"

definition sample_type :: "string \<Rightarrow> u32 \<Rightarrow> addr list \<Rightarrow> tl_type" where
  "sample_type w m cs = (fresh_type sample_tlst w 0 0)\<lparr>ty_name := m, constructors := cs\<rparr>"

definition sample_prog :: tlst where
  "sample_prog = sample_tlst\<lparr>brk := 15,
     types := [1 \<mapsto> sample_type ''#'' 0x70659eff [], 2 \<mapsto> sample_type ''Int'' 0xa8509bda [3]],
     combs := [3 \<mapsto> (fresh_comb 2 ''int'' 0xa8509bda)\<lparr>c_right := 4\<rparr>, 5 \<mapsto> (fresh_comb 2 ''f'' 7)\<lparr>c_left := 6, c_right := 9\<rparr>],
     nodes := [4 \<mapsto> type_node 2, 6 \<mapsto> zero_node\<lparr>act := act_union, ctype := type_list, left := 7, right := 8\<rparr>,
       7 \<mapsto> field_node (DStr ''n'') 10, 8 \<mapsto> field_node (DStr ''x'') 11, 9 \<mapsto> type_node 2, 10 \<mapsto> type_node 1,
       11 \<mapsto> zero_node\<lparr>act := act_array, ctype := type_type, left := 12, right := 13\<rparr>,
       12 \<mapsto> zero_node\<lparr>act := act_var, ctype := type_num, data := DNode 7\<rparr>,
       13 \<mapsto> field_node DNull 14, 14 \<mapsto> type_node 2],
     tl_type_tree := TNode (TNode TNil 1 0 TNil) 2 0 TNil, tl_constructor_tree := TNode TNil 3 0 TNil,
     tl_function_tree := TNode TNil 5 0 TNil,
     total_types_num := 2, total_constructors_num := 1, total_functions_num := 1\<rparr>"

definition sample_schema :: xschema where
  "sample_schema =
     (let int = XType 0xa8509bda 0 [] in
      \<lparr>xs_types = [\<lparr>xt_id = 0x70659eff, xt_name = ''#'', xt_num = 0, xt_flags = 0, xt_arity = 0, xt_params = 0\<rparr>,
         \<lparr>xt_id = 0xa8509bda, xt_name = ''Int'', xt_num = 1, xt_flags = 0, xt_arity = 0, xt_params = 0\<rparr>],
       xs_constructors = [\<lparr>xc_id = 0xa8509bda, xc_name = ''int'', xc_type = 0xa8509bda, xc_args = Some [], xc_result = int\<rparr>],
       xs_functions = [\<lparr>xc_id = 7, xc_name = ''f'', xc_type = 0xa8509bda, xc_args = Some
         [XArg ''n'' 0 (Some 0) None (XType 0x70659eff 0 []),
          XArg ''x'' 0 None None (XArray (XVar 0 0) [XArg [] 0 None None int])], xc_result = int\<rparr>]\<rparr>)"

lemma sample_prog_ok: "prog_ok sample_prog"
proof -
  have "scopes_ok sample_prog" by (rule scopes_ok_frame[OF _ _ sample_scopes(1)]) (simp_all add: sample_prog_def scope_part_def sample_tlst(2))
  moreover have "fields_ok sample_prog" by (simp add: fields_ok_def sample_prog_def sample_tlst_def initial_tlst_def)
  moreover have "store_ok sample_prog" by (auto simp: store_ok_def sample_prog_def)
  moreover have "reg_ok sample_prog"
    by (auto simp: reg_ok_def sample_prog_def owned_def bst_def ordered_def type_key_def comb_key_def constructors_of_def
        sample_type_def fresh_type_def fresh_comb_def)
  ultimately show ?thesis by (simp add: prog_ok_def)
qed

lemma sample_parts:
  "nodes sample_prog 4 = Some (type_node 2)" "nodes sample_prog 6 = Some (zero_node\<lparr>act := act_union, ctype := type_list, left := 7, right := 8\<rparr>)"
  "nodes sample_prog 7 = Some (field_node (DStr ''n'') 10)" "nodes sample_prog 8 = Some (field_node (DStr ''x'') 11)"
  "nodes sample_prog 9 = Some (type_node 2)" "nodes sample_prog 10 = Some (type_node 1)"
  "nodes sample_prog 11 = Some (zero_node\<lparr>act := act_array, ctype := type_type, left := 12, right := 13\<rparr>)"
  "nodes sample_prog 12 = Some (zero_node\<lparr>act := act_var, ctype := type_num, data := DNode 7\<rparr>)"
  "nodes sample_prog 13 = Some (field_node DNull 14)" "nodes sample_prog 14 = Some (type_node 2)"
  "types sample_prog 1 = Some (sample_type ''#'' 0x70659eff [])" "types sample_prog 2 = Some (sample_type ''Int'' 0xa8509bda [3])"
  "combs sample_prog 3 = Some ((fresh_comb 2 ''int'' 0xa8509bda)\<lparr>c_right := 4\<rparr>)"
  "combs sample_prog 5 = Some ((fresh_comb 2 ''f'' 7)\<lparr>c_left := 6, c_right := 9\<rparr>)"
  by (simp_all add: sample_prog_def)

lemma sample_type_trees:
  "nodes sample_prog T = Some (type_node t) \<Longrightarrow> types sample_prog t = Some (sample_type w m cs) \<Longrightarrow> T \<noteq> 0 \<Longrightarrow>
     abs_tree (Suc n) sample_prog T a = Some (XT (XType m 0 []), a)"
  by (simp add: type_node_def zero_node_def is_num_def abs_type_def type_word_def sample_type_def fresh_type_def)

lemma sample_field:
  assumes "nodes sample_prog T = Some (field_node d l)" and "T \<noteq> 0" and "l \<noteq> 0" and "abs_name d = Some w"
    and "nodes sample_prog l = Some N" and "act N \<noteq> act_opt_field" and "node_is_var sample_prog N = Some b"
    and "abs_tree n sample_prog l (if b then ((fst a)(T \<mapsto> word_of_int (snd a)), snd a + 1) else a) = Some (XT t, a')"
  shows "abs_args (Suc m) sample_prog (abs_tree n sample_prog) T a
     = Some ([XArg w 0 (if b then Some (word_of_int (snd a)) else None) None t], a')"
  using assms by (auto simp: field_node_def zero_node_def abs_arg_def field_word_def Let_def)

lemma sample_abs: "abs_schema sample_prog = Some sample_schema"
proof -
  let ?int = "XType 0xa8509bda 0 []"
  have int: "abs_tree (Suc n) sample_prog T a = Some (XT ?int, a)" if "T \<in> {4, 9, 14}" for n T a
    using that sample_type_trees[OF _ sample_parts(12), of T n a] sample_parts(1,5,10) by (auto simp del: abs_tree.simps)
  have hash: "abs_tree (Suc n) sample_prog 10 a = Some (XT (XType 0x70659eff 0 []), a)" for n a
    by (rule sample_type_trees[OF sample_parts(6,11)]) simp
  have v: "node_is_var sample_prog (type_node 1) = Some True" "node_is_var sample_prog (type_node 2) = Some False"
    by (simp_all add: node_is_var_def type_node_def zero_node_def sample_parts sample_type_def fresh_type_def)
  have n: "abs_args (Suc m) sample_prog (abs_tree (Suc n) sample_prog) 7 (Map.empty, 0)
     = Some ([XArg ''n'' 0 (Some 0) None (XType 0x70659eff 0 [])], ([7 \<mapsto> 0], 1))" for m n
    using sample_field[OF sample_parts(3) _ _ _ sample_parts(6) _ v(1), of "''n''" "Suc n" "(Map.empty, 0)"] hash
    by (simp add: abs_name_def type_node_def zero_node_def del: abs_tree.simps abs_args.simps)
  have item: "abs_args (Suc m) sample_prog (abs_tree (Suc n) sample_prog) 13 a = Some ([XArg [] 0 None None ?int], a)" for m n a
    using sample_field[OF sample_parts(9) _ _ _ sample_parts(10) _ v(2), of "[]" "Suc n" a] int
    by (simp add: abs_name_def type_node_def zero_node_def del: abs_tree.simps abs_args.simps)
  have arr: "abs_tree (Suc (Suc (Suc n))) sample_prog 11 ([7 \<mapsto> 0], 1) = Some (XT (XArray (XVar 0 0) [XArg [] 0 None None ?int]), ([7 \<mapsto> 0], 1))" for n
  proof -
    have "abs_tree (Suc (Suc n)) sample_prog 13 ([7 \<mapsto> 0], 1) = Some (XL [XArg [] 0 None None ?int], ([7 \<mapsto> 0], 1))"
      using item[of "Suc n" n] by (simp add: sample_parts(9) field_node_def zero_node_def del: abs_args.simps)
    moreover have "abs_tree (Suc (Suc n)) sample_prog 12 ([7 \<mapsto> 0], 1) = Some (XN (XVar 0 0), ([7 \<mapsto> 0], 1))"
      by (simp add: sample_parts is_num_def abs_num_def var_number_def zero_node_def)
    ultimately show ?thesis
      by (simp only: abs_tree.simps(2)[of "Suc (Suc n)"] sample_parts) (simp add: zero_node_def is_num_def abs_array_def del: abs_tree.simps)
  qed
  have x: "abs_args (Suc m) sample_prog (abs_tree (Suc (Suc (Suc n))) sample_prog) 8 ([7 \<mapsto> 0], 1)
     = Some ([XArg ''x'' 0 None None (XArray (XVar 0 0) [XArg [] 0 None None ?int])], ([7 \<mapsto> 0], 1))" for m n
    using sample_field[OF sample_parts(4) _ _ _ sample_parts(7), of "''x''" False "Suc (Suc (Suc n))" "([7 \<mapsto> 0], 1)"] arr
    by (simp add: abs_name_def node_is_var_def zero_node_def del: abs_tree.simps abs_args.simps)
  obtain m where m: "nat (brk sample_prog) = Suc (Suc (Suc (Suc (Suc m))))"
    by (rule that[of 10]) (simp add: sample_prog_def)
  have args: "abs_tree (nat (brk sample_prog)) sample_prog 6 (Map.empty, 0) = Some (XL [XArg ''n'' 0 (Some 0) None (XType 0x70659eff 0 []),
      XArg ''x'' 0 None None (XArray (XVar 0 0) [XArg [] 0 None None ?int])], ([7 \<mapsto> 0], 1))"
  proof -
    have "abs_args (Suc (Suc (Suc (Suc (Suc m))))) sample_prog (abs_tree (Suc (Suc (Suc (Suc m)))) sample_prog) 6 (Map.empty, 0) =
        Some ([XArg ''n'' 0 (Some 0) None (XType 0x70659eff 0 []), XArg ''x'' 0 None None (XArray (XVar 0 0) [XArg [] 0 None None ?int])],
          ([7 \<mapsto> 0], 1))"
      using n[of "Suc (Suc (Suc m))" "Suc (Suc (Suc m))"] x[of "Suc (Suc (Suc m))" "Suc m"]
      by (simp only: abs_args.simps(2)[of "Suc (Suc (Suc (Suc m)))"] sample_parts) (simp add: zero_node_def del: abs_tree.simps abs_args.simps)
    then show ?thesis unfolding m
      by (simp only: abs_tree.simps(2)[of "Suc (Suc (Suc (Suc m)))"] sample_parts) (simp add: zero_node_def del: abs_tree.simps abs_args.simps)
  qed
  have "abs_comb sample_prog 5 = Some (hd (xs_functions sample_schema))" "abs_comb sample_prog 3 = Some (hd (xs_constructors sample_schema))"
    using args int[of 9 "Suc (Suc (Suc (Suc m)))"] int[of 4 "Suc (Suc (Suc (Suc m)))"]
    by (simp_all add: abs_comb_def abs_left_def sample_parts fresh_comb_def is_builtin_type_def sample_type_def sample_schema_def Let_def m
        del: abs_tree.simps)
  moreover have "abs_ty sample_prog 1 = Some (xs_types sample_schema ! 0)" "abs_ty sample_prog 2 = Some (xs_types sample_schema ! 1)"
    by (simp_all add: abs_ty_def sample_parts sample_type_def fresh_type_def sample_schema_def Let_def)
  moreover have "inorder (tl_type_tree sample_prog) = [1, 2]" "inorder (tl_function_tree sample_prog) = [5]"
    by (simp_all add: sample_prog_def)
  moreover have "constructors_of sample_prog 1 = []" "constructors_of sample_prog 2 = [3]"
    by (simp_all add: constructors_of_def sample_parts sample_type_def)
  ultimately show ?thesis by (simp add: abs_schema_def Let_def) (simp add: sample_schema_def Let_def)
qed


text \<open>
  C4: The round trip between the two programs: for a state of the compiler whose combinator trees are well formed and whose types
  have distinct ids, writing returns, and what it wrote is read by the code generators without error as exactly the configuration that
  the tables of the compiler mean: the types with ids, names, arities and flags, their constructors in order, the functions, and the tree and the variables of every
  argument and result. The tables lie within two gigabytes, and the file is smaller than 32 megabytes.
\<close>

theorem exchange_roundtrip:
  assumes "prog_ok p" and "brk p \<le> 2 ^ 31" and "abs_schema p = Some X" and "distinct (map xt_id (xs_types X))"
    and "length (enc_schema X) < 2 ^ 25"
  shows "\<exists>t. write_types \<lparr>prog = p, out = []\<rparr> = Inr ((), t) \<and> read_tl_config (out t) = Inr (config_of X)"
proof -
  have p: "reg_ok p" "store_ok p" using assms(1) by (simp_all add: prog_ok_def)
  from config_reader.written_is_read[OF p assms(2-4) ok_schema_abs[OF p assms(2-4)] assms(5)] assms(5) show ?thesis by simp
qed

theorem exchange_roundtrip_witness:
  "\<exists>t. write_types \<lparr>prog = sample_prog, out = []\<rparr> = Inr ((), t) \<and> read_tl_config (out t) = Inr (config_of sample_schema)"
proof -
  have "brk sample_prog \<le> 2 ^ 31" by (simp add: sample_prog_def)
  moreover have "distinct (map xt_id (xs_types sample_schema))" by (simp add: sample_schema_def Let_def)
  moreover have "length (enc_schema sample_schema) < 2 ^ 25"
    by (simp add: sample_schema_def Let_def enc_schema_def enc_ty_def enc_comb_def enc_args_def string_bytes_def)
  ultimately show ?thesis by (rule exchange_roundtrip[OF sample_prog_ok _ sample_abs])
qed

end
