(* ===== verification/TL_Files.thy ===== *)
theory TL_Files
  imports TL_Prelude "HOL-Library.Sublist"
begin

section \<open>Files and documentation (tdtl: tl_file_utils.cpp, generate: remove_documentation.cpp)\<close>

text \<open>
  Generated files are compared with the files on disk, and rewritten only when they differ. Comments for documentation are
  removed from the old file first, unless the writer generates them itself. The file system is a map from names to contents
  and the set of names that can be opened for writing; opening truncates. \<open>std::string\<close> may be indexed up to its size, where it has a zero.
\<close>

record filesys =
  contents :: "string \<Rightarrow> string option"
  can_write :: "string \<Rightarrow> bool"

definition NLF :: char where "NLF = CHR 0x0A"

subsection \<open>Reading and writing\<close>

definition get_file_contents :: "filesys \<Rightarrow> string \<Rightarrow> fault + string" where
  "get_file_contents F name =
     (case contents F name of
        None \<Rightarrow> Inr []
      | Some s \<Rightarrow> if 2 ^ 25 \<le> length s then Inl Assertion else Inr s)"

text \<open>\<open>fwrite\<close> of one item of size zero returns zero, so that an empty file is truncated and reported as a failure.\<close>

definition put_file_contents :: "string \<Rightarrow> string \<Rightarrow> filesys \<Rightarrow> bool \<times> filesys" where
  "put_file_contents name s F =
     (if \<not> can_write F name then (False, F)
      else (s \<noteq> [], F\<lparr>contents := (contents F)(name \<mapsto> s)\<rparr>))"

subsection \<open>Documentation\<close>

definition str_at :: "string \<Rightarrow> nat \<Rightarrow> fault + char" where
  "str_at s i = (if i < length s then Inr (s ! i) else if i = length s then Inr (CHR 0x00) else Inl OutOfBounds)"

text \<open>\<open>line[pos] == a && line[pos + 1] == b && ...\<close>\<close>

fun chars_at :: "string \<Rightarrow> nat \<Rightarrow> string \<Rightarrow> fault + bool" where
  "chars_at s i [] = Inr True"
| "chars_at s i (c # cs) =
     (case str_at s i of Inl e \<Rightarrow> Inl e | Inr x \<Rightarrow> if x = c then chars_at s (Suc i) cs else Inr False)"

definition find_first_not_of :: "char \<Rightarrow> string \<Rightarrow> nat option" where
  "find_first_not_of c s = (let n = length (takeWhile (\<lambda>x. x = c) s) in if n < length s then Some n else None)"

definition or_else :: "fault + bool \<Rightarrow> fault + bool \<Rightarrow> fault + bool" where
  "or_else a b = (case a of Inl e \<Rightarrow> Inl e | Inr x \<Rightarrow> if x then Inr True else b)"

text \<open>Whether a line is documentation, and then the new value of \<open>inside_documentation\<close>.\<close>

definition doc_line :: "bool \<Rightarrow> string \<Rightarrow> fault + bool option" where
  "doc_line inside line =
     (case find_first_not_of CHR '' '' line of
        None \<Rightarrow> Inr None
      | Some pos \<Rightarrow>
          (case or_else (chars_at line pos ''///'') (or_else (chars_at line pos ''/**'')
                  (if inside then chars_at line pos ''*'' else Inr False)) of
             Inl e \<Rightarrow> Inl e
           | Inr False \<Rightarrow> Inr None
           | Inr True \<Rightarrow>
               (case or_else (chars_at line pos ''///'') (chars_at line pos ''*/'') of
                  Inl e \<Rightarrow> Inl e
                | Inr b \<Rightarrow> Inr (Some (\<not> b)))))"

text \<open>The line that starts at the front of the text, with its newline.\<close>

definition first_line :: "string \<Rightarrow> string" where
  "first_line s = (let n = length (takeWhile (\<lambda>x. x \<noteq> NLF) s) in take (Suc n) s)"

lemma first_line_shorter: "s \<noteq> [] \<Longrightarrow> length s - length (first_line s) < length s"
  by (cases s) (simp_all add: first_line_def Let_def)

function remove_loop :: "bool \<Rightarrow> string \<Rightarrow> string \<Rightarrow> fault + string" where
  "remove_loop inside s result =
     (if s = [] then Inr result
      else
        (let line = first_line s; rest = drop (length line) s in
         case doc_line inside line of
           Inl e \<Rightarrow> Inl e
         | Inr (Some inside') \<Rightarrow> remove_loop inside' rest result
         | Inr None \<Rightarrow> remove_loop False rest (result @ line)))"
  by pat_completeness auto
termination remove_loop
  by (relation "measure (\<lambda>(_, s, _). length s)") (auto simp: first_line_shorter)

declare remove_loop.simps [simp del]

definition remove_documentation :: "string \<Rightarrow> fault + string" where
  "remove_documentation str = remove_loop False str []"

subsection \<open>The program remove_documentation\<close>

definition remove_documentation_file :: "string \<Rightarrow> (filesys, unit) comp" where
  "remove_documentation_file name =
     bind (gets (\<lambda>F. get_file_contents F name)) (\<lambda>r.
     bind (lift r) (\<lambda>old.
     bind (lift (remove_documentation old)) (\<lambda>new.
     if new \<noteq> old then
       bind (gets (\<lambda>F. put_file_contents name new F)) (\<lambda>(ok, F').
       bind (modify (\<lambda>_. F')) (\<lambda>_. check ok))
     else ret ())))"

definition remove_documentation_main :: "string list \<Rightarrow> (filesys, unit) comp" where
  "remove_documentation_main argv = iterate remove_documentation_file (tl argv)"

subsection \<open>Lines\<close>

text \<open>The reference: the lines of a text, and the lines that are kept.\<close>

function lines_of :: "string \<Rightarrow> string list" where
  "lines_of s = (if s = [] then [] else first_line s # lines_of (drop (length (first_line s)) s))"
  by pat_completeness auto
termination lines_of
  by (relation "measure length") (auto simp: first_line_shorter)

declare lines_of.simps [simp del]

definition begins :: "string \<Rightarrow> string \<Rightarrow> bool" where
  "begins p line \<longleftrightarrow> prefix p (dropWhile (\<lambda>x. x = CHR '' '') line)"

definition is_doc :: "bool \<Rightarrow> string \<Rightarrow> bool" where
  "is_doc inside line \<longleftrightarrow> begins ''///'' line \<or> begins ''/**'' line \<or> (inside \<and> begins ''*'' line)"

fun undocumented :: "bool \<Rightarrow> string list \<Rightarrow> string list" where
  "undocumented inside [] = []"
| "undocumented inside (l # ls) =
     (if is_doc inside l then undocumented (\<not> begins ''///'' l \<and> \<not> begins ''*/'' l) ls
      else l # undocumented False ls)"

lemma chars_at_prefix:
  assumes "i \<le> length s" and "CHR 0x00 \<notin> set p"
  shows "chars_at s i p = Inr (prefix p (drop i s))"
  using assms
proof (induction p arbitrary: i)
  case (Cons c cs)
  show ?case
  proof (cases "i < length s")
    case True
    then have "drop i s = s ! i # drop (Suc i) s" by (simp add: Cons_nth_drop_Suc)
    with Cons True show ?thesis by (simp add: str_at_def)
  next
    case False
    with Cons show ?thesis by (auto simp: str_at_def)
  qed
qed simp

lemma doc_line_spec:
  "doc_line inside line = Inr (if is_doc inside line then Some (\<not> begins ''///'' line \<and> \<not> begins ''*/'' line) else None)"
proof -
  let ?n = "length (takeWhile (\<lambda>x. x = CHR '' '') line)"
  have d: "drop ?n line = dropWhile (\<lambda>x. x = CHR '' '') line" by (metis dropWhile_eq_drop)
  have n: "?n \<le> length line" by (rule length_takeWhile_le)
  have c: "chars_at line ?n p = Inr (begins p line)" if "CHR 0x00 \<notin> set p" for p
    using chars_at_prefix[OF n that] by (simp add: begins_def d)
  show ?thesis
  proof (cases "?n < length line")
    case True
    then show ?thesis
      by (auto simp: doc_line_def find_first_not_of_def Let_def c or_else_def is_doc_def simp del: chars_at.simps split: bool.split)
  next
    case False
    with n have e: "dropWhile (\<lambda>x. x = CHR '' '') line = []" unfolding d[symmetric] by simp
    show ?thesis unfolding doc_line_def find_first_not_of_def Let_def is_doc_def begins_def e using False by simp
  qed
qed

lemma remove_loop_spec: "remove_loop inside s result = Inr (result @ concat (undocumented inside (lines_of s)))"
proof (induction inside s result rule: remove_loop.induct)
  case (1 inside s result)
  show ?case
  proof (cases "s = []")
    case True
    then show ?thesis by (simp add: remove_loop.simps lines_of.simps)
  next
    case False
    with 1 show ?thesis
      by (subst remove_loop.simps, subst lines_of.simps) (simp add: Let_def doc_line_spec)
  qed
qed

text \<open>Lines end with their only newline, except for the last one; texts of such lines have just these lines.\<close>

definition is_line :: "string \<Rightarrow> bool" where
  "is_line l \<longleftrightarrow> (\<exists>x. l = x @ [NLF] \<and> NLF \<notin> set x)"

fun line_list :: "string list \<Rightarrow> bool" where
  "line_list [] = True"
| "line_list [l] \<longleftrightarrow> is_line l \<or> l \<noteq> [] \<and> NLF \<notin> set l"
| "line_list (l # ls) \<longleftrightarrow> is_line l \<and> line_list ls"

lemma first_line_is_line: "is_line l \<Longrightarrow> first_line (l @ r) = l"
  by (auto simp: is_line_def first_line_def Let_def takeWhile_append)

lemma first_line_no_newline: "NLF \<notin> set l \<Longrightarrow> first_line l = l"
proof -
  assume "NLF \<notin> set l"
  then have t: "takeWhile (\<lambda>x. x \<noteq> NLF) l = l" by (subst takeWhile_eq_all_conv) blast
  show ?thesis unfolding first_line_def Let_def t by simp
qed

lemma lines_of_concat: "line_list ls \<Longrightarrow> lines_of (concat ls) = ls"
proof (induction ls rule: line_list.induct)
  case (2 l)
  then show ?case
    using first_line_is_line[of l "[]"] first_line_no_newline[of l]
    by (subst lines_of.simps) (auto simp: is_line_def lines_of.simps[of "[]"])
next
  case (3 l l' ls)
  then show ?case using first_line_is_line[of l "concat (l' # ls)"]
    by (subst lines_of.simps) (auto simp: is_line_def)
qed (simp add: lines_of.simps)

lemma line_list_lines_of: "line_list (lines_of s)"
proof (induction s rule: lines_of.induct)
  case (1 s)
  show ?case
  proof (cases "s = []")
    case True
    then show ?thesis by (simp add: lines_of.simps)
  next
    case False
    let ?x = "takeWhile (\<lambda>x. x \<noteq> NLF) s"
    have x: "NLF \<notin> set ?x" by (auto dest: set_takeWhileD)
    show ?thesis
    proof (cases "NLF \<in> set s")
      case True
      then have s: "s = ?x @ NLF # tl (dropWhile (\<lambda>x. x \<noteq> NLF) s)"
        by (metis (mono_tags, lifting) dropWhile_eq_Nil_conv hd_dropWhile list.collapse takeWhile_dropWhile_id)
      have "is_line (first_line s)"
        by (subst s, subst first_line_is_line[of "?x @ [NLF]", simplified]) (use x in \<open>auto simp: is_line_def\<close>)
      with 1 False show ?thesis
        by (subst lines_of.simps) (cases "lines_of (drop (length (first_line s)) s)"; simp)
    next
      case False
      then have "first_line s = s" by (rule first_line_no_newline)
      with False \<open>s \<noteq> []\<close> show ?thesis by (subst lines_of.simps) (simp add: lines_of.simps[of "[]"])
    qed
  qed
qed

lemma undocumented_line_list: "line_list ls \<Longrightarrow> line_list (undocumented inside ls)"
proof (induction ls arbitrary: inside rule: line_list.induct)
  case (3 l l' ls)
  from 3(1)[of False] 3(2) show ?case
    unfolding undocumented.simps(2)[of inside l]
    by (cases "undocumented False (l' # ls)") (auto simp del: undocumented.simps(2) intro: 3(1))
qed auto

lemma undocumented_again: "undocumented False (undocumented inside ls) = undocumented inside ls"
  by (induction ls arbitrary: inside) (auto simp: is_doc_def)

lemma remove_documentation_lines: "remove_documentation s = Inr (concat (undocumented False (lines_of s)))"
  by (simp add: remove_documentation_def remove_loop_spec)

lemma remove_documentation_again:
  "remove_documentation s = Inr t \<Longrightarrow> remove_documentation t = Inr t"
  by (auto simp: remove_documentation_lines lines_of_concat undocumented_line_list line_list_lines_of undocumented_again)

subsection \<open>Properties\<close>

text \<open>
  C28: \<open>remove_documentation\<close> never indexes a line behind its terminator; it returns the lines of the text that are not documentation, in
  their order and with their newlines. A line is documentation if its first character that is no blank starts a triple slash or an opening
  \<open>/**\<close>, or if it follows a documentation line that is neither a triple slash nor a closing \<open>*/\<close> and starts with a star. Applying the function again changes nothing.
\<close>

theorem remove_documentation_correct:
  "\<exists>t. remove_documentation s = Inr t \<and> t = concat (undocumented False (lines_of s)) \<and> remove_documentation t = Inr t"
  using remove_documentation_lines[of s] remove_documentation_again by blast

text \<open>
  C40: The program \<open>remove_documentation\<close> on a file that can be read and written: the file gets the text without documentation, and it
  is not opened for writing when there is none. A file of documentation only is truncated and then reported as not writable, because \<open>put_file_contents\<close>
  takes the zero that \<open>fwrite\<close> returns for no bytes for a failure; the program aborts.
\<close>

theorem remove_documentation_file_spec:
  assumes "contents F name = Some s" and "length s < 2 ^ 25" and "can_write F name"
  shows "remove_documentation_file name F =
    (let t = concat (undocumented False (lines_of s)) in
     if t = s then Inr ((), F) else if t = [] then Inl Assertion else Inr ((), F\<lparr>contents := (contents F)(name \<mapsto> t)\<rparr>))"
  using assms by (auto simp: remove_documentation_file_def get_file_contents_def put_file_contents_def
      remove_documentation_lines Let_def)

definition one_file :: "string \<Rightarrow> filesys" where
  "one_file s = \<lparr>contents = [''a.h'' \<mapsto> s], can_write = (\<lambda>_. True)\<rparr>"

theorem remove_documentation_file_spec_witness:
  "remove_documentation_file ''a.h'' (one_file (''/// x'' @ [NLF] @ ''int'')) = Inr ((), one_file ''int'') \<and>
   remove_documentation_file ''a.h'' (one_file ''/// x'') = Inl Assertion"
proof -
  have "undocumented False (lines_of (''/// x'' @ [NLF] @ ''int'')) = [''int'']" "undocumented False (lines_of ''/// x'') = []"
    by code_simp+
  then show ?thesis
    using remove_documentation_file_spec[of "one_file (''/// x'' @ [NLF] @ ''int'')" "''a.h''"]
      remove_documentation_file_spec[of "one_file ''/// x''" "''a.h''"]
    by (simp add: one_file_def)
qed

end
