(* ===== verification/TL_Generate.thy ===== *)
theory TL_Generate
  imports TL_Config
begin

section \<open>What the code generator supports (tdtl: tl_writer.cpp, tl_generate.cpp)\<close>

text \<open>
  \<open>write_tl\<close> first checks the configuration, marks the types it cannot generate with the temporary flag
  \<open>FLAG_COMPLEX\<close>, closes this set under the rule that a type without a supported constructor is complex, and finds by
  depth-first search which types and combinators a client sends and receives. The flags and counters are members of the shared
  types, so the state is the configuration. The virtual functions of \<open>TL_writer\<close> that these phases call are the fields of a record;
  \<open>TD_TL_writer\<close> is the writer that the generators for C++ use.
\<close>

unbundle bit_operations_syntax

subsection \<open>Supported types and combinators (tl_writer.cpp)\<close>

definition NODE_TYPE_TYPE :: int where "NODE_TYPE_TYPE = 1"
definition NODE_TYPE_NAT_CONST :: int where "NODE_TYPE_NAT_CONST = 2"
definition NODE_TYPE_VAR_TYPE :: int where "NODE_TYPE_VAR_TYPE = 3"
definition NODE_TYPE_VAR_NUM :: int where "NODE_TYPE_VAR_NUM = 4"
definition NODE_TYPE_ARRAY :: int where "NODE_TYPE_ARRAY = 5"

fun node_type :: "tl_tree \<Rightarrow> int" where
  "node_type (tl_tree_type _ _ _) = NODE_TYPE_TYPE"
| "node_type (tl_tree_nat_const _ _) = NODE_TYPE_NAT_CONST"
| "node_type (tl_tree_var_type _ _) = NODE_TYPE_VAR_TYPE"
| "node_type (tl_tree_var_num _ _ _) = NODE_TYPE_VAR_NUM"
| "node_type (tl_tree_array _ _ _) = NODE_TYPE_ARRAY"

definition is_complex :: "tl_config \<Rightarrow> nat \<Rightarrow> bool" where
  "is_complex c t \<longleftrightarrow> ct_flags (cf_types c ! t) AND FLAG_COMPLEX \<noteq> 0"

fun is_type_supported :: "tl_config \<Rightarrow> tl_tree \<Rightarrow> fault + bool"
and children_supported :: "tl_config \<Rightarrow> tl_tree list \<Rightarrow> fault + bool" where
  "is_type_supported c T =
     (case T of
        tl_tree_type f t cs \<Rightarrow> if is_complex c t then Inr False else children_supported c cs
      | _ \<Rightarrow> Inl OutOfBounds)"
| "children_supported c [] = Inr True"
| "children_supported c (x # xs) =
     (if node_type x = NODE_TYPE_ARRAY then Inl Assertion
      else if node_type x = NODE_TYPE_TYPE then
        (case is_type_supported c x of
           Inl e \<Rightarrow> Inl e
         | Inr b \<Rightarrow> if b then children_supported c xs else Inr False)
      else if node_type x = NODE_TYPE_VAR_TYPE then Inr False
      else children_supported c xs)"

declare is_type_supported.simps [simp del]

text \<open>A loop that stops at the first \<open>false\<close>.\<close>

primrec every :: "('a \<Rightarrow> ('s, bool) comp) \<Rightarrow> 'a list \<Rightarrow> ('s, bool) comp" where
  "every f [] = ret True"
| "every f (x # xs) = bind (f x) (\<lambda>b. if b then every f xs else ret False)"

text \<open>The local vector \<open>is_function_result\<close> is the state of the computation.\<close>

definition is_function_result :: "int \<Rightarrow> (bool list, bool) comp" where
  "is_function_result v =
     bind (gets id) (\<lambda>r. if 0 \<le> v \<and> nat v < length r then ret (r ! nat v) else raise OutOfBounds)"

definition note_function_result :: "tl_arg \<Rightarrow> (bool list, bool) comp" where
  "note_function_result a =
     (case a_type a of
        tl_tree_var_type f v \<Rightarrow>
          if a_flags a AND FLAG_EXCL_core \<noteq> 0 then
            bind (check (0 \<le> v)) (\<lambda>_.
            bind (is_function_result v) (\<lambda>b.
            if b then ret False else bind (modify (\<lambda>r. r[nat v := True])) (\<lambda>_. ret True)))
          else ret False
      | _ \<Rightarrow> ret True)"

text \<open>\<open>continue\<close> at an argument that is a type variable\<close>

definition is_type_arg :: "tl_config \<Rightarrow> tl_arg \<Rightarrow> (bool list, bool) comp" where
  "is_type_arg c a =
     (if 0 \<le> a_var_num a then
        bind (check (node_type (a_type a) = NODE_TYPE_TYPE)) (\<lambda>_.
        if ct_id (cf_types c ! t_type (a_type a)) = ID_VAR_TYPE then
          bind (check (t_flags (a_type a) AND FLAG_EXCL_core = 0)) (\<lambda>_.
          bind (is_function_result (a_var_num a)) (\<lambda>b.
          bind (check b) (\<lambda>_. ret True)))
        else ret False)
      else ret False)"

definition is_element_supported :: "tl_config \<Rightarrow> tl_arg \<Rightarrow> (bool list, bool) comp" where
  "is_element_supported c b =
     bind (check (node_type (a_type b) = NODE_TYPE_TYPE \<and> a_var_num b = -1)) (\<lambda>_.
     lift (is_type_supported c (a_type b)))"

definition is_arg_supported :: "tl_config \<Rightarrow> tl_arg \<Rightarrow> (bool list, bool) comp" where
  "is_arg_supported c a =
     bind (is_type_arg c a) (\<lambda>skip.
     if skip \<or> node_type (a_type a) = NODE_TYPE_VAR_TYPE then ret True
     else if node_type (a_type a) = NODE_TYPE_TYPE then lift (is_type_supported c (a_type a))
     else
       bind (check (node_type (a_type a) = NODE_TYPE_ARRAY)) (\<lambda>_.
       every (is_element_supported c) (t_args (a_type a))))"

definition is_result_supported :: "tl_config \<Rightarrow> tl_tree option \<Rightarrow> (bool list, bool) comp" where
  "is_result_supported c r =
     (case r of
        None \<Rightarrow> raise NullDeref
      | Some T \<Rightarrow>
          if node_type T = NODE_TYPE_TYPE then lift (is_type_supported c T)
          else bind (check (node_type T = NODE_TYPE_VAR_TYPE)) (\<lambda>_. is_function_result (t_var_num T)))"

definition is_combinator_supported :: "tl_config \<Rightarrow> tl_combinator \<Rightarrow> fault + bool" where
  "is_combinator_supported c k =
     (case bind (every note_function_result (cb_args k)) (\<lambda>b.
           if b then
             bind (every (is_arg_supported c) (cb_args k)) (\<lambda>b.
             if b then is_result_supported c (cb_result k) else ret False)
           else ret False) (replicate (nat (cb_var_count k)) False) of
        Inl e \<Rightarrow> Inl e
      | Inr (b, _) \<Rightarrow> Inr b)"

subsection \<open>Writers (tl_writer.h, tl_writer_td.cpp)\<close>

datatype Mode = mode_All | mode_Client | mode_Server

record TL_writer =
  is_built_in_simple_type :: "string \<Rightarrow> bool"
  is_built_in_complex_type :: "string \<Rightarrow> bool"
  combinator_supported :: "tl_config \<Rightarrow> tl_combinator \<Rightarrow> fault + bool"
  get_parser_mode :: "int \<Rightarrow> Mode"
  get_storer_mode :: "int \<Rightarrow> Mode"

definition td_combinator_supported :: "tl_config \<Rightarrow> tl_combinator \<Rightarrow> fault + bool" where
  "td_combinator_supported c k =
     (case is_combinator_supported c k of
        Inl e \<Rightarrow> Inl e
      | Inr b \<Rightarrow> Inr (b \<and> list_all (\<lambda>a. node_type (a_type a) \<noteq> NODE_TYPE_VAR_TYPE) (cb_args k)))"

definition td_parser_mode :: "string \<Rightarrow> int \<Rightarrow> Mode" where
  "td_parser_mode tl_name type =
     (if tl_name = ''td_api'' then mode_Server else if tl_name = ''telegram_api'' then mode_Client else mode_All)"

definition td_storer_mode :: "string \<Rightarrow> int \<Rightarrow> Mode" where
  "td_storer_mode tl_name type =
     (if type = 1 then mode_All
      else if tl_name = ''td_api'' then mode_Server else if tl_name = ''telegram_api'' then mode_Client else mode_All)"

definition td_simple_type :: "string \<Rightarrow> bool" where
  "td_simple_type name \<longleftrightarrow>
     name \<in> {''True'', ''Bool'', ''Int'', ''Long'', ''Double'', ''String'', ''Int32'', ''Int53'', ''Int64'', ''Int128'',
       ''Int256'', ''Bytes''}"

definition TD_TL_writer :: "string \<Rightarrow> TL_writer" where
  "TD_TL_writer tl_name =
     \<lparr>is_built_in_simple_type = td_simple_type, is_built_in_complex_type = (\<lambda>name. name = ''Vector''),
      combinator_supported = td_combinator_supported, get_parser_mode = td_parser_mode tl_name,
      get_storer_mode = td_storer_mode tl_name\<rparr>"

subsection \<open>Checks and first marks (write_tl)\<close>

type_synonym 'a gen = "(tl_config, 'a) comp"

definition type_num :: "nat \<Rightarrow> tl_ctype gen" where
  "type_num i = gets (\<lambda>c. cf_types c ! i)"

definition upd_type_num :: "nat \<Rightarrow> (tl_ctype \<Rightarrow> tl_ctype) \<Rightarrow> unit gen" where
  "upd_type_num i f = modify (\<lambda>c. c\<lparr>cf_types := (cf_types c)[i := f (cf_types c ! i)]\<rparr>)"

definition set_complex :: "nat \<Rightarrow> unit gen" where
  "set_complex i = upd_type_num i (\<lambda>t. t\<lparr>ct_flags := ct_flags t OR FLAG_COMPLEX\<rparr>)"

definition mark_complex :: "TL_writer \<Rightarrow> nat \<Rightarrow> unit gen" where
  "mark_complex w i =
     bind (type_num i) (\<lambda>t. if \<not> is_built_in_complex_type w (ct_name t) then set_complex i else ret ())"

definition check_element :: "TL_writer \<Rightarrow> nat \<Rightarrow> tl_arg \<Rightarrow> unit gen" where
  "check_element w i b =
     bind (if node_type (a_type b) = NODE_TYPE_VAR_TYPE \<or> node_type (a_type b) = NODE_TYPE_ARRAY \<or>
              a_var_num b \<noteq> -1 \<or> a_exist_var_num b \<noteq> -1
           then mark_complex w i else check (node_type (a_type b) = NODE_TYPE_TYPE)) (\<lambda>_.
     check (a_flags b = FLAG_NOVAR \<or> a_flags b = 0))"

definition check_arg :: "TL_writer \<Rightarrow> nat \<Rightarrow> tl_combinator \<Rightarrow> tl_arg \<Rightarrow> unit gen" where
  "check_arg w i k a =
     (let n = node_type (a_type a) in
      bind (check (-1 \<le> a_var_num a \<and> a_var_num a \<le> cb_var_count k)) (\<lambda>_.
      bind (check (n = NODE_TYPE_TYPE \<or> n = NODE_TYPE_VAR_TYPE \<or> n = NODE_TYPE_ARRAY)) (\<lambda>_.
      bind (if 0 \<le> a_var_num a then
              bind (check (n = NODE_TYPE_TYPE)) (\<lambda>_.
              bind (type_num (t_type (a_type a))) (\<lambda>t.
              check (ct_id t = ID_VAR_NUM \<or> ct_id t = ID_VAR_TYPE)))
            else ret ()) (\<lambda>_.
      if n = NODE_TYPE_ARRAY then
        (let m = node_type (t_multiplicity (a_type a)) in
         bind (check (m = NODE_TYPE_NAT_CONST \<or> m = NODE_TYPE_VAR_NUM)) (\<lambda>_.
         iterate (check_element w i) (t_args (a_type a))))
      else ret ()))))"

definition the_result :: "tl_combinator \<Rightarrow> tl_tree gen" where
  "the_result k = (case cb_result k of None \<Rightarrow> raise NullDeref | Some T \<Rightarrow> ret T)"

definition check_constructor :: "TL_writer \<Rightarrow> nat \<Rightarrow> tl_ctype \<Rightarrow> tl_combinator \<Rightarrow> unit gen" where
  "check_constructor w i t k =
     bind (check (cb_type_id k = ct_id t)) (\<lambda>_.
     bind (the_result k) (\<lambda>T.
     bind (check (node_type T = NODE_TYPE_TYPE)) (\<lambda>_.
     bind (check (t_type T = i)) (\<lambda>_.
     bind (check (int (length (t_children T)) = ct_arity t)) (\<lambda>_.
     bind (check (t_flags T = (if 0 < ct_arity t then 0 else FLAG_NOVAR))) (\<lambda>_.
     iterate (check_arg w i k) (cb_args k)))))))"

definition param_type :: "tl_combinator \<Rightarrow> nat \<Rightarrow> int gen" where
  "param_type k j = bind (the_result k) (\<lambda>T. ret (node_type (t_children T ! j)))"

definition check_param :: "TL_writer \<Rightarrow> nat \<Rightarrow> tl_ctype \<Rightarrow> nat \<Rightarrow> unit gen" where
  "check_param w i t j =
     bind (param_type (hd (ct_constructors t)) j) (\<lambda>main_type.
     bind (iterate (\<lambda>k. bind (param_type k j) (\<lambda>n. check (n = main_type))) (tl (ct_constructors t))) (\<lambda>_.
     bind (check (main_type = NODE_TYPE_VAR_TYPE \<or> main_type = NODE_TYPE_VAR_NUM)) (\<lambda>_.
     if main_type = NODE_TYPE_VAR_TYPE then mark_complex w i else ret ())))"

definition check_type :: "TL_writer \<Rightarrow> nat \<Rightarrow> unit gen" where
  "check_type w i =
     bind (type_num i) (\<lambda>t.
     bind (check (ct_constructors_num t = length (ct_constructors t))) (\<lambda>_.
     if ct_constructors_num t = 0 then
       (if ct_name t = ''Type'' then bind (check (ct_id t = ID_VAR_TYPE)) (\<lambda>_. set_complex i) else ret ())
     else
       bind (iterate (check_constructor w i t) (ct_constructors t)) (\<lambda>_.
       iterate (check_param w i t) [0..<nat (ct_arity t)])))"

definition types_n :: "tl_config \<Rightarrow> nat" where
  "types_n c = length (cf_types c)"

definition check_types :: "TL_writer \<Rightarrow> unit gen" where
  "check_types w = bind (gets types_n) (\<lambda>n. iterate (check_type w) [0..<n])"

subsection \<open>Closing the set of complex types (write_tl)\<close>

primrec count_supported :: "TL_writer \<Rightarrow> tl_combinator list \<Rightarrow> int gen" where
  "count_supported w [] = ret 0"
| "count_supported w (k # ks) =
     bind (gets (\<lambda>c. combinator_supported w c k)) (\<lambda>r.
     bind (lift r) (\<lambda>b.
     bind (count_supported w ks) (\<lambda>n. ret (of_bool b + n))))"

definition find_complex :: "TL_writer \<Rightarrow> nat \<Rightarrow> bool gen" where
  "find_complex w i =
     bind (type_num i) (\<lambda>t.
     if ct_constructors_num t = 0 \<or> is_built_in_complex_type w (ct_name t) then ret False
     else if ct_flags t AND FLAG_COMPLEX \<noteq> 0 then ret False
     else
       bind (count_supported w (ct_constructors t)) (\<lambda>n.
       bind (upd_type_num i (\<lambda>t. t\<lparr>ct_simple_constructors := n\<rparr>)) (\<lambda>_.
       if n = 0 then bind (set_complex i) (\<lambda>_. ret True) else ret False)))"

primrec complex_pass :: "TL_writer \<Rightarrow> nat list \<Rightarrow> bool gen" where
  "complex_pass w [] = ret False"
| "complex_pass w (i # is) = bind (find_complex w i) (\<lambda>b. bind (complex_pass w is) (\<lambda>b'. ret (b \<or> b')))"

text \<open>\<open>while (true)\<close>, with one unit of fuel for an iteration.\<close>

primrec complex_loop :: "nat \<Rightarrow> TL_writer \<Rightarrow> unit gen" where
  "complex_loop 0 w = raise OutOfFuel"
| "complex_loop (Suc n) w =
     bind (gets types_n) (\<lambda>m.
     bind (complex_pass w [0..<m]) (\<lambda>found_complex.
     if found_complex then complex_loop n w else ret ()))"

subsection \<open>Depth-first search (dfs_tree, dfs_combinator, dfs_type)\<close>

text \<open>
  The set \<open>found\<close> is the state. The recursion goes through \<open>dfs_type\<close>, which takes fuel; every level of it enters a new type
  name, so one more than the number of types is enough.
\<close>

type_synonym dfs = "(string set, unit) comp"

lemma size_a_type: "size (a_type a) < size a"
  by (cases a) simp

lemma size_member: "x \<in> set xs \<Longrightarrow> size x < Suc (size_list size xs)"
  by (induction xs) auto

lemma size_array: "x \<in> set as \<Longrightarrow> size (a_type x) < size (tl_tree_array f m as)"
  using size_member[of x as] size_a_type[of x] by simp

lemma size_children: "x \<in> set cs \<Longrightarrow> size x < size (tl_tree_type f t cs)"
  using size_member[of x cs] by simp

function (sequential) dfs_tree :: "(nat \<Rightarrow> dfs) \<Rightarrow> tl_tree \<Rightarrow> dfs" where
  "dfs_tree dt (tl_tree_array f m as) = iterate (\<lambda>a. dfs_tree dt (a_type a)) as"
| "dfs_tree dt (tl_tree_type f t cs) = bind (dt t) (\<lambda>_. iterate (dfs_tree dt) cs)"
| "dfs_tree dt (tl_tree_var_type f v) = ret ()"
| "dfs_tree dt T = raise Assertion"
  by pat_completeness auto
termination dfs_tree
  by (relation "measure (size \<circ> snd)") (simp, simp_all only: in_measure comp_def snd_conv size_array size_children)

definition dfs_combinator :: "TL_writer \<Rightarrow> tl_config \<Rightarrow> (nat \<Rightarrow> dfs) \<Rightarrow> tl_combinator \<Rightarrow> dfs" where
  "dfs_combinator w c dt k =
     bind (lift (combinator_supported w c k)) (\<lambda>b.
     if \<not> b then ret () else
     bind (gets (\<lambda>found. cb_name k \<in> found)) (\<lambda>old.
     if old then ret () else
     bind (modify (insert (cb_name k))) (\<lambda>_.
     iterate (\<lambda>a. dfs_tree dt (a_type a)) (cb_args k))))"

definition is_leaf_type :: "TL_writer \<Rightarrow> tl_ctype \<Rightarrow> bool" where
  "is_leaf_type w t \<longleftrightarrow>
     ct_constructors_num t = 0 \<or> is_built_in_simple_type w (ct_name t) \<or> is_built_in_complex_type w (ct_name t)"

primrec dfs_type :: "nat \<Rightarrow> TL_writer \<Rightarrow> tl_config \<Rightarrow> nat \<Rightarrow> dfs" where
  "dfs_type 0 w c i = raise OutOfFuel"
| "dfs_type (Suc n) w c i =
     (let t = cf_types c ! i in
      bind (gets (\<lambda>found. ct_name t \<in> found)) (\<lambda>old.
      if old then ret () else
      bind (modify (insert (ct_name t))) (\<lambda>_.
      if is_leaf_type w t then ret () else
      bind (check (ct_flags t AND FLAG_COMPLEX = 0)) (\<lambda>_.
      iterate (dfs_combinator w c (dfs_type n w c)) (ct_constructors t)))))"

text \<open>The loop over the functions, with the two sets \<open>request_types\<close> and \<open>result_types\<close> as its state.\<close>

definition on_fst :: "('s, 'a) comp \<Rightarrow> ('s \<times> 't, 'a) comp" where
  "on_fst m = (\<lambda>(s, t). case m s of Inl e \<Rightarrow> Inl e | Inr (x, s') \<Rightarrow> Inr (x, (s', t)))"

definition on_snd :: "('t, 'a) comp \<Rightarrow> ('s \<times> 't, 'a) comp" where
  "on_snd m = (\<lambda>(s, t). case m t of Inl e \<Rightarrow> Inl e | Inr (x, t') \<Rightarrow> Inr (x, (s, t')))"

definition dfs_function :: "nat \<Rightarrow> TL_writer \<Rightarrow> tl_config \<Rightarrow> tl_combinator \<Rightarrow> (string set \<times> string set, unit) comp" where
  "dfs_function n w c k =
     bind (on_fst (dfs_combinator w c (dfs_type n w c) k)) (\<lambda>_.
     on_snd (case cb_result k of None \<Rightarrow> raise NullDeref | Some T \<Rightarrow> dfs_tree (dfs_type n w c) T))"

definition dfs_functions :: "TL_writer \<Rightarrow> tl_config \<Rightarrow> fault + (string set \<times> string set)" where
  "dfs_functions w c =
     (case iterate (dfs_function (Suc (types_n c)) w c) (cf_functions c) ({}, {}) of
        Inl e \<Rightarrow> Inl e
      | Inr (_, r) \<Rightarrow> Inr r)"

text \<open>The whole analysis; the two sets are its result, the marks and counters stay in the configuration.\<close>

definition tl_analysis :: "TL_writer \<Rightarrow> (string set \<times> string set) gen" where
  "tl_analysis w =
     bind (check_types w) (\<lambda>_.
     bind (gets types_n) (\<lambda>n.
     bind (complex_loop (Suc n) w) (\<lambda>_.
     bind (gets (dfs_functions w)) lift)))"

definition remove_complex :: "unit gen" where
  "remove_complex =
     modify (\<lambda>c. c\<lparr>cf_types := map (\<lambda>t. if ct_flags t AND FLAG_COMPLEX \<noteq> 0
        then t\<lparr>ct_flags := ct_flags t AND NOT FLAG_COMPLEX\<rparr> else t) (cf_types c)\<rparr>)"

definition is_reachable_for_parser ::
  "TL_writer \<Rightarrow> int \<Rightarrow> string \<Rightarrow> string set \<Rightarrow> string set \<Rightarrow> bool" where
  "is_reachable_for_parser w type name request_types result_types =
     (case get_parser_mode w type of
        mode_Client \<Rightarrow> name \<in> result_types
      | mode_Server \<Rightarrow> name \<in> request_types
      | mode_All \<Rightarrow> True)"

definition is_reachable_for_storer ::
  "TL_writer \<Rightarrow> int \<Rightarrow> string \<Rightarrow> string set \<Rightarrow> string set \<Rightarrow> bool" where
  "is_reachable_for_storer w type name request_types result_types =
     (case get_storer_mode w type of
        mode_Client \<Rightarrow> name \<in> request_types
      | mode_Server \<Rightarrow> name \<in> result_types
      | mode_All \<Rightarrow> True)"

subsection \<open>A small configuration\<close>

text \<open>Four types, the second one with the given flags, and one function; examples below use it.\<close>

definition ty_tree :: "nat \<Rightarrow> tl_tree" where
  "ty_tree i = tl_tree_type FLAG_NOVAR i []"

definition sample_comb :: "string \<Rightarrow> u32 \<Rightarrow> (string \<times> nat) list \<Rightarrow> nat \<Rightarrow> tl_combinator" where
  "sample_comb nm t as res = \<lparr>cb_id = t, cb_name = nm, cb_var_count = 0, cb_type_id = t,
     cb_args = map (\<lambda>(n, i). Arg n FLAG_NOVAR (-1) (-1) 0 (ty_tree i)) as, cb_result = Some (ty_tree res)\<rparr>"

definition sample_ctype :: "string \<Rightarrow> u32 \<Rightarrow> u32 \<Rightarrow> tl_combinator list \<Rightarrow> tl_ctype" where
  "sample_ctype nm i f ks = \<lparr>ct_id = i, ct_name = nm, ct_arity = 0, ct_flags = f, ct_simple_constructors = 0,
     ct_constructors_num = length ks, ct_constructors = ks\<rparr>"

definition sample_config :: "u32 \<Rightarrow> nat \<Rightarrow> tl_config" where
  "sample_config f res = \<lparr>cf_types =
       [sample_ctype ''Int'' 1 0 [sample_comb ''int'' 1 [] 0], sample_ctype ''Bad'' 2 f [sample_comb ''bad'' 2 [] 1],
        sample_ctype ''Box'' 3 0 [sample_comb ''box'' 3 [(''x'', 1)] 2], sample_ctype ''User'' 4 0 [sample_comb ''user'' 4 [(''id'', 0)] 3]],
     id_to_type = [1 \<mapsto> 0, 2 \<mapsto> 1, 3 \<mapsto> 2, 4 \<mapsto> 3], name_to_type = Map.empty,
     cf_functions = [sample_comb ''getUser'' 4 [(''id'', 0)] res], id_to_function = Map.empty, name_to_function = Map.empty\<rparr>"

end
