(* ===== verification/TL_Complex.thy ===== *)
theory TL_Complex
  imports TL_Generate
begin

unbundle bit_operations_syntax

section \<open>Complex types: the analysis computes the least set\<close>

text \<open>
  The flags and counters are the only parts of a configuration that the analysis changes: configurations that agree otherwise are
  \<open>variant\<close>s, and they are ordered by their marks (\<open>more_complex\<close>). The contract \<open>writer_contract\<close> asks that a writer supports less when
  more types are marked; the test of the base class and the one of \<open>TD_TL_writer\<close> have it. Under the contract the marking loop is a
  fixpoint iteration: it ends, and it marks the least closed set.
\<close>

subsection \<open>References and variants of a configuration\<close>

primrec tree_refs :: "tl_tree \<Rightarrow> nat set" and arg_refs :: "tl_arg \<Rightarrow> nat set" where
  "tree_refs (tl_tree_type f t cs) = insert t (\<Union> (set (map tree_refs cs)))"
| "tree_refs (tl_tree_nat_const f n) = {}"
| "tree_refs (tl_tree_var_type f v) = {}"
| "tree_refs (tl_tree_var_num f v d) = {}"
| "tree_refs (tl_tree_array f m as) = \<Union> (set (map arg_refs as))"
| "arg_refs (Arg n f v e b t) = tree_refs t"

lemma arg_refs: "arg_refs a = tree_refs (a_type a)"
  by (cases a) simp

definition comb_refs :: "tl_combinator \<Rightarrow> nat set" where
  "comb_refs k = (\<Union>a \<in> set (cb_args k). arg_refs a) \<union> (case cb_result k of None \<Rightarrow> {} | Some T \<Rightarrow> tree_refs T)"

text \<open>\<open>more_complex c d\<close>: \<open>d\<close> differs from \<open>c\<close> at most in the counters and in additional marks.\<close>

definition same_type :: "tl_ctype \<Rightarrow> tl_ctype \<Rightarrow> bool" where
  "same_type t u \<longleftrightarrow> t\<lparr>ct_flags := ct_flags t OR FLAG_COMPLEX, ct_simple_constructors := 0\<rparr> =
     u\<lparr>ct_flags := ct_flags u OR FLAG_COMPLEX, ct_simple_constructors := 0\<rparr>"

definition variant :: "tl_config \<Rightarrow> tl_config \<Rightarrow> bool" where
  "variant c d \<longleftrightarrow> list_all2 same_type (cf_types c) (cf_types d) \<and> c\<lparr>cf_types := []\<rparr> = d\<lparr>cf_types := []\<rparr>"

definition more_complex :: "tl_config \<Rightarrow> tl_config \<Rightarrow> bool" where
  "more_complex c d \<longleftrightarrow> variant c d \<and> (\<forall>i < types_n c. is_complex c i \<longrightarrow> is_complex d i)"

lemma same_type_parts:
  assumes "same_type t u"
  shows "ct_id u = ct_id t" "ct_name u = ct_name t" "ct_arity u = ct_arity t"
    "ct_constructors_num u = ct_constructors_num t" "ct_constructors u = ct_constructors t"
  using assms by (cases t; cases u; simp add: same_type_def)+

lemma variant_types_n: "variant c d \<Longrightarrow> types_n d = types_n c"
  by (auto simp: variant_def types_n_def dest: list_all2_lengthD)

lemma variant_type: "variant c d \<Longrightarrow> i < types_n c \<Longrightarrow> same_type (cf_types c ! i) (cf_types d ! i)"
  by (auto simp: variant_def types_n_def list_all2_conv_all_nth)

lemma variant_refl: "variant c c"
  by (simp add: variant_def same_type_def list.rel_refl)

lemma variant_sym: "variant c d \<Longrightarrow> variant d c"
  by (auto simp: variant_def same_type_def list_all2_conv_all_nth)

lemma variant_trans: "variant c d \<Longrightarrow> variant d e \<Longrightarrow> variant c e"
  by (auto simp: variant_def same_type_def list_all2_conv_all_nth)

lemma more_complex_variant: "more_complex c d \<Longrightarrow> variant c d"
  by (simp add: more_complex_def)

lemmas more_complex_types_n = variant_types_n[OF more_complex_variant]

lemma more_complex_refl: "more_complex c c"
  by (simp add: more_complex_def variant_refl)

lemma more_complex_trans: "more_complex c d \<Longrightarrow> more_complex d e \<Longrightarrow> more_complex c e"
  by (auto simp: more_complex_def variant_types_n intro: variant_trans)

subsection \<open>The contract of a writer\<close>

text \<open>Additional marks turn answers into \<open>false\<close> and change nothing else.\<close>

definition weaker :: "fault + bool \<Rightarrow> fault + bool \<Rightarrow> bool" where
  "weaker r r' \<longleftrightarrow> r' = r \<or> r' = Inr False"

locale writer_contract =
  fixes w :: TL_writer
  assumes supported_mono:
    "more_complex c d \<Longrightarrow> comb_refs k \<subseteq> {..<types_n c} \<Longrightarrow>
     weaker (combinator_supported w c k) (combinator_supported w d k)"

lemmas node_types = NODE_TYPE_TYPE_def NODE_TYPE_NAT_CONST_def NODE_TYPE_VAR_TYPE_def NODE_TYPE_VAR_NUM_def NODE_TYPE_ARRAY_def

lemma weakerI: "r' = r \<Longrightarrow> weaker r r'" "weaker r (Inr False)"
  by (simp_all add: weaker_def)

lemma type_supported_mono_aux:
  "more_complex c d \<Longrightarrow> tree_refs T \<subseteq> {..<types_n c} \<Longrightarrow> weaker (is_type_supported c T) (is_type_supported d T)"
  "more_complex c d \<Longrightarrow> (\<Union>x \<in> set xs. tree_refs x) \<subseteq> {..<types_n c} \<Longrightarrow>
      weaker (children_supported c xs) (children_supported d xs)"
proof (induction c T and c xs rule: is_type_supported_children_supported.induct)
  case (1 c T)
  show ?case
  proof (cases T)
    case (tl_tree_type f t cs)
    with 1 show ?thesis by (auto simp: weaker_def more_complex_def is_type_supported.simps)
  qed (simp_all add: weaker_def is_type_supported.simps)
next
  case (2 c)
  then show ?case by (simp add: weaker_def)
next
  case (3 c x xs)
  then show ?case by (auto simp: weaker_def node_types split: sum.splits)
qed

lemmas type_supported_mono = type_supported_mono_aux(1)

text \<open>The same for computations on the vector of function results: where they differ, the second returns \<open>false\<close>.\<close>

definition weaker_comp :: "('s, bool) comp \<Rightarrow> ('s, bool) comp \<Rightarrow> bool" where
  "weaker_comp m m' \<longleftrightarrow> (\<forall>s. m' s = m s \<or> (\<exists>t. m' s = Inr (False, t)))"

lemma weaker_comp_refl: "weaker_comp m m"
  by (simp add: weaker_comp_def)

lemma weaker_comp_lift: "weaker r r' \<Longrightarrow> weaker_comp (lift r) (lift r')"
  by (auto simp: weaker_comp_def weaker_def)

lemma weaker_comp_and:
  "weaker_comp m m' \<Longrightarrow> weaker_comp n n' \<Longrightarrow>
   weaker_comp (bind m (\<lambda>b. if b then n else ret False)) (bind m' (\<lambda>b. if b then n' else ret False))"
proof (unfold weaker_comp_def, intro allI)
  fix s
  assume m: "\<forall>s. m' s = m s \<or> (\<exists>t. m' s = Inr (False, t))" and n: "\<forall>s. n' s = n s \<or> (\<exists>t. n' s = Inr (False, t))"
  show "bind m' (\<lambda>b. if b then n' else ret False) s = bind m (\<lambda>b. if b then n else ret False) s \<or>
     (\<exists>t. bind m' (\<lambda>b. if b then n' else ret False) s = Inr (False, t))"
  proof (cases "m' s = m s")
    case True
    then show ?thesis using n by (auto simp: bind_apply split: sum.split)
  next
    case False
    with m obtain t where t: "m' s = Inr (False, t)" by blast
    show ?thesis by (simp add: bind_apply t)
  qed
qed

lemma weaker_comp_bind:
  "(\<And>x. weaker_comp (f x) (f' x)) \<Longrightarrow> weaker_comp (bind m f) (bind m f')"
  by (auto simp: weaker_comp_def bind_apply split: sum.splits)

lemma weaker_comp_every:
  "(\<And>x. x \<in> set xs \<Longrightarrow> weaker_comp (f x) (g x)) \<Longrightarrow> weaker_comp (every f xs) (every g xs)"
  by (induction xs) (auto intro: weaker_comp_refl weaker_comp_and)

lemma weaker_comp_if:
  "(b \<Longrightarrow> weaker_comp m m') \<Longrightarrow> (\<not> b \<Longrightarrow> weaker_comp n n') \<Longrightarrow>
   weaker_comp (if b then m else n) (if b then m' else n')"
  by simp

lemma weaker_comp_check: "(b \<Longrightarrow> weaker_comp m m') \<Longrightarrow> weaker_comp (bind (check b) (\<lambda>_. m)) (bind (check b) (\<lambda>_. m'))"
  by (auto simp: weaker_comp_def bind_apply)

lemma is_type_arg_cong:
  assumes "more_complex c d" and "arg_refs a \<subseteq> {..<types_n c}"
  shows "is_type_arg d a = is_type_arg c a"
proof (cases "a_type a")
  case (tl_tree_type f t cs)
  with assms have "ct_id (cf_types d ! t) = ct_id (cf_types c ! t)"
    by (auto simp: arg_refs more_complex_def dest!: variant_type same_type_parts(1))
  with tl_tree_type show ?thesis by (simp add: is_type_arg_def)
qed (simp_all add: is_type_arg_def node_types check_def fun_eq_iff bind_apply)

lemma arg_supported_mono:
  assumes "more_complex c d" and "arg_refs a \<subseteq> {..<types_n c}"
  shows "weaker_comp (is_arg_supported c a) (is_arg_supported d a)"
proof -
  have els: "tree_refs (a_type b) \<subseteq> {..<types_n c}"
    if "node_type (a_type a) = NODE_TYPE_ARRAY" "b \<in> set (t_args (a_type a))" for b
    using that assms(2) by (cases "a_type a") (auto simp: arg_refs node_types)
  show ?thesis
    unfolding is_arg_supported_def is_type_arg_cong[OF assms] is_element_supported_def
    using assms(2)
    by (intro weaker_comp_bind[where m = "is_type_arg c a"] weaker_comp_if weaker_comp_refl weaker_comp_check
        weaker_comp_every weaker_comp_lift type_supported_mono[OF assms(1)]) (auto simp: arg_refs dest: els)
qed

lemma result_supported_mono:
  assumes "more_complex c d" and "comb_refs k \<subseteq> {..<types_n c}"
  shows "weaker_comp (is_result_supported c (cb_result k)) (is_result_supported d (cb_result k))"
  using assms
  by (auto simp: is_result_supported_def comb_refs_def split: option.split
      intro!: weaker_comp_refl weaker_comp_lift type_supported_mono)

lemma combinator_supported_mono:
  assumes "more_complex c d" and "comb_refs k \<subseteq> {..<types_n c}"
  shows "weaker (is_combinator_supported c k) (is_combinator_supported d k)"
proof -
  have a: "arg_refs a \<subseteq> {..<types_n c}" if "a \<in> set (cb_args k)" for a
    using assms(2) that by (auto simp: comb_refs_def)
  let ?m = "\<lambda>c. bind (every note_function_result (cb_args k)) (\<lambda>b. if b then
           bind (every (is_arg_supported c) (cb_args k)) (\<lambda>b.
           if b then is_result_supported c (cb_result k) else ret False) else ret False)"
  have "weaker_comp (?m c) (?m d)"
    by (intro weaker_comp_and weaker_comp_refl weaker_comp_every arg_supported_mono[OF assms(1)] a
        result_supported_mono[OF assms])
  then have "?m d s = ?m c s \<or> (\<exists>t. ?m d s = Inr (False, t))" for s unfolding weaker_comp_def by blast
  from this[of "replicate (nat (cb_var_count k)) False"] show ?thesis
    unfolding weaker_def is_combinator_supported_def by (elim disjE exE) simp_all
qed

interpretation base_writer: writer_contract "w\<lparr>combinator_supported := is_combinator_supported\<rparr>" for w
  by unfold_locales (simp add: combinator_supported_mono)

interpretation td_writer: writer_contract "TD_TL_writer tl_name" for tl_name
proof
  fix c d k
  assume "more_complex c d" and "comb_refs k \<subseteq> {..<types_n c}"
  from combinator_supported_mono[OF this]
  show "weaker (combinator_supported (TD_TL_writer tl_name) c k) (combinator_supported (TD_TL_writer tl_name) d k)"
    by (auto simp: weaker_def TD_TL_writer_def td_combinator_supported_def split: sum.split)
qed

subsection \<open>Steps of the marking\<close>

definition eligible :: "TL_writer \<Rightarrow> tl_config \<Rightarrow> nat \<Rightarrow> bool" where
  "eligible w c i \<longleftrightarrow> i < types_n c \<and> ct_constructors_num (cf_types c ! i) \<noteq> 0 \<and>
     \<not> is_built_in_complex_type w (ct_name (cf_types c ! i))"

definition supported_num :: "TL_writer \<Rightarrow> tl_config \<Rightarrow> nat \<Rightarrow> nat" where
  "supported_num w c i = length (filter (\<lambda>k. combinator_supported w c k = Inr True) (ct_constructors (cf_types c ! i)))"

text \<open>All constructors of a type can be judged.\<close>

definition answered :: "TL_writer \<Rightarrow> tl_config \<Rightarrow> nat \<Rightarrow> bool" where
  "answered w c i \<longleftrightarrow> (\<forall>k \<in> set (ct_constructors (cf_types c ! i)). \<exists>b. combinator_supported w c k = Inr b)"

text \<open>No type is left over that has only unsupported constructors.\<close>

definition complex_closed :: "TL_writer \<Rightarrow> tl_config \<Rightarrow> bool" where
  "complex_closed w c \<longleftrightarrow> (\<forall>i. eligible w c i \<and> \<not> is_complex c i \<longrightarrow>
     (\<exists>k \<in> set (ct_constructors (cf_types c ! i)). combinator_supported w c k \<noteq> Inr False))"

definition config_refs :: "tl_config \<Rightarrow> bool" where
  "config_refs c \<longleftrightarrow> (\<forall>t \<in> set (cf_types c). \<forall>k \<in> set (ct_constructors t). comb_refs k \<subseteq> {..<types_n c}) \<and>
     (\<forall>k \<in> set (cf_functions c). comb_refs k \<subseteq> {..<types_n c})"

lemma variant_eligible: "variant c d \<Longrightarrow> eligible w d i = eligible w c i"
  using variant_types_n[of c d] variant_type[of c d i] same_type_parts(2,4)[of "cf_types c ! i" "cf_types d ! i"]
  by (auto simp: eligible_def)

lemma variant_refs:
  assumes "variant c d" and "config_refs c"
  shows "config_refs d"
proof -
  have "ct_constructors t \<in> ct_constructors ` set (cf_types c)" if "t \<in> set (cf_types d)" for t
    using that assms(1) unfolding variant_def
    by (metis (no_types, lifting) image_eqI in_set_conv_nth list_all2_conv_all_nth nth_mem same_type_parts(5))
  moreover have "cf_functions d = cf_functions c" using assms(1)
    by (cases c; cases d) (simp add: variant_def)
  ultimately show ?thesis using assms(2) variant_types_n[OF assms(1)] unfolding config_refs_def by fastforce
qed

lemma count_supported_Inr:
  "count_supported w ks c = Inr (n, d) \<Longrightarrow>
   d = c \<and> n = int (length (filter (\<lambda>k. combinator_supported w c k = Inr True) ks)) \<and>
   (\<forall>k \<in> set ks. \<exists>b. combinator_supported w c k = Inr b)"
  by (induction ks arbitrary: n) (auto simp: bind_apply split: sum.splits prod.splits)

abbreviation upd_num :: "nat \<Rightarrow> (tl_ctype \<Rightarrow> tl_ctype) \<Rightarrow> tl_config \<Rightarrow> tl_config" where
  "upd_num i f c \<equiv> c\<lparr>cf_types := (cf_types c)[i := f (cf_types c ! i)]\<rparr>"

lemma upd_num_variant:
  assumes "same_type (cf_types c ! i) (f (cf_types c ! i))"
  shows "variant c (upd_num i f c)"
proof -
  have "list_all2 same_type (cf_types c) ((cf_types c)[i := f (cf_types c ! i)])"
  proof (rule list_all2_all_nthI)
    fix j assume "j < length (cf_types c)"
    then show "same_type (cf_types c ! j) ((cf_types c)[i := f (cf_types c ! i)] ! j)"
      using assms by (cases "j = i") (simp_all add: same_type_def)
  qed simp
  then show ?thesis by (cases c) (simp add: variant_def)
qed

lemma upd_num_types_n [simp]: "types_n (upd_num i f c) = types_n c"
  by (simp add: types_n_def)

lemma same_type_marks:
  "same_type t (t\<lparr>ct_simple_constructors := n\<rparr>)" "same_type t (t\<lparr>ct_flags := ct_flags t OR FLAG_COMPLEX\<rparr>)"
  by (cases t; simp add: same_type_def or.assoc)+

lemma flag_complex: "(f OR FLAG_COMPLEX) AND FLAG_COMPLEX \<noteq> 0"
proof -
  have "bit ((f OR FLAG_COMPLEX) AND FLAG_COMPLEX) 1" by (simp add: FLAG_COMPLEX_def bit_simps)
  then show ?thesis by (metis bit_0_eq bot_apply bot_bool_def)
qed

lemma flag_complex_nonzero [simp]: "FLAG_COMPLEX \<noteq> 0"
  by (simp add: FLAG_COMPLEX_def)

lemma set_complex_step:
  assumes "set_complex i c = Inr (u, d)" and "i < types_n c"
  shows "more_complex c d" and "is_complex d j = (j = i \<or> is_complex c j)"
proof -
  have d: "d = upd_num i (\<lambda>t. t\<lparr>ct_flags := ct_flags t OR FLAG_COMPLEX\<rparr>) c"
    using assms by (simp add: set_complex_def upd_type_num_def)
  show j: "is_complex d j = (j = i \<or> is_complex c j)" for j
    using assms(2) by (cases "j = i") (simp_all add: d is_complex_def types_n_def flag_complex)
  then show "more_complex c d"
    unfolding more_complex_def using upd_num_variant[where f = "\<lambda>t. t\<lparr>ct_flags := ct_flags t OR FLAG_COMPLEX\<rparr>", OF same_type_marks(2)]
    by (simp add: d)
qed

lemma set_simple_step:
  assumes "upd_type_num i (\<lambda>t. t\<lparr>ct_simple_constructors := n\<rparr>) c = Inr (u, d)" and "i < types_n c"
  shows "more_complex c d" and "is_complex d j = is_complex c j"
    and "ct_simple_constructors (cf_types d ! j) = (if j = i then n else ct_simple_constructors (cf_types c ! j))"
proof -
  have d: "d = upd_num i (\<lambda>t. t\<lparr>ct_simple_constructors := n\<rparr>) c"
    using assms by (simp add: upd_type_num_def)
  show j: "is_complex d j = is_complex c j" for j
    using assms(2) by (cases "j = i") (simp_all add: d is_complex_def types_n_def)
  then show "more_complex c d"
    unfolding more_complex_def using upd_num_variant[where f = "\<lambda>t. t\<lparr>ct_simple_constructors := n\<rparr>", OF same_type_marks(1)]
    by (simp add: d)
  show "ct_simple_constructors (cf_types d ! j) = (if j = i then n else ct_simple_constructors (cf_types c ! j))"
    using assms(2) by (cases "j = i") (simp_all add: d types_n_def)
qed

subsection \<open>The loop\<close>

text \<open>One type is skipped, counted, or marked.\<close>

lemma find_complexE:
  assumes "find_complex w i c = Inr (b, d)" and "i < types_n c"
  obtains (skip) "d = c" "\<not> b" "\<not> eligible w c i \<or> is_complex c i"
    | (count) "\<not> b" "\<not> is_complex c i" "0 < supported_num w c i \<and> answered w c i"
      "upd_type_num i (\<lambda>t. t\<lparr>ct_simple_constructors := int (supported_num w c i)\<rparr>) c = Inr ((), d)"
    | (mark) c' where "b" "eligible w c i" "\<not> is_complex c i"
      "\<forall>k \<in> set (ct_constructors (cf_types c ! i)). combinator_supported w c k = Inr False"
      "upd_type_num i (\<lambda>t. t\<lparr>ct_simple_constructors := 0\<rparr>) c = Inr ((), c')" "set_complex i c' = Inr ((), d)"
proof (cases "eligible w c i \<and> \<not> is_complex c i")
  case False
  with assms show ?thesis by (intro skip) (auto simp: find_complex_def type_num_def eligible_def is_complex_def split: if_splits)
next
  case True
  let ?ks = "ct_constructors (cf_types c ! i)"
  from True assms obtain n e where n: "count_supported w ?ks c = Inr (n, e)"
      "bind (upd_type_num i (\<lambda>t. t\<lparr>ct_simple_constructors := n\<rparr>)) (\<lambda>_.
       if n = 0 then bind (set_complex i) (\<lambda>_. ret True) else ret False) e = Inr (b, d)"
    by (auto simp: find_complex_def type_num_def eligible_def is_complex_def)
  note q = count_supported_Inr[OF n(1)]
  then have m: "n = int (supported_num w c i)" "e = c" "answered w c i" by (simp_all add: supported_num_def answered_def)
  show ?thesis
  proof (cases "supported_num w c i = 0")
    case True
    then have "\<forall>k \<in> set ?ks. combinator_supported w c k = Inr False"
      using q by (simp add: supported_num_def filter_empty_conv) (metis (full_types))
    with n(2) m True \<open>eligible w c i \<and> _\<close> show ?thesis
      by (intro mark[of "upd_num i (\<lambda>t. t\<lparr>ct_simple_constructors := 0\<rparr>) c"]) (auto simp: upd_type_num_def bind_apply split: sum.splits)
  next
    case False
    with n(2) m True show ?thesis by (intro count) (auto simp: upd_type_num_def bind_apply)
  qed
qed

lemma find_complex_types_n: "find_complex w i c = Inr (b, d) \<Longrightarrow> types_n d = types_n c"
  by (auto simp: find_complex_def type_num_def upd_type_num_def set_complex_def types_n_def
      split: if_splits dest!: count_supported_Inr)

context writer_contract
begin

text \<open>Counters do not matter for what is supported.\<close>

lemma supported_cong:
  assumes "more_complex c d" and "more_complex d c" and "comb_refs k \<subseteq> {..<types_n c}"
  shows "combinator_supported w d k = combinator_supported w c k"
proof -
  have "types_n d = types_n c" using assms(1) by (rule more_complex_types_n)
  then show ?thesis using supported_mono[OF assms(1,3)] supported_mono[OF assms(2), of k] assms(3)
    by (auto simp: weaker_def)
qed

lemma constructor_refs:
  "config_refs c \<Longrightarrow> i < types_n c \<Longrightarrow> k \<in> set (ct_constructors (cf_types c ! i)) \<Longrightarrow> comb_refs k \<subseteq> {..<types_n c}"
  unfolding config_refs_def types_n_def by (meson nth_mem)

lemma constructors_same:
  "more_complex c d \<Longrightarrow> i < types_n c \<Longrightarrow> ct_constructors (cf_types d ! i) = ct_constructors (cf_types c ! i)"
  by (auto simp: more_complex_def dest: variant_type same_type_parts(5))

lemma supported_num_cong:
  assumes "more_complex c d" and "more_complex d c" and "config_refs c" and "i < types_n c"
  shows "supported_num w d i = supported_num w c i"
  unfolding supported_num_def constructors_same[OF assms(1,4)]
  by (intro arg_cong[where f = length] filter_cong refl) (simp add: supported_cong[OF assms(1,2) constructor_refs[OF assms(3,4)]])

lemma answered_cong:
  assumes "more_complex c d" and "more_complex d c" and "config_refs c" and "i < types_n c"
  shows "answered w d i = answered w c i"
  unfolding answered_def constructors_same[OF assms(1,4)]
  by (simp add: supported_cong[OF assms(1,2) constructor_refs[OF assms(3,4)]])

text \<open>A mark lies below every closed set above the present one.\<close>

lemma mark_below_closed:
  assumes "more_complex c d" and "\<And>j. is_complex d j \<longleftrightarrow> j = i \<or> is_complex c j" and "eligible w c i" and "config_refs c"
    and "\<forall>k \<in> set (ct_constructors (cf_types c ! i)). combinator_supported w c k = Inr False"
    and "more_complex c e" and "complex_closed w e"
  shows "more_complex d e"
proof -
  have i: "i < types_n c" using assms(3) by (simp add: eligible_def)
  have "combinator_supported w e k = Inr False" if "k \<in> set (ct_constructors (cf_types e ! i))" for k
    using that assms(5) supported_mono[OF assms(6) constructor_refs[OF assms(4) i]] constructors_same[OF assms(6) i]
    by (auto simp: weaker_def)
  moreover have "eligible w e i" using assms(3) by (simp add: variant_eligible[OF more_complex_variant[OF assms(6)]])
  ultimately have "is_complex e i" using assms(7) by (auto simp: complex_closed_def)
  then show ?thesis using assms(1,2,6) unfolding more_complex_def
    by (auto simp: variant_types_n intro: variant_trans variant_sym)
qed

lemma find_complex_step:
  assumes "find_complex w i c = Inr (b, d)" and "i < types_n c" and "config_refs c"
  shows "more_complex c d" and "if b then \<not> is_complex c i \<and> is_complex d i else more_complex d c"
    and "more_complex c e \<Longrightarrow> complex_closed w e \<Longrightarrow> more_complex d e"
proof -
  have "more_complex c d \<and> (if b then \<not> is_complex c i \<and> is_complex d i else more_complex d c) \<and>
    (more_complex c e \<longrightarrow> complex_closed w e \<longrightarrow> more_complex d e)"
  using assms(1,2) proof (cases rule: find_complexE)
    case skip
    then show ?thesis by (simp add: more_complex_refl)
  next
    case count
    note u = set_simple_step[OF count(4) assms(2)]
    have "more_complex d c" using u(1,2) unfolding more_complex_def by (auto intro: variant_sym)
    with u(1) count(1) show ?thesis by (auto intro: more_complex_trans)
  next
    case (mark c')
    note u = set_simple_step[OF mark(5) assms(2)]
    have "i < types_n c'" using assms(2) by (simp add: more_complex_types_n[OF u(1)])
    note v = set_complex_step[OF mark(6) this]
    have m: "more_complex c d" using u(1) v(1) by (rule more_complex_trans)
    have "is_complex d j \<longleftrightarrow> j = i \<or> is_complex c j" for j using u(2) v(2) by simp
    with mark_below_closed[OF m this mark(2) assms(3) mark(4)] m mark(1,3) show ?thesis by auto
  qed
  then show "more_complex c d" and "if b then \<not> is_complex c i \<and> is_complex d i else more_complex d c"
    and "more_complex c e \<Longrightarrow> complex_closed w e \<Longrightarrow> more_complex d e" by blast+
qed

lemma find_complex_counts:
  assumes "find_complex w i c = Inr (b, d)" and "i < types_n c"
  shows "\<not> b \<Longrightarrow> eligible w c i \<Longrightarrow> \<not> is_complex c i \<Longrightarrow>
      ct_simple_constructors (cf_types d ! i) = int (supported_num w c i) \<and> 0 < supported_num w c i \<and> answered w c i"
    and "j \<noteq> i \<Longrightarrow> ct_simple_constructors (cf_types d ! j) = ct_simple_constructors (cf_types c ! j)"
  using assms by (cases rule: find_complexE;
      auto simp: set_simple_step(3)[OF _ assms(2)] set_complex_def upd_type_num_def types_n_def)+

lemma complex_pass_step:
  assumes "complex_pass w is c = Inr (b, d)" and "set is \<subseteq> {..<types_n c}" and "config_refs c"
  shows "more_complex c d \<and> (if b then \<exists>i \<in> set is. \<not> is_complex c i \<and> is_complex d i else more_complex d c) \<and>
    (more_complex c e \<longrightarrow> complex_closed w e \<longrightarrow> more_complex d e)"
  using assms
proof (induction "is" arbitrary: c b)
  case Nil
  then show ?case by (simp add: more_complex_refl)
next
  case (Cons i "is")
  from Cons.prems(1) obtain b1 c' b2 where r: "find_complex w i c = Inr (b1, c')" "complex_pass w is c' = Inr (b2, d)" "b = (b1 \<or> b2)"
    by auto
  have i: "i < types_n c" using Cons.prems(2) by simp
  note f = find_complex_step[OF r(1) i Cons.prems(3)]
  have n: "types_n c' = types_n c" by (rule more_complex_types_n[OF f(1)])
  from Cons.IH[OF r(2)] Cons.prems(2) variant_refs[OF more_complex_variant[OF f(1)] Cons.prems(3)]
  have g: "more_complex c' d" "if b2 then \<exists>i \<in> set is. \<not> is_complex c' i \<and> is_complex d i else more_complex d c'"
      "more_complex c' e \<longrightarrow> complex_closed w e \<longrightarrow> more_complex d e" by (auto simp: n)
  have "is_complex d i" if "is_complex c' i" using g(1) that i by (simp add: more_complex_def n)
  moreover have "\<not> is_complex c j" if "\<not> is_complex c' j" "j \<in> set is" for j
    using f(1) that Cons.prems(2) by (auto simp: more_complex_def)
  ultimately have "if b then \<exists>i \<in> set (i # is). \<not> is_complex c i \<and> is_complex d i else more_complex d c"
    using f(2) g(2) more_complex_trans[of d c' c] by (auto simp: r(3) split: if_splits)
  then show ?case using more_complex_trans[OF f(1) g(1)] f(3) g(3) by blast
qed

lemma complex_pass_others:
  assumes "complex_pass w is c = Inr (b, d)" and "i \<notin> set is" and "set is \<subseteq> {..<types_n c}"
  shows "ct_simple_constructors (cf_types d ! i) = ct_simple_constructors (cf_types c ! i)"
  using assms
proof (induction "is" arbitrary: c b)
  case (Cons x xs)
  then obtain b1 c' b2 where q: "find_complex w x c = Inr (b1, c')" "complex_pass w xs c' = Inr (b2, d)" by auto
  from Cons.IH[OF q(2)] Cons.prems find_complex_types_n[OF q(1)] find_complex_counts(2)[OF q(1), of i]
  show ?case by simp
qed simp

text \<open>A pass without new marks has counted the supported constructors of every type that is left.\<close>

lemma complex_pass_counts:
  assumes "complex_pass w is c = Inr (False, d)" and "set is \<subseteq> {..<types_n c}" and "config_refs c" and "distinct is"
    and "i \<in> set is" and "eligible w c i" and "\<not> is_complex c i"
  shows "ct_simple_constructors (cf_types d ! i) = int (supported_num w c i) \<and> 0 < supported_num w c i \<and> answered w c i"
  using assms
proof (induction "is" arbitrary: c)
  case (Cons j "is")
  from Cons.prems(1) obtain c' where r: "find_complex w j c = Inr (False, c')" "complex_pass w is c' = Inr (False, d)" by auto
  have j: "j < types_n c" using Cons.prems(2) by simp
  note f = find_complex_step[OF r(1) j Cons.prems(3)]
  have n: "types_n c' = types_n c" by (rule more_complex_types_n[OF f(1)])
  have refs: "config_refs c'" using variant_refs[OF more_complex_variant[OF f(1)] Cons.prems(3)] .
  show ?case
  proof (cases "i = j")
    case True
    with r(2) Cons.prems find_complex_counts(1)[OF r(1) j] complex_pass_others[OF r(2)] show ?thesis by (auto simp: n)
  next
    case False
    have "i < types_n c" using Cons.prems(2,5) by auto
    have "supported_num w c' i = supported_num w c i"
      using supported_num_cong[OF f(1) _ Cons.prems(3) \<open>i < types_n c\<close>] f(2) by simp
    moreover have "answered w c' i = answered w c i"
      using answered_cong[OF f(1) _ Cons.prems(3) \<open>i < types_n c\<close>] f(2) by simp
    moreover have "\<not> is_complex c' i" using f(2) Cons.prems(7) \<open>i < types_n c\<close> by (auto simp: more_complex_def n)
    moreover have "eligible w c' i" using variant_eligible[OF more_complex_variant[OF f(1)]] Cons.prems(6) by simp
    ultimately show ?thesis using Cons.IH[OF r(2) _ refs] Cons.prems(2,4,5) False by (auto simp: n)
  qed
qed simp

lemma upto_below: "set [0..<n] \<subseteq> {..<n}"
  by auto

lemma complex_loop_least:
  assumes "complex_loop n w c = Inr (u, d)" and "config_refs c"
  shows "more_complex c d"
    and "\<And>i. eligible w d i \<Longrightarrow> \<not> is_complex d i \<Longrightarrow>
      ct_simple_constructors (cf_types d ! i) = int (supported_num w d i) \<and> 0 < supported_num w d i \<and> answered w d i"
    and "more_complex c e \<Longrightarrow> complex_closed w e \<Longrightarrow> more_complex d e"
proof -
  have "more_complex c d \<and> (\<forall>i. eligible w d i \<longrightarrow> \<not> is_complex d i \<longrightarrow>
      ct_simple_constructors (cf_types d ! i) = int (supported_num w d i) \<and> 0 < supported_num w d i \<and> answered w d i) \<and>
     (more_complex c e \<longrightarrow> complex_closed w e \<longrightarrow> more_complex d e)"
    using assms
  proof (induction n arbitrary: c)
    case (Suc n)
    from Suc.prems(1) obtain b c' where r: "complex_pass w [0..<types_n c] c = Inr (b, c')"
        "(if b then complex_loop n w else ret ()) c' = Inr (u, d)" by auto
    from complex_pass_step[OF r(1) upto_below Suc.prems(2), of e]
    have p: "more_complex c c'" "\<not> b \<Longrightarrow> more_complex c' c" "more_complex c e \<longrightarrow> complex_closed w e \<longrightarrow> more_complex c' e"
      by (auto split: if_splits)
    note refs = variant_refs[OF more_complex_variant[OF p(1)] Suc.prems(2)]
    show ?case
    proof (cases b)
      case True
      with Suc.IH[OF _ refs] r(2) p show ?thesis by (auto intro: more_complex_trans)
    next
      case False
      with r(2) have d: "d = c'" by simp
      have "ct_simple_constructors (cf_types d ! i) = int (supported_num w d i) \<and> 0 < supported_num w d i \<and> answered w d i"
        if "eligible w d i" "\<not> is_complex d i" for i
      proof -
        have i: "i < types_n c" "eligible w c i"
          using that(1) variant_eligible[OF more_complex_variant[OF p(1)], of w i] by (simp_all add: d eligible_def)
        have "\<not> is_complex c i" using that(2) p(1) i(1) by (auto simp: d more_complex_def)
        with complex_pass_counts[OF _ upto_below Suc.prems(2) distinct_upt _ i(2), of c' ] r(1) False i(1)
          supported_num_cong[OF p(1) p(2)[OF False] Suc.prems(2) i(1)] answered_cong[OF p(1) p(2)[OF False] Suc.prems(2) i(1)]
        show ?thesis by (simp add: d)
      qed
      with p show ?thesis by (simp add: d)
    qed
  qed simp
  then show "more_complex c d"
    and "\<And>i. eligible w d i \<Longrightarrow> \<not> is_complex d i \<Longrightarrow>
      ct_simple_constructors (cf_types d ! i) = int (supported_num w d i) \<and> 0 < supported_num w d i \<and> answered w d i"
    and "more_complex c e \<Longrightarrow> complex_closed w e \<Longrightarrow> more_complex d e" by blast+
qed

lemma counted_closed:
  assumes "\<And>i. eligible w d i \<Longrightarrow> \<not> is_complex d i \<Longrightarrow> 0 < supported_num w d i"
  shows "complex_closed w d"
proof (unfold complex_closed_def, intro allI impI)
  fix i
  assume "eligible w d i \<and> \<not> is_complex d i"
  then have "0 < supported_num w d i" using assms by simp
  then have "\<exists>k \<in> set (ct_constructors (cf_types d ! i)). combinator_supported w d k = Inr True"
    by (simp add: supported_num_def filter_empty_conv)
  then show "\<exists>k \<in> set (ct_constructors (cf_types d ! i)). combinator_supported w d k \<noteq> Inr False" by force
qed

text \<open>A fault of the loop is a fault of \<open>is_combinator_supported\<close> on some constructor, or too little fuel.\<close>

lemma supported_fault_back:
  assumes "more_complex c d" and "config_refs c" and "i < types_n c" and "k \<in> set (ct_constructors (cf_types d ! i))"
    and "combinator_supported w d k = Inl e"
  shows "k \<in> set (ct_constructors (cf_types c ! i)) \<and> combinator_supported w c k = Inl e"
proof -
  have k: "k \<in> set (ct_constructors (cf_types c ! i))" using assms(4) constructors_same[OF assms(1,3)] by simp
  with supported_mono[OF assms(1) constructor_refs[OF assms(2,3) k]] assms(5) show ?thesis by (simp add: weaker_def)
qed

lemma find_complex_fault:
  "find_complex w i c = Inl e \<Longrightarrow> \<exists>k \<in> set (ct_constructors (cf_types c ! i)). combinator_supported w c k = Inl e"
proof -
  have "count_supported w ks c = Inl e \<Longrightarrow> \<exists>k \<in> set ks. combinator_supported w c k = Inl e" for ks
    by (induction ks) (auto simp: bind_apply split: sum.splits dest!: count_supported_Inr)
  then show "find_complex w i c = Inl e \<Longrightarrow> ?thesis"
    by (auto simp: find_complex_def type_num_def upd_type_num_def set_complex_def bind_apply split: sum.splits if_splits)
qed

lemma complex_pass_fault:
  assumes "complex_pass w is c = Inl e" and "set is \<subseteq> {..<types_n c}" and "config_refs c"
  shows "\<exists>i \<in> set is. \<exists>k \<in> set (ct_constructors (cf_types c ! i)). combinator_supported w c k = Inl e"
  using assms
proof (induction "is" arbitrary: c)
  case (Cons i "is")
  show ?case
  proof (cases "find_complex w i c")
    case (Inl e')
    then show ?thesis using Cons.prems(1) find_complex_fault[OF Inl] by auto
  next
    case (Inr r)
    obtain b c' where r: "find_complex w i c = Inr (b, c')" using Inr by (cases r) auto
    with Cons.prems(1) have p: "complex_pass w is c' = Inl e" by (auto simp: bind_apply split: sum.splits)
    have m: "more_complex c c'" using find_complex_step(1)[OF r] Cons.prems by simp
    have refs: "config_refs c'" by (rule variant_refs[OF more_complex_variant[OF m] Cons.prems(3)])
    have "set is \<subseteq> {..<types_n c'}" using Cons.prems(2) by (simp add: more_complex_types_n[OF m])
    from Cons.IH[OF p this refs] obtain j k where j: "j \<in> set is" "k \<in> set (ct_constructors (cf_types c' ! j))"
        "combinator_supported w c' k = Inl e" by blast
    then have "j < types_n c" using Cons.prems(2) by auto
    from supported_fault_back[OF m Cons.prems(3) this j(2,3)] j(1) show ?thesis by (meson list.set_intros(2))
  qed
qed simp

lemma complex_loop_fault:
  assumes "complex_loop n w c = Inl e" and "card {i. i < types_n c \<and> \<not> is_complex c i} < n" and "config_refs c"
  shows "\<exists>i < types_n c. \<exists>k \<in> set (ct_constructors (cf_types c ! i)). combinator_supported w c k = Inl e"
  using assms
proof (induction n arbitrary: c)
  case (Suc n)
  show ?case
  proof (cases "complex_pass w [0..<types_n c] c")
    case (Inl e')
    then show ?thesis using Suc.prems(1) complex_pass_fault[OF Inl upto_below Suc.prems(3)] by auto
  next
    case (Inr r)
    obtain b c' where r: "complex_pass w [0..<types_n c] c = Inr (b, c')" using Inr by (cases r) auto
    from complex_pass_step[OF r upto_below Suc.prems(3), of c] have p: "more_complex c c'"
        "b \<Longrightarrow> \<exists>i < types_n c. \<not> is_complex c i \<and> is_complex c' i"
      by (auto split: if_splits)
    from Suc.prems(1) r have b: "b" "complex_loop n w c' = Inl e" by (auto split: if_splits)
    have n: "types_n c' = types_n c" by (rule more_complex_types_n[OF p(1)])
    have "{i. i < types_n c' \<and> \<not> is_complex c' i} \<subset> {i. i < types_n c \<and> \<not> is_complex c i}"
      using p(1) p(2)[OF b(1)] by (auto simp: more_complex_def n)
    then have "card {i. i < types_n c' \<and> \<not> is_complex c' i} < card {i. i < types_n c \<and> \<not> is_complex c i}"
      by (rule psubset_card_mono[rotated]) simp
    then have "card {i. i < types_n c' \<and> \<not> is_complex c' i} < n" using Suc.prems(2) by simp
    from Suc.IH[OF b(2) this variant_refs[OF more_complex_variant[OF p(1)] Suc.prems(3)]]
      supported_fault_back[OF p(1) Suc.prems(3)]
    show ?thesis by (metis n)
  qed
qed simp

lemma complex_loop_enough:
  assumes "complex_loop (Suc (types_n c)) w c = Inl e" and "config_refs c"
  shows "\<exists>i < types_n c. \<exists>k \<in> set (ct_constructors (cf_types c ! i)). combinator_supported w c k = Inl e"
proof -
  have "card {i. i < types_n c \<and> \<not> is_complex c i} \<le> card {..<types_n c}" by (intro card_mono) auto
  then show ?thesis by (intro complex_loop_fault[OF assms(1) _ assms(2)]) simp
qed

end

text \<open>
  C8: The loop of \<open>write_tl\<close> that looks for complex types returns within one iteration more than there are types, or aborts because
  \<open>is_combinator_supported\<close> aborts on a constructor. When it returns, it has marked the least set of types that contains the marked ones
  and every type (not built in) of which no constructor is supported; for every other such type, \<open>simple_constructors\<close> is the positive
  number of its supported constructors.
\<close>

theorem complex_types_least:
  assumes "config_refs c"
  shows "case complex_loop (Suc (types_n c)) (TD_TL_writer nm) c of
      Inl e \<Rightarrow> \<exists>i < types_n c. \<exists>k \<in> set (ct_constructors (cf_types c ! i)). combinator_supported (TD_TL_writer nm) c k = Inl e
    | Inr (_, d) \<Rightarrow> more_complex c d \<and> complex_closed (TD_TL_writer nm) d \<and>
        (\<forall>e. more_complex c e \<and> complex_closed (TD_TL_writer nm) e \<longrightarrow> more_complex d e) \<and>
        (\<forall>i. eligible (TD_TL_writer nm) d i \<and> \<not> is_complex d i \<longrightarrow>
          0 < ct_simple_constructors (cf_types d ! i) \<and>
          ct_simple_constructors (cf_types d ! i) = int (supported_num (TD_TL_writer nm) d i))"
proof (cases "complex_loop (Suc (types_n c)) (TD_TL_writer nm) c")
  case (Inl e)
  with td_writer.complex_loop_enough[OF Inl assms] show ?thesis by simp
next
  case (Inr r)
  obtain u d where r: "r = (u, d)" by (cases r)
  note l = td_writer.complex_loop_least[OF Inr[unfolded r] assms]
  have "complex_closed (TD_TL_writer nm) d" using l(2) by (intro td_writer.counted_closed) blast
  with l show ?thesis unfolding Inr r by simp
qed

lemma sample_refs: "res < 4 \<Longrightarrow> config_refs (sample_config f res)"
  by (simp add: config_refs_def types_n_def sample_config_def sample_ctype_def sample_comb_def comb_refs_def ty_tree_def)

text \<open>Box has only a constructor with a field of the marked type Bad.\<close>

theorem complex_types_least_witness:
  "config_refs (sample_config 2 3) \<and>
   (\<exists>d. complex_loop 5 (TD_TL_writer ''x'') (sample_config 2 3) = Inr ((), d) \<and> map ct_flags (cf_types d) = [0, 2, 2, 0] \<and>
      (\<forall>e. more_complex (sample_config 2 3) e \<and> complex_closed (TD_TL_writer ''x'') e \<longrightarrow> more_complex d e))"
proof -
  have n: "types_n (sample_config 2 3) = 4" by code_simp
  have refs: "config_refs (sample_config 2 3)" by (rule sample_refs) simp
  have "case complex_loop 5 (TD_TL_writer ''x'') (sample_config 2 3) of Inl e \<Rightarrow> False | Inr (_, d) \<Rightarrow> map ct_flags (cf_types d) = [0, 2, 2, 0]"
    by code_simp
  then obtain d where d: "complex_loop 5 (TD_TL_writer ''x'') (sample_config 2 3) = Inr ((), d)" "map ct_flags (cf_types d) = [0, 2, 2, 0]"
    by (auto split: sum.splits)
  have "Suc (types_n (sample_config 2 3)) = 5" by (simp add: n)
  from complex_types_least[OF refs, of "''x''", unfolded this d(1)] d refs show ?thesis by auto
qed

end
