(* ===== verification/TL_Reach.thy ===== *)
theory TL_Reach
  imports TL_Complex
begin

section \<open>What the depth-first search finds\<close>

text \<open>
  The search of the code generator enters the names of types and combinators into one set. The contract \<open>explores\<close> says what a
  part of the search adds to this set; it is kept by sequences and loops, and the visit of a node has it when the visit of its
  successors has it. From the empty set the search then finds exactly what is reachable.
\<close>

subsection \<open>Searching a graph\<close>

definition explores :: "('n \<times> 'n) set \<Rightarrow> 'n set \<Rightarrow> ('n set, unit) comp \<Rightarrow> bool" where
  "explores R X m \<longleftrightarrow> (\<forall>F u F'. m F = Inr (u, F') \<longrightarrow>
     F \<subseteq> F' \<and> X \<subseteq> F' \<and> F' - F \<subseteq> R\<^sup>* `` X \<and> (\<forall>y \<in> F' - F. R `` {y} \<subseteq> F'))"

lemma explores_ret: "explores R {} (ret ())"
  by (simp add: explores_def)

lemma explores_raise: "explores R X (raise e)"
  by (simp add: explores_def)

lemma explores_bind:
  assumes "explores R X m" and "explores R Y n"
  shows "explores R (X \<union> Y) (bind m (\<lambda>_. n))"
  unfolding explores_def
proof (intro allI impI)
  fix F u F'
  assume "bind m (\<lambda>_. n) F = Inr (u, F')"
  then obtain v G where r: "m F = Inr (v, G)" "n G = Inr (u, F')" by auto
  note a = assms(1)[unfolded explores_def, rule_format, OF r(1)] and b = assms(2)[unfolded explores_def, rule_format, OF r(2)]
  have "F \<subseteq> F'" "X \<union> Y \<subseteq> F'" using a b by auto
  moreover have "F' - F \<subseteq> R\<^sup>* `` (X \<union> Y)" using a b unfolding Image_Un by blast
  moreover have "R `` {y} \<subseteq> F'" if "y \<in> F' - F" for y using that a b by (cases "y \<in> G") (simp, meson Diff_iff subset_trans, simp)
  ultimately show "F \<subseteq> F' \<and> X \<union> Y \<subseteq> F' \<and> F' - F \<subseteq> R\<^sup>* `` (X \<union> Y) \<and> (\<forall>y \<in> F' - F. R `` {y} \<subseteq> F')"
    by blast
qed

lemma explores_check: "explores R X m \<Longrightarrow> explores R X (bind (check b) (\<lambda>_. m))"
  by (cases b) (simp_all add: check_def explores_def)

lemma bind_lift: "bind (lift (Inr x)) f = f x" "bind (lift (Inl e)) f = raise e"
  by (simp_all add: fun_eq_iff)

lemma explores_iterate:
  "(\<And>x. x \<in> set xs \<Longrightarrow> explores R (X x) (f x)) \<Longrightarrow> explores R (\<Union> (X ` set xs)) (iterate f xs)"
  by (induction xs) (auto intro: explores_ret explores_bind)

lemma explores_visit:
  assumes "explores R (R `` {x}) m"
  shows "explores R {x} (bind (gets (\<lambda>found. x \<in> found)) (\<lambda>old. if old then ret () else bind (modify (insert x)) (\<lambda>_. m)))"
  unfolding explores_def
proof (intro allI impI)
  fix F u F'
  assume r: "bind (gets (\<lambda>found. x \<in> found)) (\<lambda>old. if old then ret () else bind (modify (insert x)) (\<lambda>_. m)) F = Inr (u, F')"
  show "F \<subseteq> F' \<and> {x} \<subseteq> F' \<and> F' - F \<subseteq> R\<^sup>* `` {x} \<and> (\<forall>y \<in> F' - F. R `` {y} \<subseteq> F')"
  proof (cases "x \<in> F")
    case True
    with r show ?thesis by simp
  next
    case False
    with r have "m (insert x F) = Inr (u, F')" by simp
    note a = assms[unfolded explores_def, rule_format, OF this]
    have "R\<^sup>* `` (R `` {x}) \<subseteq> R\<^sup>* `` {x}" by (auto intro: converse_rtrancl_into_rtrancl)
    then show ?thesis using a by (intro conjI) blast+
  qed
qed

lemma explores_from_empty:
  assumes "explores R X m" and "m {} = Inr (u, F)"
  shows "F = R\<^sup>* `` X"
proof
  note a = assms(1)[unfolded explores_def, rule_format, OF assms(2)]
  show "F \<subseteq> R\<^sup>* `` X" using a by simp
  have "y \<in> F" if "(x, y) \<in> R\<^sup>*" "x \<in> F" for x y
    using that by (induction rule: rtrancl_induct) (use a in auto)
  then show "R\<^sup>* `` X \<subseteq> F" using a by blast
qed

subsection \<open>The graph of a configuration\<close>

definition combinators :: "tl_config \<Rightarrow> tl_combinator set" where
  "combinators c = (\<Union>t \<in> set (cf_types c). set (ct_constructors t)) \<union> set (cf_functions c)"

abbreviation name_of :: "tl_config \<Rightarrow> nat \<Rightarrow> string" where
  "name_of c i \<equiv> ct_name (cf_types c ! i)"

definition supported :: "TL_writer \<Rightarrow> tl_config \<Rightarrow> tl_combinator \<Rightarrow> bool" where
  "supported w c k \<longleftrightarrow> combinator_supported w c k = Inr True"

definition arguments_refs :: "tl_combinator \<Rightarrow> nat set" where
  "arguments_refs k = (\<Union>a \<in> set (cb_args k). tree_refs (a_type a))"

text \<open>A type that is not built in needs its supported constructors, a combinator needs the types of its arguments.\<close>

inductive_set needs :: "TL_writer \<Rightarrow> tl_config \<Rightarrow> (string \<times> string) set" for w c where
  type_needs: "t \<in> set (cf_types c) \<Longrightarrow> \<not> is_leaf_type w t \<Longrightarrow> k \<in> set (ct_constructors t) \<Longrightarrow> supported w c k \<Longrightarrow>
    (ct_name t, cb_name k) \<in> needs w c"
| combinator_needs: "k \<in> combinators c \<Longrightarrow> supported w c k \<Longrightarrow> i \<in> arguments_refs k \<Longrightarrow> (cb_name k, name_of c i) \<in> needs w c"

text \<open>Names identify types and combinators.\<close>

definition names_ok :: "tl_config \<Rightarrow> bool" where
  "names_ok c \<longleftrightarrow> distinct (map ct_name (cf_types c)) \<and>
     (\<forall>k \<in> combinators c. \<forall>l \<in> combinators c. cb_name k = cb_name l \<longrightarrow> k = l) \<and>
     (\<forall>t \<in> set (cf_types c). \<forall>k \<in> combinators c. ct_name t \<noteq> cb_name k)"

lemma needs_type:
  assumes "names_ok c" and "t \<in> set (cf_types c)"
  shows "needs w c `` {ct_name t} = (if is_leaf_type w t then {} else cb_name ` {k \<in> set (ct_constructors t). supported w c k})"
proof -
  have "u = t" if "u \<in> set (cf_types c)" "ct_name u = ct_name t" for u
    using that assms by (auto simp: names_ok_def distinct_map inj_on_def)
  moreover have "ct_name t \<noteq> cb_name k" if "k \<in> combinators c" for k
    using that assms by (auto simp: names_ok_def)
  ultimately have "(ct_name t, x) \<in> needs w c \<longleftrightarrow>
      \<not> is_leaf_type w t \<and> (\<exists>k \<in> set (ct_constructors t). supported w c k \<and> x = cb_name k)" for x
    using assms(2) by (metis needs.simps)
  then show ?thesis by auto
qed

lemma needs_combinator:
  assumes "names_ok c" and "k \<in> combinators c" and "supported w c k"
  shows "needs w c `` {cb_name k} = name_of c ` arguments_refs k"
proof -
  have "l = k" if "l \<in> combinators c" "cb_name l = cb_name k" for l
    using that assms by (auto simp: names_ok_def)
  moreover have "cb_name k \<noteq> ct_name t" if "t \<in> set (cf_types c)" for t
    using that assms by (metis names_ok_def)
  ultimately have "(cb_name k, x) \<in> needs w c \<longleftrightarrow> (\<exists>i \<in> arguments_refs k. x = name_of c i)" for x
    using assms(2,3) by (metis needs.simps)
  then show ?thesis by auto
qed

subsection \<open>The search\<close>

lemma explores_tree:
  assumes "\<And>i. i \<in> tree_refs T \<Longrightarrow> explores R {name_of c i} (dt i)"
  shows "explores R (name_of c ` tree_refs T) (dfs_tree dt T)"
  using assms
proof (induction dt T rule: dfs_tree.induct)
  case (1 dt f m as)
  have "explores R (\<Union>a \<in> set as. name_of c ` tree_refs (a_type a)) (iterate (\<lambda>a. dfs_tree dt (a_type a)) as)"
    by (intro explores_iterate 1(1)) (use 1(2) in \<open>auto simp: arg_refs\<close>)
  then show ?case by (simp add: arg_refs image_Union image_UN)
next
  case (2 dt f t cs)
  have "explores R ({name_of c t} \<union> (\<Union>x \<in> set cs. name_of c ` tree_refs x)) (bind (dt t) (\<lambda>_. iterate (dfs_tree dt) cs))"
    by (intro explores_bind explores_iterate 2(1)) (use 2(2) in auto)
  then show ?case by (simp add: image_UN)
qed (simp_all add: explores_ret explores_raise)

lemma explores_combinator:
  assumes "names_ok c" and "k \<in> combinators c" and "\<And>i. i \<in> arguments_refs k \<Longrightarrow> explores (needs w c) {name_of c i} (dt i)"
  shows "explores (needs w c) (if supported w c k then {cb_name k} else {}) (dfs_combinator w c dt k)"
proof (cases "combinator_supported w c k")
  case (Inl e)
  then show ?thesis unfolding dfs_combinator_def Inl bind_lift by (simp add: explores_def)
next
  case (Inr b)
  show ?thesis
  proof (cases b)
    case True
    have "explores (needs w c) (\<Union>a \<in> set (cb_args k). name_of c ` tree_refs (a_type a)) (iterate (\<lambda>a. dfs_tree dt (a_type a)) (cb_args k))"
      by (intro explores_iterate explores_tree assms(3)) (auto simp: arguments_refs_def)
    then have "explores (needs w c) (needs w c `` {cb_name k}) (iterate (\<lambda>a. dfs_tree dt (a_type a)) (cb_args k))"
      using needs_combinator[OF assms(1,2)] Inr True by (simp add: arguments_refs_def image_UN supported_def)
    from explores_visit[OF this] Inr True show ?thesis
      unfolding dfs_combinator_def supported_def Inr bind_lift by simp
  next
    case False
    with Inr show ?thesis unfolding dfs_combinator_def supported_def Inr bind_lift by (simp add: explores_def)
  qed
qed

lemma explores_type:
  assumes "names_ok c" and "config_refs c" and "i < types_n c"
  shows "explores (needs w c) {name_of c i} (dfs_type n w c i)"
  using assms(3)
proof (induction n arbitrary: i)
  case 0
  show ?case unfolding dfs_type.simps by (rule explores_raise)
next
  case (Suc n)
  let ?t = "cf_types c ! i"
  have t: "?t \<in> set (cf_types c)" using Suc.prems by (simp add: types_n_def)
  have "explores (needs w c) (\<Union>k \<in> set (ct_constructors ?t). if supported w c k then {cb_name k} else {})
      (iterate (dfs_combinator w c (dfs_type n w c)) (ct_constructors ?t))"
  proof (intro explores_iterate explores_combinator assms(1) Suc.IH)
    fix k assume k: "k \<in> set (ct_constructors ?t)"
    then show "k \<in> combinators c" using t by (auto simp: combinators_def)
    show "j < types_n c" if "j \<in> arguments_refs k" for j
      using that assms(2) t k by (fastforce simp: config_refs_def comb_refs_def arguments_refs_def arg_refs)
  qed
  moreover have "(\<Union>k \<in> set (ct_constructors ?t). if supported w c k then {cb_name k} else {}) =
      cb_name ` {k \<in> set (ct_constructors ?t). supported w c k}" by auto
  ultimately have "explores (needs w c) (needs w c `` {ct_name ?t}) (if is_leaf_type w ?t then ret () else
      bind (check (ct_flags ?t AND FLAG_COMPLEX = 0)) (\<lambda>_. iterate (dfs_combinator w c (dfs_type n w c)) (ct_constructors ?t)))"
    unfolding needs_type[OF assms(1) t] by (simp add: explores_ret explores_check)
  from explores_visit[OF this] show ?case unfolding dfs_type.simps Let_def .
qed

lemma iterate_pair:
  "iterate (\<lambda>x. bind (on_fst (f x)) (\<lambda>_. on_snd (g x))) xs (s, t) = Inr (u, s', t') \<Longrightarrow>
   iterate f xs s = Inr ((), s') \<and> iterate g xs t = Inr ((), t')"
  by (induction xs arbitrary: s t)
    (auto simp: on_fst_def on_snd_def bind_apply split: sum.splits)

lemma dfs_functions_parts:
  assumes "dfs_functions w c = Inr (rq, rs)"
  shows "iterate (dfs_combinator w c (dfs_type (Suc (types_n c)) w c)) (cf_functions c) {} = Inr ((), rq)"
    and "iterate (\<lambda>k. case cb_result k of None \<Rightarrow> raise NullDeref | Some T \<Rightarrow> dfs_tree (dfs_type (Suc (types_n c)) w c) T)
      (cf_functions c) {} = Inr ((), rs)"
proof -
  from assms have "iterate (\<lambda>k. bind (on_fst (dfs_combinator w c (dfs_type (Suc (types_n c)) w c) k)) (\<lambda>_.
      on_snd (case cb_result k of None \<Rightarrow> raise NullDeref | Some T \<Rightarrow> dfs_tree (dfs_type (Suc (types_n c)) w c) T)))
      (cf_functions c) ({}, {}) = Inr ((), rq, rs)"
    unfolding dfs_functions_def dfs_function_def by (auto split: sum.splits)
  from iterate_pair[OF this]
  show "iterate (dfs_combinator w c (dfs_type (Suc (types_n c)) w c)) (cf_functions c) {} = Inr ((), rq)"
    and "iterate (\<lambda>k. case cb_result k of None \<Rightarrow> raise NullDeref | Some T \<Rightarrow> dfs_tree (dfs_type (Suc (types_n c)) w c) T)
      (cf_functions c) {} = Inr ((), rs)" by blast+
qed

definition result_refs :: "tl_combinator \<Rightarrow> nat set" where
  "result_refs k = (case cb_result k of None \<Rightarrow> {} | Some T \<Rightarrow> tree_refs T)"

lemma dfs_functions_find:
  assumes "names_ok c" and "config_refs c" and "dfs_functions w c = Inr (rq, rs)"
  shows "rq = (needs w c)\<^sup>* `` (cb_name ` {f \<in> set (cf_functions c). supported w c f})"
    and "rs = (needs w c)\<^sup>* `` (\<Union>f \<in> set (cf_functions c). name_of c ` result_refs f)"
proof -
  have refs: "comb_refs f \<subseteq> {..<types_n c}" if "f \<in> set (cf_functions c)" for f
    using that assms(2) by (simp add: config_refs_def)
  have "explores (needs w c) (\<Union>f \<in> set (cf_functions c). if supported w c f then {cb_name f} else {})
      (iterate (dfs_combinator w c (dfs_type (Suc (types_n c)) w c)) (cf_functions c))"
    using refs by (intro explores_iterate explores_combinator explores_type assms(1,2))
      (fastforce simp: combinators_def arguments_refs_def comb_refs_def arg_refs)+
  moreover have "(\<Union>f \<in> set (cf_functions c). if supported w c f then {cb_name f} else {}) =
      cb_name ` {f \<in> set (cf_functions c). supported w c f}" by auto
  ultimately have "explores (needs w c) (cb_name ` {f \<in> set (cf_functions c). supported w c f})
      (iterate (dfs_combinator w c (dfs_type (Suc (types_n c)) w c)) (cf_functions c))" by (simp only:)
  from explores_from_empty[OF this dfs_functions_parts(1)[OF assms(3)]]
  show "rq = (needs w c)\<^sup>* `` (cb_name ` {f \<in> set (cf_functions c). supported w c f})" .
  have e: "explores (needs w c) (\<Union>f \<in> set (cf_functions c). name_of c ` result_refs f)
      (iterate (\<lambda>k. case cb_result k of None \<Rightarrow> raise NullDeref | Some T \<Rightarrow> dfs_tree (dfs_type (Suc (types_n c)) w c) T)
      (cf_functions c))"
  proof (intro explores_iterate)
    fix f assume "f \<in> set (cf_functions c)"
    then show "explores (needs w c) (name_of c ` result_refs f)
        (case cb_result f of None \<Rightarrow> raise NullDeref | Some T \<Rightarrow> dfs_tree (dfs_type (Suc (types_n c)) w c) T)"
      using refs[of f] unfolding result_refs_def
      by (cases "cb_result f") (auto simp: comb_refs_def explores_def[of _ _ "raise NullDeref"] simp del: dfs_type.simps
          intro!: explores_tree explores_type[OF assms(1,2)])
  qed
  from explores_from_empty[OF e dfs_functions_parts(2)[OF assms(3)]]
  show "rs = (needs w c)\<^sup>* `` (\<Union>f \<in> set (cf_functions c). name_of c ` result_refs f)" .
qed

subsection \<open>The fuel is enough\<close>

definition type_names :: "tl_config \<Rightarrow> string set" where
  "type_names c = ct_name ` set (cf_types c)"

definition searches :: "(fault \<Rightarrow> bool) \<Rightarrow> tl_config \<Rightarrow> nat \<Rightarrow> (string set, 'a) comp \<Rightarrow> bool" where
  "searches E c n m \<longleftrightarrow> (\<forall>F. card (type_names c - F) < n \<longrightarrow> post E m (\<lambda>_ F'. F \<subseteq> F') F)"

lemma card_names_mono: "F \<subseteq> F' \<Longrightarrow> card (type_names c - F') \<le> card (type_names c - F)"
  by (intro card_mono) (auto simp: type_names_def)

lemma searches_basic: "searches E c n (ret x)" "E e \<Longrightarrow> searches E c n (raise e)" "searches E c n (modify (insert y))"
    "E Assertion \<Longrightarrow> searches E c n (check b)" "searches E c n (gets f)" "(\<And>e. r = Inl e \<Longrightarrow> E e) \<Longrightarrow> searches E c n (lift r)"
  by (auto simp: searches_def post_def split: sum.split)

lemma searches_if: "(b \<Longrightarrow> searches E c n m) \<Longrightarrow> (\<not> b \<Longrightarrow> searches E c n m') \<Longrightarrow> searches E c n (if b then m else m')"
  by simp

lemma searches_bind:
  assumes "searches E c n m" and "\<And>x. searches E c n (f x)"
  shows "searches E c n (bind m f)"
  unfolding searches_def
proof (intro allI impI)
  fix F assume F: "card (type_names c - F) < n"
  show "post E (bind m f) (\<lambda>_ F'. F \<subseteq> F') F"
  proof (rule post_bindI)
    show "post E m (\<lambda>_ F'. F \<subseteq> F') F" using assms(1) F by (simp add: searches_def)
    fix x G assume "F \<subseteq> G"
    then have "card (type_names c - G) < n" using card_names_mono[of F G c] F by simp
    then have "post E (f x) (\<lambda>_ F'. G \<subseteq> F') G" using assms(2) by (simp add: searches_def)
    then show "post E (f x) (\<lambda>_ F'. F \<subseteq> F') G" by (rule post_mono) (use \<open>F \<subseteq> G\<close> in blast)
  qed
qed

lemma searches_iterate: "(\<And>x. x \<in> set xs \<Longrightarrow> searches E c n (f x)) \<Longrightarrow> searches E c n (iterate f xs)"
  by (induction xs) (auto intro!: searches_basic(1) searches_bind)

lemma searches_tree:
  "(\<And>i. i \<in> tree_refs T \<Longrightarrow> searches E c n (dt i)) \<Longrightarrow> E Assertion \<Longrightarrow> searches E c n (dfs_tree dt T)"
proof (induction dt T rule: dfs_tree.induct)
  case (1 dt f m as)
  then show ?case by (auto simp: arg_refs intro!: searches_iterate)
next
  case (2 dt f t cs)
  then show ?case by (auto intro!: searches_bind searches_iterate)
qed (auto intro: searches_basic)

text \<open>The faults of the search: failed assertions and the faults of \<open>is_combinator_supported\<close>.\<close>

definition dfs_faults :: "TL_writer \<Rightarrow> tl_config \<Rightarrow> fault \<Rightarrow> bool" where
  "dfs_faults w c e \<longleftrightarrow> e = Assertion \<or> (e = NullDeref \<and> (\<exists>k \<in> combinators c. cb_result k = None)) \<or>
     (\<exists>k \<in> combinators c. combinator_supported w c k = Inl e)"

lemma searches_combinator:
  assumes "\<And>i. i \<in> arguments_refs k \<Longrightarrow> searches (dfs_faults w c) c n (dt i)" and "k \<in> combinators c"
  shows "searches (dfs_faults w c) c n (dfs_combinator w c dt k)"
proof -
  have "searches (dfs_faults w c) c n (iterate (\<lambda>a. dfs_tree dt (a_type a)) (cb_args k))"
    by (intro searches_iterate searches_tree assms(1)) (auto simp: arguments_refs_def dfs_faults_def)
  moreover have "dfs_faults w c e" if "combinator_supported w c k = Inl e" for e
    using that assms(2) by (auto simp: dfs_faults_def)
  ultimately show ?thesis
    unfolding dfs_combinator_def by (intro searches_bind searches_if searches_basic)
qed

lemma searches_type:
  assumes "config_refs c" and "i < types_n c"
  shows "searches (dfs_faults w c) c n (dfs_type n w c i)"
  using assms(2)
proof (induction n arbitrary: i)
  case 0
  then show ?case by (simp add: searches_def)
next
  case (Suc n)
  let ?t = "cf_types c ! i" and ?E = "dfs_faults w c"
  let ?rest = "if is_leaf_type w ?t then ret () else bind (check (ct_flags ?t AND FLAG_COMPLEX = 0)) (\<lambda>_.
      iterate (dfs_combinator w c (dfs_type n w c)) (ct_constructors ?t))"
  have t: "?t \<in> set (cf_types c)" using Suc.prems by (simp add: types_n_def)
  have j: "j < types_n c" if "k \<in> set (ct_constructors ?t)" "j \<in> arguments_refs k" for j k
    using that assms(1) t by (fastforce simp: config_refs_def comb_refs_def arguments_refs_def arg_refs)
  have rest: "searches ?E c n ?rest"
    using t by (auto intro!: searches_basic searches_bind searches_iterate searches_combinator Suc.IH j
        simp: combinators_def dfs_faults_def[of _ _ Assertion])
  show ?case
    unfolding searches_def
  proof (intro allI impI)
    fix F assume F: "card (type_names c - F) < Suc n"
    show "post ?E (dfs_type (Suc n) w c i) (\<lambda>_ F'. F \<subseteq> F') F"
    proof (cases "ct_name ?t \<in> F")
      case True
      then show ?thesis by (simp add: post_def Let_def)
    next
      case False
      then have "card (type_names c - insert (ct_name ?t) F) < card (type_names c - F)"
        using t by (intro psubset_card_mono) (auto simp: type_names_def)
      then have "card (type_names c - insert (ct_name ?t) F) < n" using F by simp
      then have "post ?E ?rest (\<lambda>_ F'. insert (ct_name ?t) F \<subseteq> F') (insert (ct_name ?t) F)"
        by (rule rest[unfolded searches_def, rule_format])
      then have "post ?E ?rest (\<lambda>_ F'. F \<subseteq> F') (insert (ct_name ?t) F)"
        by (rule post_mono) blast
      then show ?thesis unfolding dfs_type.simps Let_def using False by (simp add: post_simps)
    qed
  qed
qed

lemma searches_faults:
  assumes "searches E c (Suc (types_n c)) m" and "m F = Inl e"
  shows "E e"
proof -
  have "card (type_names c - F) < Suc (types_n c)"
    using card_mono[of "type_names c" "type_names c - F"] card_image_le[of "set (cf_types c)" ct_name] card_length[of "cf_types c"]
    by (simp add: type_names_def types_n_def)
  with assms show ?thesis by (auto simp: searches_def post_def split: sum.splits)
qed

lemma iterate_fault: "iterate f xs s = Inl e \<Longrightarrow> \<exists>x \<in> set xs. \<exists>t. f x t = Inl e"
  by (induction xs arbitrary: s) (auto simp: bind_apply split: sum.splits)

lemma pair_fault: "bind (on_fst m) (\<lambda>_. on_snd n) s = Inl e \<Longrightarrow> (\<exists>F. m F = Inl e) \<or> (\<exists>F. n F = Inl e)"
  by (cases s) (auto simp: bind_apply on_fst_def on_snd_def split: sum.splits)

lemma dfs_functions_faults:
  assumes "dfs_functions w c = Inl e" and "config_refs c"
  shows "dfs_faults w c e"
proof -
  let ?dt = "dfs_type (Suc (types_n c)) w c"
  from assms(1) obtain f t where f: "f \<in> set (cf_functions c)" "dfs_function (Suc (types_n c)) w c f t = Inl e"
    by (auto simp: dfs_functions_def split: sum.splits dest!: iterate_fault)
  have refs: "comb_refs f \<subseteq> {..<types_n c}" using f(1) assms(2) by (simp add: config_refs_def)
  have a: "searches (dfs_faults w c) c (Suc (types_n c)) (dfs_combinator w c ?dt f)"
    using refs f(1) by (intro searches_combinator searches_type assms(2))
      (auto simp: arguments_refs_def comb_refs_def arg_refs combinators_def)
  have b: "searches (dfs_faults w c) c (Suc (types_n c)) (case cb_result f of None \<Rightarrow> raise NullDeref | Some T \<Rightarrow> dfs_tree ?dt T)"
  proof (cases "cb_result f")
    case None
    then have "dfs_faults w c NullDeref" using f(1) by (auto simp: dfs_faults_def combinators_def)
    then show ?thesis using None by (simp add: searches_def post_def)
  next
    case (Some T)
    then show ?thesis using refs
      by (auto simp: comb_refs_def dfs_faults_def[of _ _ Assertion] simp del: dfs_type.simps
          intro!: searches_tree searches_type[OF assms(2)])
  qed
  from pair_fault[OF f(2)[unfolded dfs_function_def]] show ?thesis
    using searches_faults[OF a] searches_faults[OF b] by blast
qed

subsection \<open>What is sent and what is received\<close>

text \<open>
  C9: When the search over the functions returns, the set of requested names is exactly what is reachable from the supported functions,
  and the set of result names exactly what is reachable from the result types of the functions, where a type that is neither built in nor
  empty leads to its supported constructors and a supported combinator to the types of its arguments. Otherwise a failed assertion, a
  missing result or a fault of \<open>is_combinator_supported\<close> ended the search: its recursion always ends.
\<close>

theorem reachable_types:
  assumes "names_ok c" and "config_refs c"
  shows "case dfs_functions w c of
      Inl e \<Rightarrow> e = Assertion \<or> (e = NullDeref \<and> (\<exists>k \<in> combinators c. cb_result k = None)) \<or>
        (\<exists>k \<in> combinators c. combinator_supported w c k = Inl e)
    | Inr (request_types, result_types) \<Rightarrow>
        request_types = (needs w c)\<^sup>* `` (cb_name ` {f \<in> set (cf_functions c). combinator_supported w c f = Inr True}) \<and>
        result_types = (needs w c)\<^sup>* `` (\<Union>f \<in> set (cf_functions c). name_of c ` result_refs f)"
  using dfs_functions_find[OF assms] dfs_functions_faults[OF _ assms(2)]
  by (auto simp: supported_def dfs_faults_def split: sum.split)

lemma sample_names: "names_ok (sample_config f res)"
  by (simp add: names_ok_def combinators_def sample_config_def sample_ctype_def sample_comb_def)

theorem reachable_types_witness:
  "names_ok (sample_config 0 3) \<and> config_refs (sample_config 0 3) \<and>
   dfs_functions (TD_TL_writer ''x'') (sample_config 0 3) = Inr ({''getUser'', ''Int''}, {''User'', ''user'', ''Int''}) \<and>
   (needs (TD_TL_writer ''x'') (sample_config 0 3))\<^sup>* `` {''User''} = {''User'', ''user'', ''Int''}"
proof -
  let ?c = "sample_config 0 3" and ?w = "TD_TL_writer ''x''"
  have refs: "config_refs ?c" by (rule sample_refs) simp
  have names: "names_ok ?c" by (rule sample_names)
  have r: "dfs_functions ?w ?c = Inr ({''getUser'', ''Int''}, {''User'', ''user'', ''Int''})" by code_simp
  have roots: "(\<Union>f \<in> set (cf_functions ?c). name_of ?c ` result_refs f) = {''User''}"
    by (simp add: sample_config_def sample_ctype_def sample_comb_def result_refs_def ty_tree_def)
  from reachable_types[OF names refs, of ?w, unfolded r roots] names refs r show ?thesis by simp
qed

subsection \<open>No complex type is reachable\<close>

text \<open>The invariant of the search: the found names are no names of types that cannot be generated.\<close>

definition not_generated :: "TL_writer \<Rightarrow> tl_config \<Rightarrow> nat \<Rightarrow> bool" where
  "not_generated w c i \<longleftrightarrow> is_complex c i \<and> \<not> is_leaf_type w (cf_types c ! i)"

definition clean :: "TL_writer \<Rightarrow> tl_config \<Rightarrow> string set \<Rightarrow> bool" where
  "clean w c F \<longleftrightarrow> (\<forall>i < types_n c. name_of c i \<in> F \<longrightarrow> \<not> not_generated w c i)"

lemma keeps_tree:
  "(\<And>i. i \<in> tree_refs T \<Longrightarrow> keeps I (dt i)) \<Longrightarrow> keeps I (dfs_tree dt T)"
proof (induction dt T rule: dfs_tree.induct)
  case (1 dt f m as)
  then show ?case by (auto simp: arg_refs intro!: keeps_iterate)
next
  case (2 dt f t cs)
  then show ?case by (auto intro!: keeps keeps_iterate)
qed (auto intro: keeps)

lemma clean_insert_combinator: "names_ok c \<Longrightarrow> k \<in> combinators c \<Longrightarrow> clean w c F \<Longrightarrow> clean w c (insert (cb_name k) F)"
  by (auto simp: clean_def names_ok_def types_n_def)

lemma clean_insert_type:
  assumes "names_ok c" and "i < types_n c" and "\<not> not_generated w c i" and "clean w c F"
  shows "clean w c (insert (name_of c i) F)"
proof -
  have "j = i" if "name_of c j = name_of c i" "j < types_n c" for j
    using that assms(1,2) nth_eq_iff_index_eq[of "map ct_name (cf_types c)" j i] by (simp add: names_ok_def types_n_def)
  with assms(3,4) show ?thesis by (fastforce simp: clean_def)
qed

lemma keeps_combinator:
  assumes "names_ok c" and "k \<in> combinators c" and "\<And>i. i \<in> arguments_refs k \<Longrightarrow> keeps (clean w c) (dt i)"
  shows "keeps (clean w c) (dfs_combinator w c dt k)"
  unfolding dfs_combinator_def
  by (intro keeps keeps_modify keeps_iterate keeps_tree clean_insert_combinator assms) (auto simp: arguments_refs_def)

lemma keeps_type:
  assumes "names_ok c" and "config_refs c" and "i < types_n c"
  shows "keeps (clean w c) (dfs_type n w c i)"
  using assms(3)
proof (induction n arbitrary: i)
  case 0
  show ?case unfolding dfs_type.simps by (rule keeps)
next
  case (Suc n)
  let ?t = "cf_types c ! i"
  have t: "?t \<in> set (cf_types c)" using Suc.prems by (simp add: types_n_def)
  have rest: "keeps (clean w c) (iterate (dfs_combinator w c (dfs_type n w c)) (ct_constructors ?t))"
  proof (intro keeps_iterate keeps_combinator assms(1) Suc.IH)
    fix k assume k: "k \<in> set (ct_constructors ?t)"
    then show "k \<in> combinators c" using t by (auto simp: combinators_def)
    show "j < types_n c" if "j \<in> arguments_refs k" for j
      using that assms(2) t k by (fastforce simp: config_refs_def comb_refs_def arguments_refs_def arg_refs)
  qed
  show ?case
  proof (cases "not_generated w c i")
    case True
    then show ?thesis by (auto simp: keeps_def not_generated_def is_complex_def Let_def)
  next
    case False
    from clean_insert_type[OF assms(1) Suc.prems this] show ?thesis
      unfolding dfs_type.simps Let_def by (intro keeps keeps_modify rest)
  qed
qed

lemma reachable_clean:
  assumes "names_ok c" and "config_refs c" and "dfs_functions w c = Inr (rq, rs)"
  shows "clean w c rq" and "clean w c rs"
proof -
  have refs: "comb_refs f \<subseteq> {..<types_n c}" if "f \<in> set (cf_functions c)" for f
    using that assms(2) by (simp add: config_refs_def)
  have "keeps (clean w c) (iterate (dfs_combinator w c (dfs_type (Suc (types_n c)) w c)) (cf_functions c))"
    using refs by (intro keeps_iterate keeps_combinator keeps_type assms(1,2))
      (fastforce simp: combinators_def arguments_refs_def comb_refs_def arg_refs)+
  from keepsD[OF this _ dfs_functions_parts(1)[OF assms(3)]] show "clean w c rq" by (simp add: clean_def)
  have "keeps (clean w c) (iterate (\<lambda>k. case cb_result k of None \<Rightarrow> raise NullDeref
      | Some T \<Rightarrow> dfs_tree (dfs_type (Suc (types_n c)) w c) T) (cf_functions c))"
  proof (rule keeps_iterate)
    fix f assume f: "f \<in> set (cf_functions c)"
    have "keeps (clean w c) (dfs_tree (dfs_type (Suc (types_n c)) w c) T)" if "cb_result f = Some T" for T
      using refs[OF f] that by (intro keeps_tree keeps_type assms(1,2)) (auto simp: comb_refs_def)
    then show "keeps (clean w c) (case cb_result f of None \<Rightarrow> raise NullDeref | Some T \<Rightarrow> dfs_tree (dfs_type (Suc (types_n c)) w c) T)"
      by (cases "cb_result f") (simp_all only: option.case keeps_basic)
  qed
  from keepsD[OF this _ dfs_functions_parts(2)[OF assms(3)]] show "clean w c rs" by (simp add: clean_def)
qed

text \<open>
  C26: When the search returns, no reachable type is one that cannot be generated: every type that a supported function takes or
  a function returns, directly or through fields, is built in, empty or not marked complex. The generated classes refer to generated classes.
\<close>

theorem reachable_generated:
  assumes "names_ok c" and "config_refs c" and "dfs_functions w c = Inr (rq, rs)" and "i < types_n c" and "name_of c i \<in> rq \<union> rs"
  shows "is_leaf_type w (cf_types c ! i) \<or> \<not> is_complex c i"
  using reachable_clean[OF assms(1-3)] assms(4,5) by (auto simp: clean_def not_generated_def)

theorem reachable_generated_witness:
  "dfs_functions (TD_TL_writer ''x'') (sample_config 2 3) = Inr ({''getUser'', ''Int''}, {''User'', ''user'', ''Int''}) \<and>
   name_of (sample_config 2 3) 3 \<in> {''getUser'', ''Int''} \<union> {''User'', ''user'', ''Int''} \<and> \<not> is_complex (sample_config 2 3) 3"
proof -
  let ?c = "sample_config 2 3" and ?w = "TD_TL_writer ''x''"
  have r: "dfs_functions ?w ?c = Inr ({''getUser'', ''Int''}, {''User'', ''user'', ''Int''})" by code_simp
  have m: "3 < types_n ?c" "name_of ?c 3 \<in> {''getUser'', ''Int''} \<union> {''User'', ''user'', ''Int''}"
    by code_simp+
  have "\<not> is_leaf_type ?w (cf_types ?c ! 3)" by code_simp
  with reachable_generated[OF sample_names sample_refs r m] r m show ?thesis by simp
qed

text \<open>
  C39: The search visits the result type of every function, also of a function that is not supported: a function whose result type is
  complex and not built in makes the generator abort instead of being skipped.
\<close>

theorem complex_result_aborts:
  assumes "f \<in> set (cf_functions c)" and "cb_result f = Some (tl_tree_type fl t cs)"
    and "is_complex c t" and "\<not> is_leaf_type w (cf_types c ! t)" and "names_ok c" and "config_refs c"
  shows "\<exists>e. dfs_functions w c = Inl e"
proof (rule ccontr)
  assume "\<nexists>e. dfs_functions w c = Inl e"
  then obtain rq rs where r: "dfs_functions w c = Inr (rq, rs)" by (cases "dfs_functions w c") auto
  have "name_of c t \<in> (\<Union>f \<in> set (cf_functions c). name_of c ` result_refs f)"
    using assms(1,2) by (auto simp: result_refs_def intro!: bexI[of _ f])
  then have "name_of c t \<in> rs" unfolding dfs_functions_find(2)[OF assms(5,6) r] by blast
  moreover have "t < types_n c" using assms(1,2,6) by (auto simp: config_refs_def comb_refs_def)
  ultimately show False using reachable_clean[OF assms(5,6) r] assms(3,4) by (auto simp: clean_def not_generated_def)
qed

theorem complex_result_aborts_witness:
  "is_complex (sample_config 2 1) 1 \<and> td_combinator_supported (sample_config 2 1) (sample_comb ''getUser'' 4 [(''id'', 0)] 1) = Inr False \<and>
   (\<exists>e. dfs_functions (TD_TL_writer ''x'') (sample_config 2 1) = Inl e)"
proof -
  let ?c = "sample_config 2 1" and ?w = "TD_TL_writer ''x''"
  have a: "is_complex ?c 1" "\<not> is_leaf_type ?w (cf_types ?c ! 1)"
    "td_combinator_supported ?c (sample_comb ''getUser'' 4 [(''id'', 0)] 1) = Inr False" by code_simp+
  have f: "sample_comb ''getUser'' 4 [(''id'', 0)] 1 \<in> set (cf_functions ?c)" "cb_result (sample_comb ''getUser'' 4 [(''id'', 0)] 1) = Some (tl_tree_type FLAG_NOVAR 1 [])"
    by (simp_all add: sample_config_def sample_comb_def ty_tree_def)
  from complex_result_aborts[OF f a(1,2) sample_names sample_refs] a show ?thesis by simp
qed

end
