(* ===== verification/TL_Analysis.thy ===== *)
theory TL_Analysis
  imports TL_Reach
begin

section \<open>The analysis of a configuration that was read\<close>

text \<open>
  Every configuration that \<open>read_tl_config\<close> returns is well formed (\<open>config_ok\<close>): ids and trees refer to types of the configuration, type
  expressions have as many children as the arity of their type, every combinator has a result, and variables are
  below the counted number. On well-formed configurations the analysis can end with failed assertions only, apart from one case.
\<close>

unbundle bit_operations_syntax

subsection \<open>What the reader guarantees\<close>

text \<open>
  \<open>gives c v m Q\<close>: from a state with the configuration \<open>c\<close> and at least \<open>v\<close> variables, \<open>m\<close> keeps the configuration,
  does not lower the number of variables and returns a result with \<open>Q\<close> for the new number.
\<close>

definition gives :: "tl_config \<Rightarrow> int \<Rightarrow> 'a cfg \<Rightarrow> (int \<Rightarrow> 'a \<Rightarrow> bool) \<Rightarrow> bool" where
  "gives c v m Q \<longleftrightarrow> (\<forall>s x t. config s = c \<longrightarrow> v \<le> var_count s \<longrightarrow> m s = Inr (x, t) \<longrightarrow>
     config t = c \<and> var_count s \<le> var_count t \<and> Q (var_count t) x)"

lemma givesD:
  "gives c v m Q \<Longrightarrow> config s = c \<Longrightarrow> v \<le> var_count s \<Longrightarrow> m s = Inr (x, t) \<Longrightarrow>
   config t = c \<and> var_count s \<le> var_count t \<and> Q (var_count t) x"
  unfolding gives_def by blast

lemma gives_bind:
  assumes "gives c v m P" and "\<And>x v'. v \<le> v' \<Longrightarrow> P v' x \<Longrightarrow> gives c v' (f x) Q"
  shows "gives c v (bind m f) Q"
  unfolding gives_def
proof (intro allI impI)
  fix s y t
  assume s: "config s = c" "v \<le> var_count s" and "bind m f s = Inr (y, t)"
  then obtain x s' where r: "m s = Inr (x, s')" "f x s' = Inr (y, t)" by auto
  note a = givesD[OF assms(1) s r(1)]
  have "v \<le> var_count s'" using a s(2) by simp
  from givesD[OF assms(2)[OF this] _ order_refl r(2)] a
  show "config t = c \<and> var_count s \<le> var_count t \<and> Q (var_count t) y" by simp
qed

lemma gives_weaken: "gives c v m P \<Longrightarrow> (\<And>v' x. v \<le> v' \<Longrightarrow> P v' x \<Longrightarrow> Q v' x) \<Longrightarrow> gives c v m Q"
  by (subst gives_def) (auto dest!: givesD)

lemma gives_ret: "(\<And>v'. v \<le> v' \<Longrightarrow> Q v' x) \<Longrightarrow> gives c v (ret x) Q"
  by (auto simp: gives_def)

lemma gives_raise: "gives c v (raise e) Q"
  by (simp add: gives_def)

lemma gives_check: "gives c v (check b) (\<lambda>_ _. b)"
  by (auto simp: gives_def)

lemma gives_parse: "gives c v (try_parse m) (\<lambda>_ _. True)"
proof -
  have "config t = config s \<and> var_count t = var_count s" if "try_parse m s = Inr (x, t)" for s x t
    using that by (auto simp: try_parse_def split: sum.splits if_splits)
  then show ?thesis by (simp add: gives_def)
qed

lemma gives_note: "gives c v (note_var n) (\<lambda>v' _. n < v')"
  by (auto simp: gives_def note_var_def)

lemma gives_config: "gives c v (gets config) (\<lambda>_ d. d = c)"
  by (simp add: gives_def)

lemma gives_gets: "gives c v (gets f) (\<lambda>_ _. True)"
  by (simp add: gives_def)

lemma gives_if: "(b \<Longrightarrow> gives c v m Q) \<Longrightarrow> (\<not> b \<Longrightarrow> gives c v n Q) \<Longrightarrow> gives c v (if b then m else n) Q"
  by simp

lemma gives_times:
  assumes "\<And>v'. v \<le> v' \<Longrightarrow> gives c v' m P" and "\<And>v v' x. v \<le> v' \<Longrightarrow> P v x \<Longrightarrow> P v' x"
  shows "gives c v (read_times n m) (\<lambda>v' xs. length xs = n \<and> (\<forall>x \<in> set xs. P v' x))"
  using assms(1)
proof (induction n arbitrary: v)
  case 0
  show ?case unfolding read_times.simps by (rule gives_ret) simp
next
  case (Suc n)
  have "gives c v (bind m (\<lambda>x. bind (read_times n m) (\<lambda>xs. ret (x # xs)))) (\<lambda>v' xs. length xs = Suc n \<and> (\<forall>x \<in> set xs. P v' x))"
  proof (rule gives_bind[OF Suc.prems])
    fix x v1 assume x: "v \<le> v1" "P v1 x"
    show "gives c v1 (bind (read_times n m) (\<lambda>xs. ret (x # xs))) (\<lambda>v' xs. length xs = Suc n \<and> (\<forall>x \<in> set xs. P v' x))"
    proof (rule gives_bind)
      show "gives c v1 (read_times n m) (\<lambda>v' xs. length xs = n \<and> (\<forall>x \<in> set xs. P v' x))"
        by (rule Suc.IH) (use Suc.prems x(1) in simp)
      fix xs v2 assume "v1 \<le> v2" "length xs = n \<and> (\<forall>x \<in> set xs. P v2 x)"
      then show "gives c v2 (ret (x # xs)) (\<lambda>v' xs. length xs = Suc n \<and> (\<forall>x \<in> set xs. P v' x))"
        by (intro gives_ret conjI ballI) (auto intro: assms(2)[OF _ x(2)] assms(2)[of v2])
    qed
  qed simp
  then show ?case by simp
qed

text \<open>Type expressions refer to types that were read, and type variables are below the number of variables.\<close>

definition node_ok :: "tl_config \<Rightarrow> tl_tree \<Rightarrow> bool" where
  "node_ok c T \<longleftrightarrow>
     (case T of
        tl_tree_type f t cs \<Rightarrow> int (length cs) = ct_arity (cf_types c ! t)
      | tl_tree_array f m as \<Rightarrow> f AND NOT FLAG_NOVAR = 0
      | _ \<Rightarrow> True)"

definition tree_ok :: "tl_config \<Rightarrow> int \<Rightarrow> tl_tree \<Rightarrow> bool" where
  "tree_ok c v T \<longleftrightarrow> tree_refs T \<subseteq> {..<types_n c} \<and> node_ok c T \<and> (\<forall>f n. T = tl_tree_var_type f n \<longrightarrow> n < v)"

lemma novar_array: "novar_of FLAG_NOVAR fs AND NOT FLAG_NOVAR = 0"
proof -
  have "FLAG_NOVAR AND NOT FLAG_NOVAR = 0" by (simp add: bit_eq_iff bit_simps)
  then show ?thesis by (simp add: novar_of_def and.assoc)
qed

definition arg_ok :: "tl_config \<Rightarrow> int \<Rightarrow> tl_arg \<Rightarrow> bool" where
  "arg_ok c v a \<longleftrightarrow> tree_ok c v (a_type a) \<and> a_var_num a < v"

definition ids_ok :: "tl_config \<Rightarrow> bool" where
  "ids_ok c \<longleftrightarrow> (\<forall>i t. id_to_type c i = Some t \<longrightarrow> t < types_n c)"

lemma tree_ok_mono: "v \<le> v' \<Longrightarrow> tree_ok c v T \<Longrightarrow> tree_ok c v' T"
  by (auto simp: tree_ok_def)

lemma arg_ok_mono: "v \<le> v' \<Longrightarrow> arg_ok c v a \<Longrightarrow> arg_ok c v' a"
  by (auto simp: arg_ok_def intro: tree_ok_mono)

lemma gives_nat: "gives c v read_nat_expr (\<lambda>v T. tree_ok c v T)"
  unfolding read_nat_expr_def read_num_const_def read_num_var_def
  by (intro gives_bind[OF gives_parse] gives_bind[OF gives_note] gives_if gives_ret gives_raise)
    (simp_all add: tree_ok_def node_ok_def)

lemma gives_type_var: "gives c v read_type_var (\<lambda>v T. tree_ok c v T)"
  unfolding read_type_var_def
  by (intro gives_bind[OF gives_parse] gives_bind[OF gives_note] gives_bind[OF gives_check] gives_ret)
    (simp add: tree_ok_def node_ok_def)

lemma gives_arg:
  assumes "\<And>v'. v \<le> v' \<Longrightarrow> gives c v' re (\<lambda>v T. tree_ok c v T)"
  shows "gives c v (read_arg o_f h_v re) (\<lambda>v a. arg_ok c v a)"
proof -
  have p: "gives c v' (if b then bind try_parse_int (\<lambda>n. ret (g, sint n)) else ret (h, -1)) (\<lambda>_ _. True)"
    "gives c v' (if b then bind try_parse_int (\<lambda>a. bind try_parse_int (\<lambda>b. ret (sint a, sint b))) else ret (-1, 0)) (\<lambda>_ _. True)"
    for b g h v' by (intro gives_if gives_bind[OF gives_parse] gives_ret; simp)+
  show ?thesis
    unfolding read_arg_def Let_def split_def
    apply (intro gives_bind[OF gives_parse] gives_bind[OF gives_check] gives_bind[OF p(1)] gives_bind[OF gives_note]
        gives_bind[OF p(2)])
    apply (rule gives_bind, rule assms, simp)
    apply (rule gives_ret)
    apply (auto simp: arg_ok_def intro: tree_ok_mono)
    done
qed

lemma gives_args_list:
  assumes "\<And>v'. v \<le> v' \<Longrightarrow> gives c v' re (\<lambda>v T. tree_ok c v T)"
  shows "gives c v (read_args_list re) (\<lambda>v as. \<forall>a \<in> set as. arg_ok c v a)"
proof -
  have times: "gives c v' (read_times n (read_arg o_f h_v re)) (\<lambda>v as. \<forall>a \<in> set as. arg_ok c v a)" if "v \<le> v'" for v' n o_f h_v
  proof (rule gives_weaken[OF gives_times[where P = "\<lambda>v a. arg_ok c v a"]])
    fix v1 :: int assume "v' \<le> v1"
    then show "gives c v1 (read_arg o_f h_v re) (\<lambda>v a. arg_ok c v a)" using that by (intro gives_arg assms) simp
  qed (auto intro: arg_ok_mono)
  show ?thesis unfolding read_args_list_def Let_def
    by (intro gives_bind[OF gives_gets] gives_bind[OF gives_parse] gives_bind[OF gives_check] times) simp
qed

lemma gives_type_tree:
  assumes "\<And>v'. v \<le> v' \<Longrightarrow> gives c v' re (\<lambda>v T. tree_ok c v T)" and "ids_ok c"
  shows "gives c v (read_type_tree re) (\<lambda>v T. tree_ok c v T)"
proof -
  have expr: "gives c v' (read_expr re) (\<lambda>v T. tree_ok c v T)" if "v \<le> v'" for v'
    unfolding read_expr_def
    by (intro gives_bind[OF gives_parse] gives_if gives_nat gives_raise assms(1)) (use that in simp)
  have ty: "gives c v' (lift (cfg_get_type d i)) (\<lambda>_ t. d = c \<longrightarrow> t < types_n c)" for v' d i
    using assms(2) by (auto simp: gives_def cfg_get_type_def ids_ok_def split: option.splits sum.splits)
  show ?thesis
    unfolding read_type_tree_def
    apply (intro gives_bind[OF gives_parse] gives_bind[OF gives_config] gives_bind[OF ty] gives_bind[OF gives_check])
    apply (rule gives_bind[OF gives_times[where P = "\<lambda>v T. tree_ok c v T"]])
      apply (rule expr, simp)
     apply (rule tree_ok_mono; assumption)
    apply (rule gives_ret)
    apply (auto simp: tree_ok_def node_ok_def)
    done
qed

lemma gives_array:
  assumes "\<And>v'. v \<le> v' \<Longrightarrow> gives c v' re (\<lambda>v T. tree_ok c v T)"
  shows "gives c v (read_array re) (\<lambda>v T. tree_ok c v T)"
  unfolding read_array_def
  by (intro gives_bind[OF gives_nat] gives_bind[OF gives_args_list] gives_ret assms)
    (auto simp: tree_ok_def node_ok_def novar_array arg_ok_def arg_refs)

lemma gives_type_expr:
  assumes "ids_ok c"
  shows "gives c v (read_type_expr n) (\<lambda>v T. tree_ok c v T)"
proof (induction n arbitrary: v)
  case 0
  show ?case unfolding read_type_expr.simps by (rule gives_raise)
next
  case (Suc n)
  show ?case unfolding read_type_expr.simps
    by (intro gives_bind[OF gives_parse] gives_if gives_type_var gives_type_tree gives_array gives_raise Suc assms)
qed

text \<open>Combinators as the reader makes them.\<close>

definition comb_ok :: "tl_config \<Rightarrow> tl_combinator \<Rightarrow> bool" where
  "comb_ok c k \<longleftrightarrow> (\<forall>a \<in> set (cb_args k). arg_ok c (cb_var_count k) a) \<and>
     (\<exists>T. cb_result k = Some T \<and> tree_ok c (cb_var_count k) T)"

lemma gives_count: "gives c v (gets var_count) (\<lambda>v' x. x = v')"
  by (simp add: gives_def)

lemma gives_fuel: "(\<And>n v. gives c v (f n) Q) \<Longrightarrow> gives c v (with_data_fuel f) Q"
  unfolding with_data_fuel_def by (rule gives_bind[OF gives_gets])

lemma gives_combinator_rest:
  assumes "ids_ok c"
  shows "gives c v (bind (if l = TLS_COMBINATOR_LEFT_cfg then with_data_fuel (\<lambda>n. read_args_list (read_type_expr n))
           else bind (check (l = TLS_COMBINATOR_LEFT_BUILTIN_cfg)) (\<lambda>_. ret [])) (\<lambda>as.
     bind try_parse_int (\<lambda>r.
     bind (check (r = TLS_COMBINATOR_RIGHT_V2_cfg)) (\<lambda>_.
     bind (with_data_fuel read_type_expr) (\<lambda>res.
     bind (gets var_count) (\<lambda>vc.
     ret \<lparr>cb_id = i, cb_name = name, cb_var_count = vc, cb_type_id = ty, cb_args = as, cb_result = Some res\<rparr>))))))
     (\<lambda>_ k. comb_ok c k)" (is "gives c v (bind ?args ?rest) _")
proof (rule gives_bind)
  show "gives c v ?args (\<lambda>v as. \<forall>a \<in> set as. arg_ok c v a)"
    by (intro gives_if gives_fuel gives_args_list gives_type_expr assms gives_bind[OF gives_check] gives_ret) simp
  fix as v1 assume as: "v \<le> v1" "\<forall>a \<in> set as. arg_ok c v1 a"
  show "gives c v1 (?rest as) (\<lambda>_ k. comb_ok c k)"
  proof (intro gives_bind[OF gives_parse] gives_bind[OF gives_check] gives_bind[OF gives_fuel[OF gives_type_expr[OF assms]]]
      gives_bind[OF gives_count] gives_ret)
    fix v2 v3 res v4 vc v5 v' :: int and T
    assume "v1 \<le> v2" "v2 \<le> v3" "v3 \<le> v4" "tree_ok c v4 T" "v4 \<le> v5" "vc = v5"
    then show "comb_ok c \<lparr>cb_id = i, cb_name = name, cb_var_count = vc, cb_type_id = ty, cb_args = as, cb_result = Some T\<rparr>"
      using as(2) by (auto simp: comb_ok_def intro: tree_ok_mono arg_ok_mono[rotated])
  qed
qed

text \<open>Without the number of variables, which starts anew with every combinator.\<close>

definition builds :: "tl_config \<Rightarrow> 'a cfg \<Rightarrow> ('a \<Rightarrow> bool) \<Rightarrow> bool" where
  "builds c m Q \<longleftrightarrow> (\<forall>s x t. config s = c \<longrightarrow> m s = Inr (x, t) \<longrightarrow> config t = c \<and> Q x)"

lemma buildsD: "builds c m Q \<Longrightarrow> config s = c \<Longrightarrow> m s = Inr (x, t) \<Longrightarrow> config t = c \<and> Q x"
  unfolding builds_def by blast

lemma builds_bind: "builds c m P \<Longrightarrow> (\<And>x. P x \<Longrightarrow> builds c (f x) Q) \<Longrightarrow> builds c (bind m f) Q"
  by (subst builds_def) (blast dest: buildsD elim: bind_InrE)

lemma builds_gives: "(\<And>v. gives c v m (\<lambda>_. Q)) \<Longrightarrow> builds c m Q"
  by (subst builds_def) (blast dest: givesD)

lemma builds_ret: "Q x \<Longrightarrow> builds c (ret x) Q"
  by (simp add: builds_def)

lemma builds_reset: "builds c (modify (\<lambda>s. s\<lparr>var_count := n\<rparr>)) (\<lambda>_. True)"
  by (simp add: builds_def)

lemmas builds_basic = builds_gives[OF gives_parse] builds_gives[OF gives_check] builds_reset

lemma builds_combinator: "ids_ok c \<Longrightarrow> builds c read_combinator (comb_ok c)"
  unfolding read_combinator_def
  by (intro builds_bind[OF builds_basic(1)] builds_bind[OF builds_basic(2)] builds_bind[OF builds_reset]
      builds_gives gives_combinator_rest)

lemma builds_type: "builds c read_type (\<lambda>t. ct_constructors t = [])"
  unfolding read_type_def
  by (intro builds_bind[OF builds_basic(1)] builds_bind[OF builds_basic(2)] builds_ret) simp

text \<open>The configuration itself.\<close>

definition config_ok :: "tl_config \<Rightarrow> bool" where
  "config_ok c \<longleftrightarrow> ids_ok c \<and> (\<forall>k \<in> combinators c. comb_ok c k)"

lemma comb_ok_refs: "comb_ok c k \<Longrightarrow> comb_refs k \<subseteq> {..<types_n c}"
  by (auto simp: comb_ok_def comb_refs_def arg_ok_def tree_ok_def arg_refs)

lemma config_ok_refs: "config_ok c \<Longrightarrow> config_refs c"
  by (auto simp: config_ok_def config_refs_def combinators_def dest!: comb_ok_refs)

lemma comb_ok_more:
  assumes "types_n c \<le> types_n d" and "\<And>i. i < types_n c \<Longrightarrow> ct_arity (cf_types d ! i) = ct_arity (cf_types c ! i)" and "comb_ok c k"
  shows "comb_ok d k"
proof -
  have "tree_ok d v T" if "tree_ok c v T" for v T
    using that assms(1,2) by (cases T) (fastforce simp: tree_ok_def node_ok_def)+
  then show ?thesis using assms(3) by (auto simp: comb_ok_def arg_ok_def)
qed

lemma config_ok_add_type:
  assumes "config_ok c" and "ct_constructors t = []"
  shows "config_ok (cfg_add_type t c)"
proof -
  have "types_n (cfg_add_type t c) = Suc (types_n c)" by (simp add: cfg_add_type_def types_n_def)
  moreover have "combinators (cfg_add_type t c) = combinators c" by (simp add: combinators_def cfg_add_type_def assms(2))
  moreover have "id_to_type (cfg_add_type t c) = (id_to_type c)(ct_id t \<mapsto> types_n c)"
    by (simp add: cfg_add_type_def types_n_def)
  moreover have "ct_arity (cf_types (cfg_add_type t c) ! i) = ct_arity (cf_types c ! i)" if "i < types_n c" for i
    using that by (simp add: cfg_add_type_def types_n_def nth_append)
  ultimately show ?thesis using assms(1) comb_ok_more[of c "cfg_add_type t c"]
    by (auto simp: config_ok_def ids_ok_def less_SucI)
qed

lemma keeps_read_types: "keeps (\<lambda>s. config_ok (config s)) (read_types n)"
proof (induction n)
  case 0
  then show ?case by (simp add: keeps_def)
next
  case (Suc n)
  show ?case
  proof (rule keepsI)
    fix s x t
    assume s: "config_ok (config s)" and "read_types (Suc n) s = Inr (x, t)"
    then obtain ty s1 k where r: "read_type s = Inr (ty, s1)"
        "read_types n (s1\<lparr>config := cfg_add_type ty (config s1)\<rparr>) = Inr (k, t)" by auto
    note y = buildsD[OF builds_type refl r(1)]
    have "config_ok (cfg_add_type ty (config s1))" using config_ok_add_type[of "config s" ty] y s by simp
    with keepsD[OF Suc.IH _ r(2)] show "config_ok (config t)" by simp
  qed
qed

lemma keeps_read_constructor: "keeps (\<lambda>s. config_ok (config s)) read_constructor"
proof (rule keepsI)
  fix s x t
  assume s: "config_ok (config s)" and "read_constructor s = Inr (x, t)"
  then obtain k s1 i ty where r: "read_combinator s = Inr (k, s1)" "cfg_get_type (config s1) (cb_type_id k) = Inr i"
      "add_constructor k (cf_types (config s1) ! i) = Inr ty"
      "t = s1\<lparr>config := (config s1)\<lparr>cf_types := (cf_types (config s1))[i := ty]\<rparr>\<rparr>"
    unfolding read_constructor_def by (auto split: sum.splits)
  let ?c = "config s"
  have k: "config s1 = ?c" "comb_ok ?c k" using buildsD[OF builds_combinator refl r(1)] s by (auto simp: config_ok_def)
  have ty: "ct_constructors ty = ct_constructors (cf_types ?c ! i) @ [k]"
    using r(3) k(1) by (auto simp: add_constructor_def Let_def split: if_splits)
  have i: "i < types_n ?c" using r(2) s k(1) by (auto simp: cfg_get_type_def config_ok_def ids_ok_def split: option.splits)
  let ?d = "?c\<lparr>cf_types := (cf_types ?c)[i := ty]\<rparr>"
  have n: "types_n ?d = types_n ?c" by (simp add: types_n_def)
  have "combinators ?d \<subseteq> insert k (combinators ?c)"
    using i ty set_update_subset_insert[of "cf_types ?c" i ty]
    by (fastforce simp: combinators_def types_n_def)
  moreover have "ct_arity (cf_types ?d ! j) = ct_arity (cf_types ?c ! j)" if "j < types_n ?c" for j
    using that r(3) k(1) by (cases "j = i") (auto simp: add_constructor_def Let_def types_n_def split: if_splits)
  ultimately have "config_ok ?d" using s k(2) comb_ok_more[of ?c ?d] by (auto simp: config_ok_def ids_ok_def n)
  then show "config_ok (config t)" using r(4) k(1) by simp
qed

lemma keeps_read_function: "keeps (\<lambda>s. config_ok (config s)) read_function"
proof (rule keepsI)
  fix s x t
  assume s: "config_ok (config s)" and "read_function s = Inr (x, t)"
  then obtain k s1 where r: "read_combinator s = Inr (k, s1)" "t = s1\<lparr>config := cfg_add_function k (config s1)\<rparr>"
    unfolding read_function_def by auto
  let ?c = "config s"
  have k: "config s1 = ?c" "comb_ok ?c k" using buildsD[OF builds_combinator refl r(1)] s by (auto simp: config_ok_def)
  have n: "types_n (cfg_add_function k ?c) = types_n ?c" by (simp add: types_n_def cfg_add_function_def)
  have "combinators (cfg_add_function k ?c) = insert k (combinators ?c)"
    by (auto simp: combinators_def cfg_add_function_def)
  moreover have "cf_types (cfg_add_function k ?c) = cf_types ?c" by (simp add: cfg_add_function_def)
  ultimately have "config_ok (cfg_add_function k ?c)" using s k(2) comb_ok_more[of ?c "cfg_add_function k ?c"]
    by (auto simp: config_ok_def ids_ok_def n) (simp add: cfg_add_function_def)
  then show "config_ok (config t)" using r(2) k(1) by simp
qed

lemma keeps_times: "keeps I m \<Longrightarrow> keeps I (read_times n m)"
  by (induction n) (auto intro!: keeps)

lemma keeps_try_parse: "keeps (\<lambda>s. config_ok (config s)) (try_parse m)"
  by (auto simp: keeps_def try_parse_def split: sum.splits if_splits)

lemma read_tl_config_ok:
  assumes "read_tl_config bs = Inr c"
  shows "config_ok c"
proof -
  obtain t where t: "parse_config (config_parser bs) = Inr (c, t)"
    using assms by (auto simp: read_tl_config_def split: if_splits sum.splits)
  have "keeps (\<lambda>s. config_ok (config s)) parse_config"
    unfolding parse_config_def
    by (intro keeps keeps_try_parse keeps_read_types keeps_times keeps_read_constructor keeps_read_function keeps_modify) simp
  moreover have "config_ok (config (config_parser bs))"
    by (simp add: config_parser_def empty_config_def config_ok_def ids_ok_def combinators_def)
  ultimately have "config_ok (config t)" using t by (rule keepsD)
  moreover have "config t = c" using t unfolding parse_config_def by (auto elim!: bind_InrE)
  ultimately show ?thesis by simp
qed

subsection \<open>The faults of the support test\<close>

lemma type_supported_fault:
  "is_type_supported c T = Inl e \<Longrightarrow> node_type T = NODE_TYPE_TYPE \<Longrightarrow> e = Assertion"
  "children_supported c xs = Inl e \<Longrightarrow> e = Assertion"
proof (induction c T and c xs rule: is_type_supported_children_supported.induct)
  case (1 c T)
  then show ?case by (cases T) (auto simp: is_type_supported.simps node_types split: if_splits)
next
  case (3 c x xs)
  then show ?case by (auto split: if_splits sum.splits)
qed simp

definition negative_result :: "tl_combinator \<Rightarrow> bool" where
  "negative_result k \<longleftrightarrow> (\<exists>f v. cb_result k = Some (tl_tree_var_type f v) \<and> v < 0)"

definition support_faults :: "tl_combinator \<Rightarrow> fault \<Rightarrow> bool" where
  "support_faults k e \<longleftrightarrow> e = Assertion \<or> (e = OutOfBounds \<and> negative_result k)"

text \<open>Computations on a vector of \<open>n\<close> elements with the faults in \<open>E\<close>.\<close>

definition vector_comp :: "(fault \<Rightarrow> bool) \<Rightarrow> nat \<Rightarrow> (bool list, 'a) comp \<Rightarrow> bool" where
  "vector_comp E n m \<longleftrightarrow> (\<forall>r. length r = n \<longrightarrow> post E m (\<lambda>_ r'. length r' = n) r)"

lemma vector_basic: "vector_comp E n (ret x)" "E Assertion \<Longrightarrow> vector_comp E n (check b)"
    "vector_comp E n (modify (\<lambda>r. r[i := y]))" "(\<And>e. r = Inl e \<Longrightarrow> E e) \<Longrightarrow> vector_comp E n (lift r)"
  by (auto simp: vector_comp_def post_def split: sum.split)

lemma vector_bind: "vector_comp E n m \<Longrightarrow> (\<And>x. vector_comp E n (f x)) \<Longrightarrow> vector_comp E n (bind m f)"
  unfolding vector_comp_def by (blast intro: post_bindI)

lemma vector_if: "(b \<Longrightarrow> vector_comp E n m) \<Longrightarrow> (\<not> b \<Longrightarrow> vector_comp E n m') \<Longrightarrow> vector_comp E n (if b then m else m')"
  by simp

lemma vector_checked: "E Assertion \<Longrightarrow> (b \<Longrightarrow> vector_comp E n m) \<Longrightarrow> vector_comp E n (bind (check b) (\<lambda>_. m))"
  by (cases b) (auto simp: vector_comp_def post_def)

lemma vector_every: "(\<And>x. x \<in> set xs \<Longrightarrow> vector_comp E n (f x)) \<Longrightarrow> vector_comp E n (every f xs)"
  by (induction xs) (auto intro!: vector_basic vector_bind)

lemma vector_result: "0 \<le> v \<Longrightarrow> v < int n \<Longrightarrow> vector_comp E n (is_function_result v)"
  by (auto simp: vector_comp_def post_def is_function_result_def)

lemma note_function_result_vector:
  assumes "E Assertion" and "arg_ok c (int n) a"
  shows "vector_comp E n (note_function_result a)"
proof (cases "a_type a")
  case (tl_tree_var_type f v)
  then have "v < int n" using assms(2) by (simp add: arg_ok_def tree_ok_def)
  then show ?thesis unfolding note_function_result_def tl_tree_var_type
    by (auto intro!: vector_checked vector_bind[OF vector_result] vector_bind[OF vector_basic(3)] vector_basic(1) assms(1))
qed (auto simp: note_function_result_def intro: vector_basic)

lemma is_arg_supported_vector:
  assumes "E Assertion" and "arg_ok c (int n) a"
  shows "vector_comp E n (is_arg_supported c a)"
proof -
  have v: "a_var_num a < int n" using assms(2) by (simp add: arg_ok_def)
  show ?thesis
    unfolding is_arg_supported_def is_type_arg_def is_element_supported_def
    by (intro vector_bind[where m = "if 0 \<le> a_var_num a then _ else _"] vector_if vector_checked vector_every vector_basic
        vector_bind[OF vector_result] v assms(1)) (auto dest!: type_supported_fault(1) simp: assms(1))
qed

lemma combinator_supported_faults:
  assumes "comb_ok c k" and "is_combinator_supported c k = Inl e"
  shows "support_faults k e"
proof -
  let ?n = "nat (cb_var_count k)" and ?E = "support_faults k"
  have A: "?E Assertion" by (simp add: support_faults_def)
  obtain T where T: "cb_result k = Some T" "tree_ok c (cb_var_count k) T" using assms(1) by (auto simp: comb_ok_def)
  have a: "arg_ok c (int ?n) a" if "a \<in> set (cb_args k)" for a
    using that assms(1) by (auto simp: comb_ok_def intro: arg_ok_mono[rotated])
  have r: "vector_comp ?E ?n (is_result_supported c (Some T))"
  proof (cases T)
    case (tl_tree_var_type f v)
    show ?thesis
    proof (cases "0 \<le> v")
      case True
      then have "v < int ?n" using T(2) tl_tree_var_type by (simp add: tree_ok_def)
      with True show ?thesis
        by (auto simp: is_result_supported_def tl_tree_var_type node_types intro!: vector_checked vector_result A)
    next
      case False
      then have "?E OutOfBounds" using T(1) tl_tree_var_type by (auto simp: support_faults_def negative_result_def)
      with False show ?thesis
        by (auto simp: is_result_supported_def tl_tree_var_type node_types vector_comp_def post_def is_function_result_def)
    qed
  qed (auto simp: is_result_supported_def node_types A intro!: vector_checked vector_basic dest!: type_supported_fault(1))
  have "vector_comp ?E ?n (bind (every note_function_result (cb_args k)) (\<lambda>b. if b then
           bind (every (is_arg_supported c) (cb_args k)) (\<lambda>b.
           if b then is_result_supported c (cb_result k) else ret False) else ret False))"
    unfolding T(1)
    by (intro vector_bind vector_every vector_if vector_basic note_function_result_vector[where c = c] is_arg_supported_vector r A a)
  then show ?thesis using assms(2)
    unfolding is_combinator_supported_def vector_comp_def post_def by (force split: sum.splits)
qed

subsection \<open>The checks\<close>

lemma mark_more_complex: "set_complex i c = Inr (u, d) \<Longrightarrow> more_complex c d"
proof (cases "i < types_n c")
  case False
  then have "set_complex i c = Inr ((), c)" by (cases c) (simp add: set_complex_def upd_type_num_def types_n_def list_update_beyond)
  then show "set_complex i c = Inr (u, d) \<Longrightarrow> more_complex c d" by (simp add: more_complex_refl)
qed (rule set_complex_step(1))

lemma keeps_set_complex [keeps]: "keeps (more_complex c) (set_complex i)"
  by (auto simp: keeps_def intro: more_complex_trans dest: mark_more_complex)

lemma keeps_check_type [keeps]: "keeps (more_complex c) (check_type w i)"
  unfolding check_type_def check_constructor_def check_arg_def check_element_def check_param_def
    param_type_def the_result_def mark_complex_def type_num_def Let_def
  by (intro keeps keeps_iterate)

lemma keeps_check_types: "keeps (more_complex c) (check_types w)"
  unfolding check_types_def by (intro keeps keeps_iterate)

text \<open>The checks end with failed assertions only, when every combinator has a result.\<close>

definition asserts :: "('s, 'a) comp \<Rightarrow> bool" where
  "asserts m \<longleftrightarrow> (\<forall>s e. m s = Inl e \<longrightarrow> e = Assertion)"

lemma asserts_basic: "asserts (ret x)" "asserts (check b)" "asserts (gets f)" "asserts (modify g)"
  by (auto simp: asserts_def split: if_splits)

lemma asserts_bind: "asserts m \<Longrightarrow> (\<And>x. asserts (f x)) \<Longrightarrow> asserts (bind m f)"
  by (auto simp: asserts_def bind_apply split: sum.splits)

lemma asserts_if: "(b \<Longrightarrow> asserts m) \<Longrightarrow> (\<not> b \<Longrightarrow> asserts n) \<Longrightarrow> asserts (if b then m else n)"
  by simp

lemma asserts_iterate: "(\<And>x. x \<in> set xs \<Longrightarrow> asserts (f x)) \<Longrightarrow> asserts (iterate f xs)"
  by (induction xs) (auto intro!: asserts_basic asserts_bind)

lemma asserts_check_constructor: "cb_result k \<noteq> None \<Longrightarrow> asserts (check_constructor w i t k)"
  unfolding check_constructor_def check_arg_def check_element_def mark_complex_def set_complex_def upd_type_num_def type_num_def
    the_result_def Let_def
  by (intro asserts_bind asserts_if asserts_iterate asserts_basic) (auto intro: asserts_basic)

lemma asserts_param_type: "cb_result k \<noteq> None \<Longrightarrow> asserts (param_type k j)"
  by (auto simp: param_type_def the_result_def asserts_def)

lemma asserts_check_param:
  assumes "\<And>k. k \<in> set (ct_constructors t) \<Longrightarrow> cb_result k \<noteq> None" and "ct_constructors t \<noteq> []"
  shows "asserts (check_param w i t j)"
proof -
  have "k \<in> set (ct_constructors t)" if "k \<in> set (tl (ct_constructors t))" for k
    using that by (cases "ct_constructors t") auto
  then show ?thesis
    unfolding check_param_def mark_complex_def set_complex_def upd_type_num_def type_num_def
    using assms by (intro asserts_bind asserts_if asserts_iterate asserts_basic asserts_param_type) auto
qed

lemma check_type_fault:
  assumes "check_type w i c = Inl e" and "\<And>k. k \<in> set (ct_constructors (cf_types c ! i)) \<Longrightarrow> cb_result k \<noteq> None"
  shows "e = Assertion"
proof -
  have "asserts (iterate (check_param w i (cf_types c ! i)) [0..<nat (ct_arity (cf_types c ! i))])"
    if "ct_constructors (cf_types c ! i) \<noteq> []"
    using that assms(2) by (intro asserts_iterate asserts_check_param)
  moreover have "asserts (iterate (check_constructor w i (cf_types c ! i)) (ct_constructors (cf_types c ! i)))"
    using assms(2) by (intro asserts_iterate asserts_check_constructor)
  ultimately show ?thesis using assms(1)
    by (auto simp: check_type_def type_num_def bind_apply asserts_def set_complex_def upd_type_num_def split: if_splits sum.splits)
qed

lemma iterate_fault_inv:
  assumes "iterate f xs s = Inl e" and "I s" and "\<And>x. keeps I (f x)"
  shows "\<exists>x \<in> set xs. \<exists>t. I t \<and> f x t = Inl e"
  using assms(1,2)
proof (induction xs arbitrary: s)
  case (Cons x xs)
  show ?case
  proof (cases "f x s")
    case (Inl e')
    then show ?thesis using Cons.prems by auto
  next
    case (Inr r)
    obtain t where t: "f x s = Inr ((), t)" using Inr by (cases r) auto
    have "I t" by (rule keepsD[OF assms(3) Cons.prems(2) t])
    with Cons.IH[of t] Cons.prems(1) t show ?thesis by auto
  qed
qed simp

lemma check_types_fault:
  assumes "check_types w c = Inl e" and "config_ok c"
  shows "e = Assertion"
proof -
  from assms(1) have "iterate (check_type w) [0..<types_n c] c = Inl e" by (simp add: check_types_def)
  from iterate_fault_inv[OF this more_complex_refl keeps_check_type] obtain i d where
    i: "i < types_n c" "more_complex c d" "check_type w i d = Inl e" by auto
  have "cb_result k \<noteq> None" if "k \<in> set (ct_constructors (cf_types d ! i))" for k
  proof -
    have "k \<in> set (ct_constructors (cf_types c ! i))"
      using that variant_type[OF more_complex_variant[OF i(2)] i(1)] by (auto dest: same_type_parts(5))
    then have "k \<in> combinators c" using i(1) by (fastforce simp: combinators_def types_n_def)
    then show ?thesis using assms(2) by (auto simp: config_ok_def comb_ok_def)
  qed
  from check_type_fault[OF i(3) this] show ?thesis .
qed

subsection \<open>Properties of the analysis\<close>

lemma variant_rest:
  assumes "variant c d"
  shows "id_to_type d = id_to_type c" and "cf_functions d = cf_functions c"
proof -
  have e: "d\<lparr>cf_types := []\<rparr> = c\<lparr>cf_types := []\<rparr>" using assms by (simp add: variant_def)
  from arg_cong[OF e, of id_to_type] show "id_to_type d = id_to_type c" by simp
  from arg_cong[OF e, of cf_functions] show "cf_functions d = cf_functions c" by simp
qed

lemma combinators_variant:
  assumes "variant c d"
  shows "combinators d = combinators c"
proof -
  have "map ct_constructors (cf_types d) = map ct_constructors (cf_types c)"
    using assms by (auto simp: variant_def list_all2_conv_all_nth same_type_parts(5) intro!: nth_equalityI)
  then have "set (concat (map ct_constructors (cf_types d))) = set (concat (map ct_constructors (cf_types c)))"
    by (simp only:)
  then show ?thesis by (simp add: combinators_def variant_rest(2)[OF assms])
qed

lemma config_ok_variant:
  assumes "variant c d" and "config_ok c"
  shows "config_ok d"
proof -
  have "ct_arity (cf_types d ! i) = ct_arity (cf_types c ! i)" if "i < types_n c" for i
    using variant_type[OF assms(1) that] by (rule same_type_parts(3))
  then show ?thesis using assms(2) comb_ok_more[of c d]
    by (simp add: config_ok_def ids_ok_def variant_rest[OF assms(1)] combinators_variant[OF assms(1)] variant_types_n[OF assms(1)])
qed

lemma tl_analysisE:
  assumes "tl_analysis w c = Inr (r, d)"
  obtains c' where "check_types w c = Inr ((), c')" and "complex_loop (Suc (types_n c')) w c' = Inr ((), d)"
    and "dfs_functions w d = Inr r"
  using assms unfolding tl_analysis_def by (auto split: sum.splits)

lemma td_fault: "combinator_supported (TD_TL_writer nm) c k = Inl e \<Longrightarrow> is_combinator_supported c k = Inl e"
  by (auto simp: TD_TL_writer_def td_combinator_supported_def split: sum.splits)

lemma tl_analysis_faults:
  assumes "config_ok c" and "tl_analysis (TD_TL_writer nm) c = Inl e"
  shows "e = Assertion \<or> (e = OutOfBounds \<and> (\<exists>k \<in> combinators c. negative_result k))"
proof -
  let ?w = "TD_TL_writer nm"
  have support: "e = Assertion \<or> (e = OutOfBounds \<and> (\<exists>k \<in> combinators c. negative_result k))"
    if "variant c d" "k \<in> combinators d" "combinator_supported ?w d k = Inl e" for d k
  proof -
    have "k \<in> combinators c" using that(1,2) combinators_variant by blast
    moreover have "comb_ok d k" using that(1,2) config_ok_variant[OF _ assms(1)] by (auto simp: config_ok_def)
    from combinator_supported_faults[OF this td_fault[OF that(3)]] have "support_faults k e" .
    ultimately show ?thesis by (auto simp: support_faults_def)
  qed
  consider (checks) "check_types ?w c = Inl e"
    | (loop) c' where "check_types ?w c = Inr ((), c')" "complex_loop (Suc (types_n c')) ?w c' = Inl e"
    | (search) c' d where "check_types ?w c = Inr ((), c')" "complex_loop (Suc (types_n c')) ?w c' = Inr ((), d)" "dfs_functions ?w d = Inl e"
    using assms(2) unfolding tl_analysis_def by (auto simp: bind_apply split: sum.splits)
  then show ?thesis
  proof cases
    case checks
    then show ?thesis using check_types_fault assms(1) by blast
  next
    case loop
    have v: "variant c c'" using keepsD[OF keeps_check_types more_complex_refl loop(1)] by (rule more_complex_variant)
    then have "config_refs c'" using config_ok_variant[OF _ assms(1)] config_ok_refs by blast
    from td_writer.complex_loop_enough[OF loop(2) this] obtain i k where
      "i < types_n c'" "k \<in> set (ct_constructors (cf_types c' ! i))" "combinator_supported ?w c' k = Inl e" by blast
    moreover from this(1,2) have "k \<in> combinators c'" by (fastforce simp: combinators_def types_n_def)
    ultimately show ?thesis using support[OF v] by blast
  next
    case search
    have v: "variant c c'" using keepsD[OF keeps_check_types more_complex_refl search(1)] by (rule more_complex_variant)
    then have "config_refs c'" using config_ok_variant[OF _ assms(1)] config_ok_refs by blast
    from td_writer.complex_loop_least(1)[OF search(2) this] v have v2: "variant c d"
      by (metis more_complex_variant variant_trans)
    then have "config_refs d" and "config_ok d" using config_ok_variant[OF _ assms(1)] config_ok_refs by blast+
    from dfs_functions_faults[OF search(3) this(1)] this(2) support[OF v2] show ?thesis
      by (auto simp: dfs_faults_def config_ok_def comb_ok_def)
  qed
qed

end
