(* ===== verification/TL_Emit.thy ===== *)
theory TL_Emit
  imports TL_Analysis
begin

section \<open>Writing the generated file (tdtl: tl_generate.cpp)\<close>

text \<open>
  After the analysis \<open>write_tl\<close> walks over types and functions and appends pieces of text. The virtual functions of \<open>TL_writer\<close> that
  produce these pieces are the fields of the record \<open>generator\<close>: they return strings, and where the code passes them the vector of variable
  descriptions by reference they return the new vector, too. The output is the state; the configuration does not change during this phase.
\<close>

unbundle bit_operations_syntax

subsection \<open>The interface of the text functions (tl_writer.h)\<close>

record var_description =
  vd_index :: int
  vd_is_stored :: bool
  vd_is_type :: bool
  vd_parameter_num :: int
  vd_function_arg_num :: int

type_synonym vars = "var_description list"

definition new_var :: var_description where
  "new_var = \<lparr>vd_index = -1, vd_is_stored = False, vd_is_type = False, vd_parameter_num = -1, vd_function_arg_num = -1\<rparr>"

record naming =
  get_max_arity :: int
  is_default_constructor_generated :: "tl_combinator \<Rightarrow> bool \<Rightarrow> bool \<Rightarrow> bool"
  is_full_constructor_generated :: "tl_combinator \<Rightarrow> bool \<Rightarrow> bool \<Rightarrow> bool"
  get_parser_type :: "tl_combinator \<Rightarrow> string \<Rightarrow> int"
  get_storer_type :: "tl_combinator \<Rightarrow> string \<Rightarrow> int"
  get_additional_function_type :: "string \<Rightarrow> int"
  get_parsers :: "string list"
  get_storers :: "string list"
  get_additional_functions :: "string list"
  gen_base_tl_class_name :: string
  gen_base_type_class_name :: "int \<Rightarrow> string"
  gen_base_function_class_name :: string
  gen_class_name :: "string \<Rightarrow> string"
  gen_field_name :: "string \<Rightarrow> string"
  gen_type_name :: "tl_tree \<Rightarrow> string"
  gen_array_type_name :: "tl_tree \<Rightarrow> string \<Rightarrow> string"
  gen_var_type_name :: string

record class_texts = naming +
  gen_output_begin :: string
  gen_output_end :: string
  gen_forward_class_declaration :: "string \<Rightarrow> bool \<Rightarrow> string"
  gen_class_begin :: "string \<Rightarrow> string \<Rightarrow> bool \<Rightarrow> string"
  gen_class_end :: string
  gen_class_alias :: "string \<Rightarrow> string \<Rightarrow> string"
  gen_field_definition :: "string \<Rightarrow> string \<Rightarrow> string \<Rightarrow> string"
  gen_flags_definitions :: "tl_combinator \<Rightarrow> bool \<Rightarrow> string"
  gen_get_id :: "string \<Rightarrow> u32 \<Rightarrow> bool \<Rightarrow> string"
  gen_function_result_type :: "tl_tree \<Rightarrow> string"
  gen_constructor_begin :: "int \<Rightarrow> string \<Rightarrow> bool \<Rightarrow> string"
  gen_constructor_parameter :: "int \<Rightarrow> string \<Rightarrow> tl_arg \<Rightarrow> bool \<Rightarrow> string"
  gen_constructor_field_init :: "int \<Rightarrow> string \<Rightarrow> tl_arg \<Rightarrow> bool \<Rightarrow> string"
  gen_constructor_end :: "tl_combinator \<Rightarrow> int \<Rightarrow> bool \<Rightarrow> string"
  gen_additional_function :: "string \<Rightarrow> tl_combinator \<Rightarrow> bool \<Rightarrow> string"
  gen_additional_proxy_function_begin :: "string \<Rightarrow> nat option \<Rightarrow> string \<Rightarrow> int \<Rightarrow> bool \<Rightarrow> string"
  gen_additional_proxy_function_case_class :: "string \<Rightarrow> nat option \<Rightarrow> string \<Rightarrow> int \<Rightarrow> string"
  gen_additional_proxy_function_case :: "string \<Rightarrow> nat option \<Rightarrow> tl_combinator \<Rightarrow> int \<Rightarrow> bool \<Rightarrow> string"
  gen_additional_proxy_function_end :: "string \<Rightarrow> nat option \<Rightarrow> bool \<Rightarrow> string"

record generator = class_texts +
  gen_vars :: "tl_combinator \<Rightarrow> tl_tree option \<Rightarrow> vars \<Rightarrow> string \<times> vars"
  gen_function_vars :: "tl_combinator \<Rightarrow> vars \<Rightarrow> string \<times> vars"
  gen_uni :: "tl_tree \<Rightarrow> bool \<Rightarrow> vars \<Rightarrow> string \<times> vars"
  gen_constructor_id_store :: "u32 \<Rightarrow> int \<Rightarrow> string"
  gen_field_fetch :: "int \<Rightarrow> tl_arg \<Rightarrow> bool \<Rightarrow> int \<Rightarrow> vars \<Rightarrow> string \<times> vars"
  gen_field_store :: "tl_arg \<Rightarrow> bool \<Rightarrow> int \<Rightarrow> vars \<Rightarrow> string \<times> vars"
  gen_type_fetch :: "string \<Rightarrow> tl_tree \<Rightarrow> vars \<Rightarrow> int \<Rightarrow> string"
  gen_var_type_fetch :: "tl_arg \<Rightarrow> string"
  gen_fetch_function_begin :: "string \<Rightarrow> string \<Rightarrow> string \<Rightarrow> int \<Rightarrow> int \<Rightarrow> int \<Rightarrow> vars \<Rightarrow> string \<times> vars"
  gen_fetch_function_end :: "bool \<Rightarrow> int \<Rightarrow> vars \<Rightarrow> int \<Rightarrow> string"
  gen_fetch_function_result_begin :: "string \<Rightarrow> string \<Rightarrow> tl_tree \<Rightarrow> string"
  gen_fetch_function_result_end :: string
  gen_fetch_function_result_any_begin :: "string \<Rightarrow> string \<Rightarrow> bool \<Rightarrow> string"
  gen_fetch_function_result_any_end :: "bool \<Rightarrow> string"
  gen_store_function_begin :: "string \<Rightarrow> string \<Rightarrow> int \<Rightarrow> int \<Rightarrow> vars \<Rightarrow> string \<times> vars"
  gen_store_function_end :: "vars \<Rightarrow> int \<Rightarrow> string"
  gen_fetch_switch_begin :: string
  gen_fetch_switch_case :: "tl_combinator \<Rightarrow> int \<Rightarrow> string"
  gen_fetch_switch_end :: string

subsection \<open>Appending text\<close>

text \<open>The state: the text so far, and the vector \<open>empty_vars\<close> that the loops over types pass to the text functions.\<close>

record emission =
  emitted :: string
  empty_vars :: vars

type_synonym 'a emit = "(emission, 'a) comp"

definition append_out :: "string \<Rightarrow> unit emit" where
  "append_out x = modify (\<lambda>s. s\<lparr>emitted := emitted s @ x\<rparr>)"

text \<open>Appending the result of a function that may change the variables.\<close>

definition append_vars :: "(vars \<Rightarrow> string \<times> vars) \<Rightarrow> vars \<Rightarrow> vars emit" where
  "append_vars f v = bind (append_out (fst (f v))) (\<lambda>_. ret (snd (f v)))"

definition append_shared :: "(vars \<Rightarrow> string \<times> vars) \<Rightarrow> unit emit" where
  "append_shared f = bind (gets empty_vars) (\<lambda>v. bind (append_vars f v) (\<lambda>v'. modify (\<lambda>s. s\<lparr>empty_vars := v'\<rparr>)))"

definition append_end :: "(vars \<Rightarrow> string) \<Rightarrow> unit emit" where
  "append_end f = bind (gets empty_vars) (\<lambda>v. append_out (f v))"

text \<open>Loops over the arguments that number the pieces that are not empty.\<close>

primrec count_fields :: "(int \<Rightarrow> tl_arg \<Rightarrow> string) \<Rightarrow> int \<Rightarrow> tl_arg list \<Rightarrow> int" where
  "count_fields f n [] = n"
| "count_fields f n (a # as) = count_fields f (n + of_bool (f n a \<noteq> [])) as"

primrec append_fields :: "(int \<Rightarrow> tl_arg \<Rightarrow> string) \<Rightarrow> int \<Rightarrow> tl_arg list \<Rightarrow> int emit" where
  "append_fields f n [] = ret n"
| "append_fields f n (a # as) =
     (if f n a \<noteq> [] then bind (append_out (f n a)) (\<lambda>_. append_fields f (n + 1) as) else append_fields f n as)"

primrec append_fetches :: "(int \<Rightarrow> tl_arg \<Rightarrow> vars \<Rightarrow> string \<times> vars) \<Rightarrow> int \<Rightarrow> vars \<Rightarrow> tl_arg list \<Rightarrow> (int \<times> vars) emit" where
  "append_fetches f n v [] = ret (n, v)"
| "append_fetches f n v (a # as) =
     (case f n a v of (field_fetch, v') \<Rightarrow>
        if field_fetch \<noteq> [] then bind (append_out field_fetch) (\<lambda>_. append_fetches f (n + 1) v' as)
        else append_fetches f n v' as)"

primrec append_stores :: "(tl_arg \<Rightarrow> vars \<Rightarrow> string \<times> vars) \<Rightarrow> vars \<Rightarrow> tl_arg list \<Rightarrow> vars emit" where
  "append_stores f v [] = ret v"
| "append_stores f v (a # as) = bind (append_vars (f a) v) (\<lambda>v'. append_stores f v' as)"

definition new_vars :: "tl_combinator \<Rightarrow> vars" where
  "new_vars k = replicate (nat (cb_var_count k)) new_var"

subsection \<open>Combinators\<close>

definition write_class_constructor :: "generator \<Rightarrow> tl_combinator \<Rightarrow> string \<Rightarrow> bool \<Rightarrow> unit emit" where
  "write_class_constructor g k class_name is_default =
     (let parameter = (\<lambda>n a. gen_constructor_parameter g n class_name a is_default);
          field_count = count_fields parameter 0 (cb_args k) in
      bind (append_out (gen_constructor_begin g field_count class_name is_default)) (\<lambda>_.
      bind (append_fields parameter 0 (cb_args k)) (\<lambda>field_num.
      bind (check (field_num = field_count)) (\<lambda>_.
      bind (append_fields (\<lambda>n a. gen_constructor_field_init g n class_name a is_default) 0 (cb_args k)) (\<lambda>field_num.
      append_out (gen_constructor_end g k field_num is_default))))))"

text \<open>The two sets of reachable names.\<close>

type_synonym reach = "string set \<times> string set"

definition reachable_parser :: "TL_writer \<Rightarrow> int \<Rightarrow> string \<Rightarrow> reach \<Rightarrow> bool" where
  "reachable_parser w t name r = is_reachable_for_parser w t name (fst r) (snd r)"

definition reachable_storer :: "TL_writer \<Rightarrow> int \<Rightarrow> string \<Rightarrow> reach \<Rightarrow> bool" where
  "reachable_storer w t name r = is_reachable_for_storer w t name (fst r) (snd r)"

definition write_function_fetch :: "TL_writer \<Rightarrow> generator \<Rightarrow> reach \<Rightarrow> tl_combinator \<Rightarrow> string \<Rightarrow> string \<Rightarrow> unit emit" where
  "write_function_fetch w g r k class_name parser_name =
     (let parser_type = get_parser_type g k parser_name in
      if \<not> reachable_parser w parser_type (cb_name k) r then ret () else
      bind (append_vars (gen_fetch_function_begin g parser_name class_name class_name 0 (int (length (cb_args k))) parser_type)
        (new_vars k)) (\<lambda>v.
      bind (append_vars (gen_vars g k None) v) (\<lambda>v.
      bind (append_fetches (\<lambda>n a. gen_field_fetch g n a False parser_type) 0 v (cb_args k)) (\<lambda>(field_num, v).
      append_out (gen_fetch_function_end g False field_num v parser_type)))))"

definition write_function_store :: "TL_writer \<Rightarrow> generator \<Rightarrow> reach \<Rightarrow> tl_combinator \<Rightarrow> string \<Rightarrow> string \<Rightarrow> vars \<Rightarrow> vars emit" where
  "write_function_store w g r k class_name storer_name v =
     (let storer_type = get_storer_type g k storer_name in
      if \<not> reachable_storer w storer_type (cb_name k) r then ret v else
      bind (append_vars (gen_store_function_begin g storer_name class_name 0 storer_type) v) (\<lambda>v.
      bind (append_out (gen_constructor_id_store g (cb_id k) storer_type)) (\<lambda>_.
      bind (append_stores (\<lambda>a. gen_field_store g a False storer_type) v (cb_args k)) (\<lambda>v.
      bind (append_out (gen_store_function_end g v storer_type)) (\<lambda>_. ret v)))))"

definition write_var_fetch :: "generator \<Rightarrow> int \<Rightarrow> tl_arg \<Rightarrow> unit emit" where
  "write_var_fetch g result_var a =
     (if node_type (a_type a) = NODE_TYPE_VAR_TYPE then
        bind (check (a_flags a AND FLAG_EXCL_core \<noteq> 0)) (\<lambda>_.
        bind (check (0 \<le> t_var_num (a_type a))) (\<lambda>_.
        if t_var_num (a_type a) = result_var then append_out (gen_var_type_fetch g a) else ret ()))
      else ret ())"

definition write_function_result_fetch :: "generator \<Rightarrow> tl_combinator \<Rightarrow> string \<Rightarrow> tl_tree \<Rightarrow> vars \<Rightarrow> string \<Rightarrow> unit emit" where
  "write_function_result_fetch g k class_name result v parser_name =
     (let parser_type = get_parser_type g k parser_name in
      bind (append_out (gen_fetch_function_result_begin g parser_name class_name result)) (\<lambda>_.
      bind (if node_type result = NODE_TYPE_VAR_TYPE then iterate (write_var_fetch g (t_var_num result)) (cb_args k)
            else
              bind (check (node_type result = NODE_TYPE_TYPE)) (\<lambda>_.
              append_out (gen_type_fetch g [] result v parser_type))) (\<lambda>_.
      bind (append_out (gen_fetch_function_result_end g)) (\<lambda>_.
      bind (append_out (gen_fetch_function_result_any_begin g parser_name class_name False)) (\<lambda>_.
      append_out (gen_fetch_function_result_any_end g False))))))"

definition write_constructor_fetch ::
  "TL_writer \<Rightarrow> generator \<Rightarrow> reach \<Rightarrow> tl_combinator \<Rightarrow> string \<Rightarrow> string \<Rightarrow> tl_tree \<Rightarrow> bool \<Rightarrow> string \<Rightarrow> unit emit" where
  "write_constructor_fetch w g r k class_name parent_class_name result_type is_flat parser_name =
     (let parser_type = get_parser_type g k parser_name in
      if \<not> reachable_parser w parser_type (cb_name k) r then ret () else
      bind (append_vars (gen_fetch_function_begin g parser_name class_name parent_class_name
          (int (length (t_children result_type))) (int (length (cb_args k))) parser_type) (new_vars k)) (\<lambda>v.
      bind (append_vars (gen_vars g k (Some result_type)) v) (\<lambda>v.
      bind (append_vars (gen_uni g result_type True) v) (\<lambda>v.
      bind (append_fetches (\<lambda>n a. gen_field_fetch g n a is_flat parser_type) 0 v (cb_args k)) (\<lambda>(field_num, v).
      append_out (gen_fetch_function_end g (class_name \<noteq> parent_class_name) field_num v parser_type))))))"

definition write_constructor_store ::
  "TL_writer \<Rightarrow> generator \<Rightarrow> reach \<Rightarrow> tl_combinator \<Rightarrow> string \<Rightarrow> tl_tree \<Rightarrow> bool \<Rightarrow> string \<Rightarrow> unit emit" where
  "write_constructor_store w g r k class_name result_type is_flat storer_name =
     (let storer_type = get_storer_type g k storer_name in
      if \<not> reachable_storer w storer_type (cb_name k) r then ret () else
      bind (append_vars (gen_store_function_begin g storer_name class_name (int (length (t_children result_type))) storer_type)
        (new_vars k)) (\<lambda>v.
      bind (append_vars (gen_vars g k (Some result_type)) v) (\<lambda>v.
      bind (append_vars (gen_uni g result_type False) v) (\<lambda>v.
      bind (append_stores (\<lambda>a. gen_field_store g a is_flat storer_type) v (cb_args k)) (\<lambda>v.
      append_out (gen_store_function_end g v storer_type))))))"

text \<open>\<open>TL_writer::gen_field_type\<close> (tl_writer.cpp), over the functions for names that it calls; they may abort.\<close>

definition field_type_by :: "tl_config \<Rightarrow> string \<Rightarrow> (tl_tree \<Rightarrow> fault + string) \<Rightarrow> (tl_tree \<Rightarrow> string \<Rightarrow> fault + string) \<Rightarrow> tl_arg \<Rightarrow> fault + string" where
  "field_type_by c var_type_name type_name array_type_name a =
     (let f = a_flags a; T = a_type a in
      if f AND FLAG_EXCL_core \<noteq> 0 then
        (if f = FLAG_EXCL_core \<and> node_type T = NODE_TYPE_VAR_TYPE then Inr var_type_name else Inl Assertion)
      else if \<not> (f = FLAG_NOVAR \<or> f = 0 \<or> f = FLAG_OPT_VAR_core OR FLAG_NOVAR OR FLAG_BARE) then Inl Assertion
      else if node_type T = NODE_TYPE_TYPE then
        (if int (length (t_children T)) \<noteq> ct_arity (cf_types c ! t_type T) then Inl Assertion
         else if ct_id (cf_types c ! t_type T) = ID_VAR_TYPE then Inr []
         else type_name T)
      else if (f = FLAG_NOVAR \<or> f = 0) \<and> node_type T = NODE_TYPE_ARRAY \<and> t_flags T AND NOT FLAG_NOVAR = 0
        then array_type_name T (a_name a)
      else Inl Assertion)"

definition gen_field_type :: "tl_config \<Rightarrow> generator \<Rightarrow> tl_arg \<Rightarrow> fault + string" where
  "gen_field_type c g =
     field_type_by c (gen_var_type_name g) (\<lambda>T. Inr (gen_type_name g T)) (\<lambda>T name. Inr (gen_array_type_name g T name))"

primrec gen_field_definitions :: "tl_config \<Rightarrow> generator \<Rightarrow> tl_combinator \<Rightarrow> string \<Rightarrow> tl_arg list \<Rightarrow> int emit" where
  "gen_field_definitions c g k class_name [] = ret 0"
| "gen_field_definitions c g k class_name (a # as) =
     bind (check (-1 \<le> a_var_num a \<and> a_var_num a < cb_var_count k)) (\<lambda>_.
     bind (lift (gen_field_type c g a)) (\<lambda>type_name.
     bind (if type_name \<noteq> [] then append_out (gen_field_definition g class_name type_name (gen_field_name g (a_name a)))
           else ret ()) (\<lambda>_.
     bind (gen_field_definitions c g k class_name as) (\<lambda>n.
     ret (of_bool (a_flags a AND FLAG_OPT_VAR_core = 0) + n)))))"

definition supported_check :: "TL_writer \<Rightarrow> tl_config \<Rightarrow> tl_combinator \<Rightarrow> bool emit" where
  "supported_check w c k = lift (combinator_supported w c k)"

definition emit_result :: "tl_combinator \<Rightarrow> tl_tree emit" where
  "emit_result k = (case cb_result k of None \<Rightarrow> raise NullDeref | Some T \<Rightarrow> ret T)"

primrec write_stores :: "(string \<Rightarrow> vars \<Rightarrow> vars emit) \<Rightarrow> string list \<Rightarrow> vars \<Rightarrow> vars emit" where
  "write_stores f [] v = ret v"
| "write_stores f (x # xs) v = bind (f x v) (\<lambda>v'. write_stores f xs v')"

definition write_class_constructors :: "generator \<Rightarrow> tl_combinator \<Rightarrow> string \<Rightarrow> int \<Rightarrow> bool \<Rightarrow> bool \<Rightarrow> unit emit" where
  "write_class_constructors g k class_name required_args can_be_parsed can_be_stored =
     bind (if is_default_constructor_generated g k can_be_parsed can_be_stored
           then write_class_constructor g k class_name True else ret ()) (\<lambda>_.
     if required_args \<noteq> 0 \<and> is_full_constructor_generated g k can_be_parsed can_be_stored
     then write_class_constructor g k class_name False else ret ())"

definition write_function_class :: "TL_writer \<Rightarrow> tl_config \<Rightarrow> generator \<Rightarrow> reach \<Rightarrow> tl_combinator \<Rightarrow> unit emit" where
  "write_function_class w c g r k =
     bind (supported_check w c k) (\<lambda>b.
     bind (check b) (\<lambda>_.
     let class_name = gen_class_name g (cb_name k) in
     bind (append_out (gen_class_begin g class_name (gen_base_function_class_name g) False)) (\<lambda>_.
     bind (gen_field_definitions c g k class_name (cb_args k)) (\<lambda>required_args.
     bind (append_out (gen_flags_definitions g k True)) (\<lambda>_.
     bind (append_vars (gen_function_vars g k) (new_vars k)) (\<lambda>v.
     bind (write_class_constructors g k class_name required_args False True) (\<lambda>_.
     bind (append_out (gen_get_id g class_name (cb_id k) False)) (\<lambda>_.
     bind (emit_result k) (\<lambda>result.
     bind (append_out (gen_function_result_type g result)) (\<lambda>_.
     bind (iterate (write_function_fetch w g r k class_name) (get_parsers g)) (\<lambda>_.
     bind (write_stores (write_function_store w g r k class_name) (get_storers g) v) (\<lambda>v.
     bind (iterate (\<lambda>p. if get_parser_mode w (-1) = mode_Server then ret ()
                        else write_function_result_fetch g k class_name result v p) (get_parsers g)) (\<lambda>_.
     bind (iterate (\<lambda>f. append_out (gen_additional_function g f k True)) (get_additional_functions g)) (\<lambda>_.
     append_out (gen_class_end g)))))))))))))))"

definition can_be_parsed :: "TL_writer \<Rightarrow> generator \<Rightarrow> reach \<Rightarrow> tl_combinator \<Rightarrow> bool" where
  "can_be_parsed w g r k =
     (let ts = filter (\<lambda>t. get_parser_mode w t \<noteq> mode_All) (map (get_parser_type g k) (get_parsers g)) in
      ts = [] \<or> list_ex (\<lambda>t. reachable_parser w t (cb_name k) r) ts)"

definition can_be_stored :: "TL_writer \<Rightarrow> generator \<Rightarrow> reach \<Rightarrow> tl_combinator \<Rightarrow> bool" where
  "can_be_stored w g r k =
     (let ts = filter (\<lambda>t. get_storer_mode w t \<noteq> mode_All) (map (get_storer_type g k) (get_storers g)) in
      ts = [] \<or> list_ex (\<lambda>t. reachable_storer w t (cb_name k) r) ts)"

definition write_constructor_class ::
  "TL_writer \<Rightarrow> tl_config \<Rightarrow> generator \<Rightarrow> reach \<Rightarrow> tl_combinator \<Rightarrow> string \<Rightarrow> string \<Rightarrow> bool \<Rightarrow> unit emit" where
  "write_constructor_class w c g r k base_class parent_class is_proxy =
     bind (supported_check w c k) (\<lambda>b.
     bind (check b) (\<lambda>_.
     let class_name = gen_class_name g (cb_name k) in
     bind (append_out (gen_class_begin g class_name base_class is_proxy)) (\<lambda>_.
     bind (gen_field_definitions c g k class_name (cb_args k)) (\<lambda>required_args.
     bind (append_out (gen_flags_definitions g k (can_be_stored w g r k))) (\<lambda>_.
     bind (write_class_constructors g k class_name required_args (can_be_parsed w g r k) (can_be_stored w g r k)) (\<lambda>_.
     bind (append_out (gen_get_id g class_name (cb_id k) False)) (\<lambda>_.
     bind (emit_result k) (\<lambda>result.
     bind (check (node_type result = NODE_TYPE_TYPE)) (\<lambda>_.
     let is_flat = required_args = 1 \<and> ct_simple_constructors (cf_types c ! t_type result) = 1 in
     bind (iterate (write_constructor_fetch w g r k class_name parent_class result is_flat) (get_parsers g)) (\<lambda>_.
     bind (iterate (write_constructor_store w g r k class_name result is_flat) (get_storers g)) (\<lambda>_.
     bind (iterate (\<lambda>f. append_out (gen_additional_function g f k False)) (get_additional_functions g)) (\<lambda>_.
     append_out (gen_class_end g)))))))))))))"

subsection \<open>Types\<close>

text \<open>Loops over combinators that skip the unsupported ones.\<close>

definition if_supported :: "TL_writer \<Rightarrow> tl_config \<Rightarrow> (tl_combinator \<Rightarrow> unit emit) \<Rightarrow> tl_combinator \<Rightarrow> unit emit" where
  "if_supported w c f k = bind (supported_check w c k) (\<lambda>b. if b then f k else ret ())"

definition write_type_fetch :: "TL_writer \<Rightarrow> tl_config \<Rightarrow> generator \<Rightarrow> reach \<Rightarrow> tl_ctype \<Rightarrow> string \<Rightarrow> string \<Rightarrow> unit emit" where
  "write_type_fetch w c g r t class_name parser =
     (if \<not> reachable_parser w (-1) (ct_name t) r then ret () else
      bind (append_shared (gen_fetch_function_begin g parser class_name class_name (ct_arity t) (-1) (-1))) (\<lambda>_.
      bind (append_out (gen_fetch_switch_begin g)) (\<lambda>_.
      bind (iterate (if_supported w c (\<lambda>k. append_out (gen_fetch_switch_case g k (ct_arity t)))) (ct_constructors t)) (\<lambda>_.
      bind (append_out (gen_fetch_switch_end g)) (\<lambda>_.
      append_end (\<lambda>v. gen_fetch_function_end g False (-1) v (-1)))))))"

definition write_type_store :: "TL_writer \<Rightarrow> generator \<Rightarrow> reach \<Rightarrow> tl_ctype \<Rightarrow> string \<Rightarrow> string \<Rightarrow> unit emit" where
  "write_type_store w g r t class_name storer =
     (if \<not> reachable_storer w (-1) (ct_name t) r then ret () else
      bind (append_shared (gen_store_function_begin g storer class_name (ct_arity t) (-1))) (\<lambda>_.
      append_end (\<lambda>v. gen_store_function_end g v (-1))))"

definition write_type_additional :: "TL_writer \<Rightarrow> tl_config \<Rightarrow> generator \<Rightarrow> nat \<Rightarrow> tl_ctype \<Rightarrow> string \<Rightarrow> string \<Rightarrow> unit emit" where
  "write_type_additional w c g i t class_name f =
     bind (append_out (gen_additional_proxy_function_begin g f (Some i) class_name (ct_arity t) False)) (\<lambda>_.
     bind (iterate (if_supported w c (\<lambda>k. append_out (gen_additional_proxy_function_case g f (Some i) k (ct_arity t) False)))
       (ct_constructors t)) (\<lambda>_.
     append_out (gen_additional_proxy_function_end g f (Some i) False)))"

text \<open>The loop over the constructors returns \<open>written_constructors\<close>.\<close>

primrec write_constructors ::
  "TL_writer \<Rightarrow> tl_config \<Rightarrow> generator \<Rightarrow> reach \<Rightarrow> bool \<Rightarrow> string \<Rightarrow> string \<Rightarrow> tl_combinator list \<Rightarrow> int emit" where
  "write_constructors w c g r one base_class class_name [] = ret 0"
| "write_constructors w c g r one base_class class_name (k # ks) =
     bind (supported_check w c k) (\<lambda>b.
     bind (if b then
             (if one then
                (let cn = gen_class_name g (cb_name k) in
                 bind (write_constructor_class w c g r k base_class cn False) (\<lambda>_.
                 append_out (gen_class_alias g cn class_name)))
              else write_constructor_class w c g r k class_name class_name False)
           else ret ()) (\<lambda>_.
     bind (write_constructors w c g r one base_class class_name ks) (\<lambda>n. ret (of_bool b + n))))"

definition write_class :: "TL_writer \<Rightarrow> tl_config \<Rightarrow> generator \<Rightarrow> reach \<Rightarrow> nat \<Rightarrow> unit emit" where
  "write_class w c g r i =
     (let t = cf_types c ! i;
          base_class = gen_base_type_class_name g (ct_arity t);
          class_name = gen_class_name g (ct_name t);
          optimize_one_constructor = ct_simple_constructors t = 1 in
      bind (check (0 < ct_constructors_num t)) (\<lambda>_.
      bind (check (\<not> is_built_in_simple_type w (ct_name t) \<and> \<not> is_built_in_complex_type w (ct_name t))) (\<lambda>_.
      bind (check (ct_flags t AND FLAG_COMPLEX = 0)) (\<lambda>_.
      bind (check (0 \<le> ct_arity t)) (\<lambda>_.
      bind (check (0 < ct_simple_constructors t)) (\<lambda>_.
      bind (check (ct_flags t = 0)) (\<lambda>_.
      bind (modify (\<lambda>s. s\<lparr>empty_vars := []\<rparr>)) (\<lambda>_.
      bind (if \<not> optimize_one_constructor then
              bind (append_out (gen_class_begin g class_name base_class True)) (\<lambda>_.
              bind (append_out (gen_get_id g class_name 0 True)) (\<lambda>_.
              bind (iterate (write_type_fetch w c g r t class_name) (get_parsers g)) (\<lambda>_.
              bind (iterate (write_type_store w g r t class_name) (get_storers g)) (\<lambda>_.
              bind (iterate (write_type_additional w c g i t class_name) (get_additional_functions g)) (\<lambda>_.
              append_out (gen_class_end g))))))
            else ret ()) (\<lambda>_.
      bind (write_constructors w c g r optimize_one_constructor base_class class_name (ct_constructors t)) (\<lambda>written.
      check (written = ct_simple_constructors t)))))))))))"

subsection \<open>The whole file (write_tl)\<close>

definition is_generated :: "TL_writer \<Rightarrow> tl_ctype \<Rightarrow> bool" where
  "is_generated w t \<longleftrightarrow> \<not> (is_leaf_type w t \<or> ct_flags t AND FLAG_COMPLEX \<noteq> 0)"

definition each_generated :: "TL_writer \<Rightarrow> tl_config \<Rightarrow> (nat \<Rightarrow> unit emit) \<Rightarrow> unit emit" where
  "each_generated w c f = iterate (\<lambda>i. if is_generated w (cf_types c ! i) then f i else ret ()) [0..<types_n c]"

definition write_forward :: "TL_writer \<Rightarrow> tl_config \<Rightarrow> generator \<Rightarrow> nat \<Rightarrow> unit emit" where
  "write_forward w c g i =
     (let t = cf_types c ! i in
      bind (check (ct_flags t = 0)) (\<lambda>_.
      if ct_simple_constructors t \<noteq> 1 then append_out (gen_forward_class_declaration g (gen_class_name g (ct_name t)) True)
      else iterate (if_supported w c (\<lambda>k. append_out (gen_forward_class_declaration g (gen_class_name g (cb_name k)) False)))
             (ct_constructors t)))"

definition arities :: "generator \<Rightarrow> int list" where
  "arities g = [0..get_max_arity g]"

text \<open>The constructors of the generated types of one arity, with the supported and reachable ones counted (\<open>case_count\<close>).\<close>

primrec count_cases :: "TL_writer \<Rightarrow> tl_config \<Rightarrow> reach \<Rightarrow> tl_combinator list \<Rightarrow> nat emit" where
  "count_cases w c r [] = ret 0"
| "count_cases w c r (k # ks) =
     bind (supported_check w c k) (\<lambda>b.
     bind (count_cases w c r ks) (\<lambda>n. ret (of_bool (b \<and> reachable_parser w (-1) (cb_name k) r) + n)))"

definition arity_constructors :: "TL_writer \<Rightarrow> tl_config \<Rightarrow> int \<Rightarrow> tl_combinator list" where
  "arity_constructors w c a =
     concat (map ct_constructors (filter (\<lambda>t. is_generated w t \<and> ct_arity t = a) (cf_types c)))"

definition write_base_fetch :: "TL_writer \<Rightarrow> tl_config \<Rightarrow> generator \<Rightarrow> reach \<Rightarrow> int \<Rightarrow> string \<Rightarrow> unit emit" where
  "write_base_fetch w c g r a parser =
     bind (count_cases w c r (arity_constructors w c a)) (\<lambda>case_count.
     if case_count = 0 then ret () else
     let base = gen_base_type_class_name g a in
     bind (append_shared (gen_fetch_function_begin g parser base base a (-1) (-1))) (\<lambda>_.
     bind (append_out (gen_fetch_switch_begin g)) (\<lambda>_.
     bind (iterate (if_supported w c (\<lambda>k. if reachable_parser w (-1) (cb_name k) r
         then append_out (gen_fetch_switch_case g k a) else ret ())) (arity_constructors w c a)) (\<lambda>_.
     bind (append_out (gen_fetch_switch_end g)) (\<lambda>_.
     append_end (\<lambda>v. gen_fetch_function_end g False (-1) v (-1)))))))"

definition write_base_case :: "TL_writer \<Rightarrow> tl_config \<Rightarrow> generator \<Rightarrow> int \<Rightarrow> string \<Rightarrow> nat \<Rightarrow> unit emit" where
  "write_base_case w c g a f i =
     (let t = cf_types c ! i; function_type = get_additional_function_type g f in
      if ct_arity t \<noteq> a then ret () else
      bind (if function_type mod 2 = 1 \<and> ct_simple_constructors t \<noteq> 1
            then append_out (gen_additional_proxy_function_case_class g f None (gen_class_name g (ct_name t)) a) else ret ()) (\<lambda>_.
      if function_type div 2 mod 2 = 1 \<or> (function_type mod 2 = 1 \<and> ct_simple_constructors t = 1)
      then iterate (if_supported w c (\<lambda>k. append_out (gen_additional_proxy_function_case g f None k a False))) (ct_constructors t)
      else ret ()))"

definition write_base_class :: "TL_writer \<Rightarrow> tl_config \<Rightarrow> generator \<Rightarrow> reach \<Rightarrow> int \<Rightarrow> unit emit" where
  "write_base_class w c g r a =
     (let base = gen_base_type_class_name g a in
      bind (append_out (gen_class_begin g base (gen_base_tl_class_name g) True)) (\<lambda>_.
      bind (append_out (gen_get_id g base 0 True)) (\<lambda>_.
      bind (iterate (write_base_fetch w c g r a) (get_parsers g)) (\<lambda>_.
      bind (iterate (\<lambda>f.
          bind (append_out (gen_additional_proxy_function_begin g f None base a False)) (\<lambda>_.
          bind (each_generated w c (write_base_case w c g a f)) (\<lambda>_.
          append_out (gen_additional_proxy_function_end g f None False)))) (get_additional_functions g)) (\<lambda>_.
      bind (iterate (\<lambda>s. bind (append_shared (gen_store_function_begin g s base a (-1))) (\<lambda>_.
          append_end (\<lambda>v. gen_store_function_end g v (-1)))) (get_storers g)) (\<lambda>_.
      append_out (gen_class_end g)))))))"

definition write_function_base :: "TL_writer \<Rightarrow> tl_config \<Rightarrow> generator \<Rightarrow> unit emit" where
  "write_function_base w c g =
     (let base = gen_base_function_class_name g in
      bind (append_out (gen_class_begin g base (gen_base_tl_class_name g) True)) (\<lambda>_.
      bind (append_out (gen_get_id g base 0 True)) (\<lambda>_.
      bind (iterate (\<lambda>p. if get_parser_mode w (-1) = mode_Client then ret () else
          bind (append_shared (gen_fetch_function_begin g p base base 0 (-1) (-1))) (\<lambda>_.
          bind (append_out (gen_fetch_switch_begin g)) (\<lambda>_.
          bind (iterate (if_supported w c (\<lambda>k. append_out (gen_fetch_switch_case g k 0))) (cf_functions c)) (\<lambda>_.
          bind (append_out (gen_fetch_switch_end g)) (\<lambda>_.
          append_end (\<lambda>v. gen_fetch_function_end g False (-1) v (-1))))))) (get_parsers g)) (\<lambda>_.
      bind (iterate (\<lambda>s. if get_storer_mode w (-1) = mode_Server then ret () else
          bind (append_shared (gen_store_function_begin g s base 0 (-1))) (\<lambda>_.
          append_end (\<lambda>v. gen_store_function_end g v (-1)))) (get_storers g)) (\<lambda>_.
      bind (iterate (\<lambda>p. if get_parser_mode w (-1) = mode_Server then ret () else
          bind (append_out (gen_fetch_function_result_any_begin g p base True)) (\<lambda>_.
          append_out (gen_fetch_function_result_any_end g True))) (get_parsers g)) (\<lambda>_.
      bind (iterate (\<lambda>f.
          bind (append_out (gen_additional_proxy_function_begin g f None base 0 True)) (\<lambda>_.
          bind (iterate (if_supported w c (\<lambda>k. append_out (gen_additional_proxy_function_case g f None k 0 True)))
            (cf_functions c)) (\<lambda>_.
          append_out (gen_additional_proxy_function_end g f None True)))) (get_additional_functions g)) (\<lambda>_.
      append_out (gen_class_end g))))))))"

text \<open>
  The last two loops. The first one reports complex types and writes the others; a type that is built in or has no constructors is
  skipped before.
\<close>

definition write_types_and_functions :: "TL_writer \<Rightarrow> tl_config \<Rightarrow> generator \<Rightarrow> reach \<Rightarrow> unit emit" where
  "write_types_and_functions w c g r =
     bind (iterate (\<lambda>i. if is_leaf_type w (cf_types c ! i) then ret ()
         else if is_complex c i then ret () else write_class w c g r i) [0..<types_n c]) (\<lambda>_.
     iterate (if_supported w c (write_function_class w c g r)) (cf_functions c))"

definition write_body :: "TL_writer \<Rightarrow> tl_config \<Rightarrow> generator \<Rightarrow> reach \<Rightarrow> unit emit" where
  "write_body w c g r =
     bind (each_generated w c (write_forward w c g)) (\<lambda>_.
     bind (iterate (\<lambda>a. append_out (gen_forward_class_declaration g (gen_base_type_class_name g a) True)) (arities g)) (\<lambda>_.
     bind (iterate (if_supported w c (\<lambda>_. ret ())) (cf_functions c)) (\<lambda>_.
     bind (modify (\<lambda>s. s\<lparr>empty_vars := []\<rparr>)) (\<lambda>_.
     bind (iterate (write_base_class w c g r) (arities g)) (\<lambda>_.
     bind (write_function_base w c g) (\<lambda>_.
     bind (write_types_and_functions w c g r) (\<lambda>_.
     append_out (gen_output_end g))))))))"

text \<open>The text functions may read the configuration as the analysis leaves it.\<close>

definition write_tl :: "TL_writer \<Rightarrow> (tl_config \<Rightarrow> generator) \<Rightarrow> string gen" where
  "write_tl w gen =
     bind (gets (\<lambda>c. gen_output_begin (gen c))) (\<lambda>begin.
     bind (tl_analysis w) (\<lambda>r.
     bind (gets (\<lambda>c. write_body w c (gen c) r \<lparr>emitted = begin, empty_vars = []\<rparr>)) (\<lambda>res.
     bind (lift res) (\<lambda>(_, s).
     bind remove_complex (\<lambda>_. ret (emitted s))))))"

end
