(* ===== verification/TL_Written.thy ===== *)
theory TL_Written
  imports TL_Format TL_Emit
begin

section \<open>A file that was analysed can be written\<close>

text \<open>
  \<open>returns m Q\<close> says that a computation returns from every state, with a result that has \<open>Q\<close>. It is carried through the writing phase
  of \<open>write_tl\<close>: what the assertions there check follows from what the reader guarantees, from the support test and from the counters and marks
  that the analysis leaves. The properties at the end are about whole runs of the generator.
\<close>

unbundle bit_operations_syntax

subsection \<open>Computations that return\<close>

definition returns :: "('s, 'a) comp \<Rightarrow> ('a \<Rightarrow> bool) \<Rightarrow> bool" where
  "returns m Q \<longleftrightarrow> (\<forall>s. \<exists>x t. m s = Inr (x, t) \<and> Q x)"

abbreviation finishes :: "('s, 'a) comp \<Rightarrow> bool" where
  "finishes m \<equiv> returns m (\<lambda>_. True)"

lemma returns_basic: "Q x \<Longrightarrow> returns (ret x) Q" "b \<Longrightarrow> finishes (check b)" "finishes (modify f)" "finishes (gets g)" "r = Inr x \<Longrightarrow> Q x \<Longrightarrow> returns (lift r) Q"
  by (auto simp: returns_def)

lemma returns_bind: "returns m P \<Longrightarrow> (\<And>x. P x \<Longrightarrow> returns (f x) Q) \<Longrightarrow> returns (bind m f) Q"
  unfolding returns_def bind_apply by (metis (no_types, lifting) case_prod_conv sum.case(2))

lemma returns_if: "(b \<Longrightarrow> returns m Q) \<Longrightarrow> (\<not> b \<Longrightarrow> returns n Q) \<Longrightarrow> returns (if b then m else n) Q"
  by simp

lemma returns_case_prod: "(\<And>x y. returns (f x y) Q) \<Longrightarrow> returns (case p of (x, y) \<Rightarrow> f x y) Q"
  by (cases p) simp

lemma done_iterate: "(\<And>x. x \<in> set xs \<Longrightarrow> finishes (f x)) \<Longrightarrow> finishes (iterate f xs)"
  by (induction xs) (auto intro!: returns_basic returns_bind)

lemma done_append: "finishes (append_out x)" "finishes (append_vars f v)" "finishes (append_shared f)" "finishes (append_end h)"
  by (auto simp: append_out_def append_vars_def append_shared_def append_end_def intro!: returns_bind returns_basic)

lemma done_stores: "finishes (append_stores f v as)"
  by (induction as arbitrary: v) (auto intro!: returns_basic returns_bind[OF done_append(2)])

lemma done_fetches: "finishes (append_fetches f n v as)"
  by (induction as arbitrary: n v)
    (auto intro!: returns_basic returns_if returns_bind[OF done_append(1)] split: prod.split)

lemma append_fields_count: "returns (append_fields f n as) (\<lambda>m. m = count_fields f n as)"
  by (induction as arbitrary: n) (auto intro!: returns_basic returns_bind[OF done_append(1)])

lemma done_class_constructor: "finishes (write_class_constructor g k class_name is_default)"
  unfolding write_class_constructor_def Let_def
  by (intro returns_bind[OF done_append(1)] returns_bind[OF append_fields_count] returns_bind[OF returns_basic(2)] done_append(1))

lemma done_class_constructors: "finishes (write_class_constructors g k cn n p s)"
  unfolding write_class_constructors_def
  by (intro returns_bind[where P = "\<lambda>_. True"] returns_if done_class_constructor returns_basic) simp_all

lemma done_function_fetch: "finishes (write_function_fetch w g r k cn p)"
  unfolding write_function_fetch_def Let_def
  by (intro returns_if returns_bind[OF done_append(2)] returns_bind[OF done_fetches] returns_case_prod done_append returns_basic) simp

lemma done_function_store: "finishes (write_function_store w g r k cn p v)"
  unfolding write_function_store_def Let_def
  by (intro returns_if returns_bind[OF done_append(2)] returns_bind[OF done_append(1)] returns_bind[OF done_stores] returns_basic) simp_all

lemma done_constructor_fetch: "finishes (write_constructor_fetch w g r k cn pn rt fl p)"
  unfolding write_constructor_fetch_def Let_def
  by (intro returns_if returns_bind[OF done_append(2)] returns_bind[OF done_fetches] returns_case_prod done_append returns_basic) simp

lemma done_constructor_store: "finishes (write_constructor_store w g r k cn rt fl p)"
  unfolding write_constructor_store_def Let_def
  by (intro returns_if returns_bind[OF done_append(2)] returns_bind[OF done_stores] done_append returns_basic) simp

lemma done_write_stores: "(\<And>x v. finishes (f x v)) \<Longrightarrow> finishes (write_stores f xs v)"
  by (induction xs arbitrary: v) (auto intro!: returns_basic returns_bind)

subsection \<open>Combinators that can be written\<close>

text \<open>The flags an argument of a generated class may have.\<close>

definition arg_flags_ok :: "tl_arg \<Rightarrow> bool" where
  "arg_flags_ok a \<longleftrightarrow>
     (if a_flags a AND FLAG_EXCL_core \<noteq> 0 then a_flags a = FLAG_EXCL_core \<and> node_type (a_type a) = NODE_TYPE_VAR_TYPE
      else a_flags a = FLAG_NOVAR \<or> a_flags a = 0 \<or>
        (a_flags a = FLAG_OPT_VAR_core OR FLAG_NOVAR OR FLAG_BARE \<and> node_type (a_type a) = NODE_TYPE_TYPE))"

definition args_writable :: "tl_combinator \<Rightarrow> bool" where
  "args_writable k \<longleftrightarrow> (\<forall>a \<in> set (cb_args k). arg_flags_ok a \<and> -1 \<le> a_var_num a)"

text \<open>What the support test of \<open>TD_TL_writer\<close> tells.\<close>

lemma every_True: "every f xs s = Inr (True, t) \<Longrightarrow> x \<in> set xs \<Longrightarrow> \<exists>s' t'. f x s' = Inr (True, t')"
proof (induction xs arbitrary: s)
  case (Cons y ys)
  from Cons.prems(1) obtain s1 where "f y s = Inr (True, s1)" "every f ys s1 = Inr (True, t)"
    by (auto split: if_splits)
  with Cons show ?case by auto
qed simp

lemma td_supported_shape:
  assumes "td_combinator_supported c k = Inr True"
  shows "a \<in> set (cb_args k) \<Longrightarrow> node_type (a_type a) = NODE_TYPE_TYPE \<or> node_type (a_type a) = NODE_TYPE_ARRAY"
    and "\<exists>T. cb_result k = Some T \<and> (node_type T = NODE_TYPE_TYPE \<or> node_type T = NODE_TYPE_VAR_TYPE)"
proof -
  from assms have s: "is_combinator_supported c k = Inr True" "list_all (\<lambda>a. node_type (a_type a) \<noteq> NODE_TYPE_VAR_TYPE) (cb_args k)"
    by (auto simp: td_combinator_supported_def split: sum.splits)
  then obtain r1 r2 t where e: "every (is_arg_supported c) (cb_args k) r1 = Inr (True, r2)"
      "is_result_supported c (cb_result k) r2 = Inr (True, t)"
    unfolding is_combinator_supported_def by (auto split: sum.splits if_splits elim!: bind_InrE)
  show "node_type (a_type a) = NODE_TYPE_TYPE \<or> node_type (a_type a) = NODE_TYPE_ARRAY" if "a \<in> set (cb_args k)"
  proof -
    from every_True[OF e(1) that] obtain s' t' where "is_arg_supported c a s' = Inr (True, t')" by blast
    moreover have "node_type (a_type a) \<noteq> NODE_TYPE_VAR_TYPE" using s(2) that by (simp add: list_all_iff)
    ultimately show ?thesis
      by (auto simp: is_arg_supported_def is_type_arg_def split: if_splits elim!: bind_InrE)
  qed
  show "\<exists>T. cb_result k = Some T \<and> (node_type T = NODE_TYPE_TYPE \<or> node_type T = NODE_TYPE_VAR_TYPE)"
    using e(2) by (auto simp: is_result_supported_def split: option.splits if_splits)
qed

lemma gen_field_type_returns:
  assumes "arg_flags_ok a" and "node_type (a_type a) = NODE_TYPE_TYPE \<or> node_type (a_type a) = NODE_TYPE_ARRAY"
    and "node_ok c (a_type a)"
  shows "\<exists>x. gen_field_type c g a = Inr x"
proof -
  have e: "a_flags a AND FLAG_EXCL_core = 0"
    and f: "a_flags a = FLAG_NOVAR \<or> a_flags a = 0 \<or>
      (a_flags a = FLAG_OPT_VAR_core OR FLAG_NOVAR OR FLAG_BARE \<and> node_type (a_type a) = NODE_TYPE_TYPE)"
    using assms(1,2) by (auto simp: arg_flags_ok_def node_types split: if_splits)
  show ?thesis
  proof (cases "a_type a")
    case (tl_tree_type fl t cs)
    with f assms(3) show ?thesis by (simp add: gen_field_type_def field_type_by_def Let_def e node_ok_def)
  next
    case (tl_tree_array fl m as)
    with f assms(3) show ?thesis by (simp add: gen_field_type_def field_type_by_def Let_def e node_ok_def node_types) blast
  qed (use assms(2) in \<open>simp_all add: node_types\<close>)
qed

lemma finishes_fields:
  assumes "\<And>a. a \<in> set as \<Longrightarrow> -1 \<le> a_var_num a \<and> a_var_num a < cb_var_count k \<and> (\<exists>x. gen_field_type c g a = Inr x)"
  shows "finishes (gen_field_definitions c g k cn as)"
  using assms
proof (induction as)
  case (Cons a as)
  then obtain x where x: "gen_field_type c g a = Inr x" by auto
  show ?case unfolding gen_field_definitions.simps
    using Cons by (intro returns_bind[OF returns_basic(2)] returns_bind[OF returns_basic(5)[OF x TrueI]]
        returns_bind[where P = "\<lambda>_. True"] returns_if done_append returns_basic) auto
qed (simp add: returns_def)

text \<open>A combinator that was judged, was read, and whose arguments can be written.\<close>

definition td_ready :: "tl_config \<Rightarrow> tl_combinator \<Rightarrow> bool" where
  "td_ready c k \<longleftrightarrow> comb_ok c k \<and> args_writable k \<and> (\<exists>b. td_combinator_supported c k = Inr b)"

lemma finishes_definitions:
  assumes "td_ready c k" and "td_combinator_supported c k = Inr True"
  shows "finishes (gen_field_definitions c g k cn (cb_args k))"
proof (rule finishes_fields)
  fix a assume a: "a \<in> set (cb_args k)"
  then have "arg_ok c (cb_var_count k) a" "arg_flags_ok a" "-1 \<le> a_var_num a"
    using assms(1) by (auto simp: td_ready_def comb_ok_def args_writable_def)
  with td_supported_shape(1)[OF assms(2) a] gen_field_type_returns[of a c g]
  show "-1 \<le> a_var_num a \<and> a_var_num a < cb_var_count k \<and> (\<exists>x. gen_field_type c g a = Inr x)"
    by (simp add: arg_ok_def tree_ok_def)
qed

lemma td_supported_field [simp]: "combinator_supported (TD_TL_writer nm) = td_combinator_supported"
  by (simp add: TD_TL_writer_def)

lemma returns_supported: "td_combinator_supported c k = Inr b \<Longrightarrow> returns (supported_check (TD_TL_writer nm) c k) (\<lambda>x. x = b)"
  by (simp add: supported_check_def returns_def)

lemma finishes_result_fetch:
  assumes "td_combinator_supported c k = Inr True" and "cb_result k = Some T"
  shows "finishes (write_function_result_fetch g k cn T v p)"
proof -
  have "finishes (write_var_fetch g n a)" if "a \<in> set (cb_args k)" for n a
    using td_supported_shape(1)[OF assms(1) that] by (auto simp: write_var_fetch_def node_types returns_def)
  moreover have "node_type T = NODE_TYPE_TYPE \<or> node_type T = NODE_TYPE_VAR_TYPE"
    using td_supported_shape(2)[OF assms(1)] assms(2) by auto
  ultimately show ?thesis
    unfolding write_function_result_fetch_def Let_def
    by (intro returns_bind[OF done_append(1)] returns_bind[where P = "\<lambda>_. True"] returns_if done_iterate done_append
        returns_basic) auto
qed

lemma emit_result_returns: "cb_result k = Some T \<Longrightarrow> returns (emit_result k) (\<lambda>x. x = T)"
  by (simp add: emit_result_def returns_def)

lemma finishes_function:
  assumes "td_ready c k" and "td_combinator_supported c k = Inr True"
  shows "finishes (write_function_class (TD_TL_writer nm) c g r k)"
proof -
  obtain T where T: "cb_result k = Some T" using assms(1) by (auto simp: td_ready_def comb_ok_def)
  show ?thesis
    unfolding write_function_class_def Let_def
    by (intro returns_bind[OF returns_supported[OF assms(2)]] returns_bind[OF returns_basic(2)] returns_bind[OF done_append(1)]
        returns_bind[OF finishes_definitions[OF assms]] returns_bind[OF done_append(2)] returns_bind[OF done_class_constructors]
        returns_bind[OF emit_result_returns[OF T]] returns_bind[OF done_iterate] returns_bind[OF done_write_stores]
        returns_if returns_basic done_append done_function_fetch done_function_store)
      (auto intro: finishes_result_fetch[OF assms(2) T])
qed

lemma finishes_constructor:
  assumes "td_ready c k" and "td_combinator_supported c k = Inr True" and "cb_result k = Some T" and "node_type T = NODE_TYPE_TYPE"
  shows "finishes (write_constructor_class (TD_TL_writer nm) c g r k base parent is_proxy)"
  unfolding write_constructor_class_def Let_def
  by (intro returns_bind[OF returns_supported[OF assms(2)]] returns_bind[OF returns_basic(2)] returns_bind[OF done_append(1)]
      returns_bind[OF finishes_definitions[OF assms(1,2)]] returns_bind[OF done_class_constructors]
      returns_bind[OF emit_result_returns[OF assms(3)]] returns_bind[OF done_iterate]
      returns_basic done_append done_constructor_fetch done_constructor_store) (simp_all add: assms(4))

lemma finishes_if_supported:
  assumes "td_ready c k" and "td_combinator_supported c k = Inr True \<Longrightarrow> finishes (f k)"
  shows "finishes (if_supported (TD_TL_writer nm) c f k)"
proof -
  obtain b where b: "td_combinator_supported c k = Inr b" using assms(1) by (auto simp: td_ready_def)
  show ?thesis unfolding if_supported_def
    by (intro returns_bind[OF returns_supported[OF b]] returns_if returns_basic assms(2)) (simp_all add: b)
qed

subsection \<open>Types that can be written\<close>

definition constructors_ready :: "tl_config \<Rightarrow> tl_ctype \<Rightarrow> bool" where
  "constructors_ready c t \<longleftrightarrow> (\<forall>k \<in> set (ct_constructors t). td_ready c k \<and>
     (\<exists>T. cb_result k = Some T \<and> node_type T = NODE_TYPE_TYPE))"

definition td_class_ready :: "tl_config \<Rightarrow> tl_ctype \<Rightarrow> bool" where
  "td_class_ready c t \<longleftrightarrow> constructors_ready c t \<and> ct_flags t = 0 \<and> 0 \<le> ct_arity t \<and> 0 < ct_simple_constructors t \<and>
     ct_simple_constructors t = int (length (filter (\<lambda>k. td_combinator_supported c k = Inr True) (ct_constructors t)))"

lemma write_constructors_count:
  assumes "\<And>k. k \<in> set ks \<Longrightarrow> td_ready c k \<and> (\<exists>T. cb_result k = Some T \<and> node_type T = NODE_TYPE_TYPE)"
  shows "returns (write_constructors (TD_TL_writer nm) c g r one base cn ks)
    (\<lambda>n. n = int (length (filter (\<lambda>k. td_combinator_supported c k = Inr True) ks)))"
  using assms
proof (induction ks)
  case Nil
  then show ?case by (simp add: returns_def)
next
  case (Cons k ks)
  from Cons.prems[of k] obtain b T where b: "td_combinator_supported c k = Inr b" and T: "cb_result k = Some T"
      "node_type T = NODE_TYPE_TYPE" and k: "td_ready c k" by (auto simp: td_ready_def)
  have IH: "returns (write_constructors (TD_TL_writer nm) c g r one base cn ks)
      (\<lambda>n. n = int (length (filter (\<lambda>k. td_combinator_supported c k = Inr True) ks)))"
    by (rule Cons.IH) (use Cons.prems in auto)
  have w: "finishes (write_constructor_class (TD_TL_writer nm) c g r k x y z)" if "b" for x y z
    using finishes_constructor[OF k _ T] b that by simp
  have one: "finishes (if b then (if one then bind (write_constructor_class (TD_TL_writer nm) c g r k base cn' False) (\<lambda>_. append_out al)
      else write_constructor_class (TD_TL_writer nm) c g r k cn cn False) else ret ())" for cn' al
    by (intro returns_if returns_bind[OF w] w done_append returns_basic) simp_all
  show ?case
    unfolding write_constructors.simps Let_def
    by (rule returns_bind[OF returns_supported[OF b]], simp only: simp_thms, rule returns_bind[OF one], rule returns_bind[OF IH],
        rule returns_basic(1)) (simp add: b)
qed

lemma finishes_class:
  assumes "td_class_ready c (cf_types c ! i)" and "is_generated (TD_TL_writer nm) (cf_types c ! i)"
  shows "finishes (write_class (TD_TL_writer nm) c g r i)"
proof -
  let ?w = "TD_TL_writer nm" and ?t = "cf_types c ! i"
  have ks: "td_ready c k" "\<exists>T. cb_result k = Some T \<and> node_type T = NODE_TYPE_TYPE" if "k \<in> set (ct_constructors ?t)" for k
    using that assms(1) by (auto simp: td_class_ready_def constructors_ready_def)
  have count: "returns (write_constructors ?w c g r one base cn (ct_constructors ?t)) (\<lambda>n. n = ct_simple_constructors ?t)" for one base cn
    using write_constructors_count[of "ct_constructors ?t" c nm g r one base cn] ks assms(1) by (auto simp: td_class_ready_def)
  have fetch: "finishes (write_type_fetch ?w c g r ?t cn p)" for cn p
    unfolding write_type_fetch_def
    by (intro returns_if returns_bind[OF done_append(3)] returns_bind[OF done_append(1)] returns_bind[OF done_iterate]
        finishes_if_supported ks done_append returns_basic) simp_all
  have store: "finishes (write_type_store ?w g r ?t cn p)" for cn p
    unfolding write_type_store_def by (intro returns_if returns_bind[OF done_append(3)] done_append returns_basic) simp
  have more: "finishes (write_type_additional ?w c g i ?t cn f)" for cn f
    unfolding write_type_additional_def
    by (intro returns_bind[OF done_append(1)] returns_bind[OF done_iterate] finishes_if_supported ks done_append) simp_all
  have head: "finishes (bind (append_out x) (\<lambda>_. bind (append_out y) (\<lambda>_.
      bind (iterate (write_type_fetch ?w c g r ?t cn) ps) (\<lambda>_. bind (iterate (write_type_store ?w g r ?t cn) ss) (\<lambda>_.
      bind (iterate (write_type_additional ?w c g i ?t cn) fs) (\<lambda>_. append_out z))))))" for x y z cn ps ss fs
    by (intro returns_bind[OF done_append(1)] returns_bind[OF done_iterate] fetch store more done_append)
  show ?thesis
    unfolding write_class_def Let_def
    by (intro returns_bind[OF returns_basic(2)] returns_bind[OF returns_basic(3)] returns_bind[OF returns_if[OF head returns_basic(1)]]
        returns_bind[OF count] returns_basic(2))
      (use assms in \<open>auto simp: is_generated_def is_leaf_type_def td_class_ready_def\<close>)
qed

text \<open>A configuration that the analysis left ready for writing.\<close>

definition td_config_ready :: "string \<Rightarrow> tl_config \<Rightarrow> bool" where
  "td_config_ready nm c \<longleftrightarrow>
     (\<forall>t \<in> set (cf_types c). is_generated (TD_TL_writer nm) t \<longrightarrow> td_class_ready c t) \<and> (\<forall>f \<in> set (cf_functions c). td_ready c f)"

lemma finishes_generated:
  assumes "td_config_ready nm c"
    and "\<And>i. td_class_ready c (cf_types c ! i) \<Longrightarrow> is_generated (TD_TL_writer nm) (cf_types c ! i) \<Longrightarrow> finishes (f i)"
  shows "finishes (each_generated (TD_TL_writer nm) c f)"
  unfolding each_generated_def
proof (intro done_iterate returns_if assms(2))
  fix i assume "i \<in> set [0..<types_n c]" "is_generated (TD_TL_writer nm) (cf_types c ! i)"
  then show "td_class_ready c (cf_types c ! i)" using assms(1) by (simp add: td_config_ready_def types_n_def)
qed (auto intro: returns_basic)

lemma finishes_cases:
  assumes "\<And>k. k \<in> set ks \<Longrightarrow> td_ready c k"
  shows "finishes (count_cases (TD_TL_writer nm) c r ks)"
  using assms
proof (induction ks)
  case (Cons k ks)
  then obtain b where b: "td_combinator_supported c k = Inr b" by (auto simp: td_ready_def)
  have "finishes (count_cases (TD_TL_writer nm) c r ks)" using Cons by simp
  then show ?case unfolding count_cases.simps
    by (intro returns_bind[OF returns_supported[OF b]] returns_bind[where P = "\<lambda>_. True"] returns_basic) simp_all
qed (simp add: returns_def)

lemma finishes_body:
  assumes "td_config_ready nm c"
  shows "finishes (write_body (TD_TL_writer nm) c g r)"
proof -
  let ?w = "TD_TL_writer nm"
  have fs: "td_ready c f" if "f \<in> set (cf_functions c)" for f using that assms by (simp add: td_config_ready_def)
  have ks: "td_ready c k" if "td_class_ready c t" "k \<in> set (ct_constructors t)" for t k
    using that by (simp add: td_class_ready_def constructors_ready_def)
  have as: "td_ready c k" if "k \<in> set (arity_constructors ?w c a)" for a k
    using that assms ks by (auto simp: arity_constructors_def td_config_ready_def)
  have forward: "finishes (write_forward ?w c g i)" if "td_class_ready c (cf_types c ! i)" for i
    unfolding write_forward_def Let_def using that
    by (intro returns_bind[OF returns_basic(2)] returns_if done_append done_iterate finishes_if_supported ks)
      (auto simp: td_class_ready_def)
  have base_fetch: "finishes (write_base_fetch ?w c g r a p)" for a p
    unfolding write_base_fetch_def Let_def
    by (intro returns_bind[OF finishes_cases] returns_if returns_bind[OF done_append(3)] returns_bind[OF done_append(1)]
        returns_bind[OF done_iterate] finishes_if_supported as done_append returns_basic) simp_all
  have base_case: "finishes (write_base_case ?w c g a f i)" if "td_class_ready c (cf_types c ! i)" for a f i
    unfolding write_base_case_def Let_def using that
    by (intro returns_if returns_bind[where P = "\<lambda>_. True"] done_append done_iterate finishes_if_supported ks returns_basic) auto
  have base: "finishes (write_base_class ?w c g r a)" for a
    unfolding write_base_class_def Let_def
    by (intro returns_bind[OF done_append(1)] returns_bind[OF done_append(3)] returns_bind[OF done_iterate] base_fetch
        returns_bind[OF finishes_generated[OF assms]] base_case done_append)
  have fbase: "finishes (write_function_base ?w c g)"
    unfolding write_function_base_def Let_def
    by (intro returns_bind[OF done_append(1)] returns_bind[OF done_append(3)] returns_bind[OF done_iterate] returns_if
        finishes_if_supported fs done_append returns_basic) simp_all
  have all: "finishes (write_types_and_functions ?w c g r)"
    unfolding write_types_and_functions_def
  proof (intro returns_bind[OF done_iterate] done_iterate returns_if finishes_if_supported fs finishes_class finishes_function)
    fix i assume "i \<in> set [0..<types_n c]" "\<not> is_leaf_type ?w (cf_types c ! i)" "\<not> is_complex c i"
    then show "is_generated ?w (cf_types c ! i)" and "td_class_ready c (cf_types c ! i)"
      using assms by (simp_all add: is_generated_def is_complex_def td_config_ready_def types_n_def)
  qed (auto intro: returns_basic)
  show ?thesis
    unfolding write_body_def
    by (intro returns_bind[OF finishes_generated[OF assms]] forward returns_bind[OF done_iterate] returns_bind[OF returns_basic(3)]
        done_append base returns_bind[OF fbase] returns_bind[OF all] finishes_if_supported fs returns_basic) simp_all
qed

subsection \<open>From the analysis to the file\<close>

lemma iterate_success_inv:
  assumes "iterate f xs s = Inr (u, t)" and "I s" and "\<And>x. keeps I (f x)" and "x \<in> set xs"
  shows "\<exists>s' t'. I s' \<and> f x s' = Inr ((), t')"
  using assms(1,2,4)
proof (induction xs arbitrary: s)
  case (Cons y ys)
  then obtain s1 where s1: "f y s = Inr ((), s1)" "iterate f ys s1 = Inr (u, t)" by auto
  have "I s1" by (rule keepsD[OF assms(3) Cons.prems(2) s1(1)])
  with Cons s1 show ?case by auto
qed simp

lemma check_types_success:
  assumes "check_types w c = Inr (u, c')" and "i < types_n c"
  shows "ct_constructors_num (cf_types c ! i) = length (ct_constructors (cf_types c ! i))"
    and "k \<in> set (ct_constructors (cf_types c ! i)) \<Longrightarrow> \<exists>T. cb_result k = Some T \<and> node_type T = NODE_TYPE_TYPE \<and> t_type T = i"
proof -
  from assms(1) have "iterate (check_type w) [0..<types_n c] c = Inr (u, c')" by (auto simp: check_types_def)
  from iterate_success_inv[OF this more_complex_refl keeps_check_type, of i] assms(2)
  obtain d d' where d: "more_complex c d" "check_type w i d = Inr ((), d')" by auto
  let ?t = "cf_types d ! i"
  have same: "same_type (cf_types c ! i) ?t" using variant_type[OF more_complex_variant[OF d(1)] assms(2)] .
  have num: "ct_constructors_num ?t = length (ct_constructors ?t)"
    using d(2) by (auto simp: check_type_def type_num_def split: if_splits)
  then show "ct_constructors_num (cf_types c ! i) = length (ct_constructors (cf_types c ! i))"
    using same_type_parts(4,5)[OF same] by simp
  assume k: "k \<in> set (ct_constructors (cf_types c ! i))"
  then have k: "k \<in> set (ct_constructors ?t)" using same_type_parts(5)[OF same] by simp
  then have "ct_constructors_num ?t \<noteq> 0" using num by auto
  then obtain e where "iterate (check_constructor w i ?t) (ct_constructors ?t) d = Inr ((), e)"
    using d(2) by (auto simp: check_type_def type_num_def)
  from iterate_success_inv[where I = "\<lambda>_. True", OF this TrueI _ k] obtain s' t' where "check_constructor w i ?t k s' = Inr ((), t')"
    by (auto simp: keeps_def)
  then show "\<exists>T. cb_result k = Some T \<and> node_type T = NODE_TYPE_TYPE \<and> t_type T = i"
    by (auto simp: check_constructor_def the_result_def split: option.splits)
qed

lemma dfs_functions_answered:
  assumes "dfs_functions w c = Inr r" and "f \<in> set (cf_functions c)"
  shows "\<exists>b. combinator_supported w c f = Inr b"
proof -
  obtain rq rs where "r = (rq, rs)" by (cases r)
  with dfs_functions_parts(1)[of w c rq rs] assms(1)
  have "iterate (dfs_combinator w c (dfs_type (Suc (types_n c)) w c)) (cf_functions c) {} = Inr ((), rq)" by blast
  from iterate_success_inv[where I = "\<lambda>_. True", OF this TrueI _ assms(2)] obtain s' t' where
    "dfs_combinator w c (dfs_type (Suc (types_n c)) w c) f s' = Inr ((), t')" by (auto simp: keeps_def simp del: dfs_type.simps)
  then show ?thesis unfolding dfs_combinator_def by (auto split: sum.splits)
qed

lemma same_type_flags_zero:
  assumes "same_type t u" and "ct_flags t = 0" and "ct_flags u AND FLAG_COMPLEX = 0"
  shows "ct_flags u = 0"
proof -
  from arg_cong[OF assms(1)[unfolded same_type_def], of ct_flags] have "ct_flags u OR FLAG_COMPLEX = FLAG_COMPLEX"
    using assms(2) by simp
  with assms(3) show ?thesis by (simp add: bit_eq_iff bit_or_iff bit_and_iff) blast
qed

lemma analysis_variant:
  assumes "config_ok c" and "tl_analysis (TD_TL_writer nm) c = Inr (r, d)"
  shows "variant c d"
proof -
  from tl_analysisE[OF assms(2)] obtain c' where a: "check_types (TD_TL_writer nm) c = Inr ((), c')"
      "complex_loop (Suc (types_n c')) (TD_TL_writer nm) c' = Inr ((), d)" .
  have v1: "variant c c'" using keepsD[OF keeps_check_types more_complex_refl a(1)] by (rule more_complex_variant)
  have "config_refs c'" using config_ok_variant[OF v1 assms(1)] by (rule config_ok_refs)
  from td_writer.complex_loop_least(1)[OF a(2) this] have "variant c' d" by (rule more_complex_variant)
  with v1 show ?thesis by (rule variant_trans)
qed

lemma analysis_ready:
  assumes "config_ok c" and "\<And>k. k \<in> combinators c \<Longrightarrow> args_writable k" and "\<And>t. t \<in> set (cf_types c) \<Longrightarrow> ct_flags t = 0"
    and "tl_analysis (TD_TL_writer nm) c = Inr (r, d)"
  shows "td_config_ready nm d"
proof -
  let ?w = "TD_TL_writer nm"
  from tl_analysisE[OF assms(4)] obtain c' where a: "check_types ?w c = Inr ((), c')"
      "complex_loop (Suc (types_n c')) ?w c' = Inr ((), d)" "dfs_functions ?w d = Inr r" .
  have v1: "variant c c'" using keepsD[OF keeps_check_types more_complex_refl a(1)] by (rule more_complex_variant)
  have refs: "config_refs c'" using config_ok_variant[OF v1 assms(1)] by (rule config_ok_refs)
  note l = td_writer.complex_loop_least[OF a(2) refs]
  have v: "variant c d" using v1 more_complex_variant[OF l(1)] by (rule variant_trans)
  have ok: "config_ok d" by (rule config_ok_variant[OF v assms(1)])
  have ready: "td_ready d k" if "k \<in> combinators d" "\<exists>b. td_combinator_supported d k = Inr b" for k
    using that ok assms(2)[of k] combinators_variant[OF v] by (auto simp: td_ready_def config_ok_def)
  have "td_class_ready d (cf_types d ! i)" if i: "i < types_n d" and g: "is_generated ?w (cf_types d ! i)" for i
  proof -
    let ?t = "cf_types d ! i"
    have ic: "i < types_n c" using i by (simp add: variant_types_n[OF v])
    note same = variant_type[OF v ic]
    have e: "eligible ?w d i" "\<not> is_complex d i"
      using i g by (auto simp: eligible_def is_complex_def is_generated_def is_leaf_type_def)
    from l(2)[OF this] have n: "ct_simple_constructors ?t = int (supported_num ?w d i)" "0 < supported_num ?w d i" "answered ?w d i"
      by blast+
    have num: "ct_constructors ?t \<noteq> []"
      using e(1) check_types_success(1)[OF a(1) ic] same_type_parts(4,5)[OF same] by (auto simp: eligible_def)
    have "?t \<in> set (cf_types d)" using i by (simp add: types_n_def)
    then have ks: "k \<in> combinators d" "\<exists>T. cb_result k = Some T \<and> node_type T = NODE_TYPE_TYPE \<and> t_type T = i"
      if "k \<in> set (ct_constructors ?t)" for k
      using that check_types_success(2)[OF a(1) ic, of k] same_type_parts(5)[OF same]
      unfolding combinators_def by (blast, simp)
    then have "constructors_ready d ?t" using n(3) ready unfolding constructors_ready_def answered_def by fastforce
    moreover have "0 \<le> ct_arity ?t"
    proof -
      from num obtain k where k: "k \<in> set (ct_constructors ?t)" by (cases "ct_constructors ?t") auto
      from ks[OF this] ok obtain T where T: "cb_result k = Some T" "node_type T = NODE_TYPE_TYPE" "t_type T = i" "node_ok d T"
        by (fastforce simp: config_ok_def comb_ok_def tree_ok_def)
      then have "int (length (t_children T)) = ct_arity ?t" by (cases T) (auto simp: node_ok_def node_types)
      then show ?thesis by (metis of_nat_0_le_iff)
    qed
    moreover have "ct_flags ?t = 0"
      using same_type_flags_zero[OF same] assms(3)[of "cf_types c ! i"] ic e(2) by (simp add: is_complex_def types_n_def)
    ultimately show ?thesis using n(1,2) by (simp add: td_class_ready_def supported_num_def)
  qed
  moreover have "td_ready d f" if "f \<in> set (cf_functions d)" for f
    using that dfs_functions_answered[OF a(3) that] ready[of f] by (auto simp: combinators_def)
  ultimately show ?thesis unfolding td_config_ready_def types_n_def by (metis in_set_conv_nth)
qed

lemma write_tl_returns:
  assumes "td_config_ready nm d" and "tl_analysis (TD_TL_writer nm) c = Inr (r, d)"
  shows "\<exists>out e. write_tl (TD_TL_writer nm) gen c = Inr (out, e) \<and> remove_complex d = Inr ((), e)"
proof -
  obtain s where "write_body (TD_TL_writer nm) d (gen d) r \<lparr>emitted = gen_output_begin (gen c), empty_vars = []\<rparr> = Inr ((), s)"
    using finishes_body[OF assms(1), of "gen d" r] by (auto simp: returns_def)
  then show ?thesis using assms(2) by (simp add: write_tl_def remove_complex_def)
qed

subsection \<open>Properties\<close>


text \<open>A function \<open>f = X\<close> whose result is the variable with the number \<open>-1\<close>.\<close>

definition negative_schema :: xschema where
  "negative_schema = \<lparr>xs_types = [], xs_constructors = [], xs_functions =
     [\<lparr>xc_id = 7, xc_name = ''f'', xc_type = 0, xc_args = Some [], xc_result = XTypeVar (-1)\<rparr>]\<rparr>"


text \<open>After writing, the temporary flags are gone: a configuration whose types had no flags is the old one up to the counters.\<close>

lemma remove_complex_restores:
  assumes "variant c d" and "\<And>t. t \<in> set (cf_types c) \<Longrightarrow> ct_flags t = 0" and "remove_complex d = Inr ((), e)"
  shows "e\<lparr>cf_types := []\<rparr> = c\<lparr>cf_types := []\<rparr>"
    and "map (\<lambda>t. t\<lparr>ct_simple_constructors := 0\<rparr>) (cf_types e) = map (\<lambda>t. t\<lparr>ct_simple_constructors := 0\<rparr>) (cf_types c)"
proof -
  from assms(3) have e: "e = d\<lparr>cf_types := map (\<lambda>t. if ct_flags t AND FLAG_COMPLEX \<noteq> 0
        then t\<lparr>ct_flags := ct_flags t AND NOT FLAG_COMPLEX\<rparr> else t) (cf_types d)\<rparr>" by (simp add: remove_complex_def)
  with assms(1) show "e\<lparr>cf_types := []\<rparr> = c\<lparr>cf_types := []\<rparr>" by (simp add: variant_def)
  have "(if ct_flags u AND FLAG_COMPLEX \<noteq> 0 then u\<lparr>ct_flags := ct_flags u AND NOT FLAG_COMPLEX\<rparr> else u)\<lparr>ct_simple_constructors := 0\<rparr>
      = t\<lparr>ct_simple_constructors := 0\<rparr>" if "same_type t u" "ct_flags t = 0" for t u
  proof -
    have "ct_flags u AND NOT FLAG_COMPLEX = 0"
      using arg_cong[OF that(1)[unfolded same_type_def], of ct_flags] that(2)
      by (simp add: bit_eq_iff bit_or_iff bit_and_iff bit_not_iff) blast
    moreover have "ct_flags u = 0" if "ct_flags u AND FLAG_COMPLEX = 0"
      using same_type_flags_zero[OF \<open>same_type t u\<close> \<open>ct_flags t = 0\<close> that] .
    ultimately show ?thesis using that same_type_parts[OF that(1)] by (cases t; cases u) auto
  qed
  then show "map (\<lambda>t. t\<lparr>ct_simple_constructors := 0\<rparr>) (cf_types e) = map (\<lambda>t. t\<lparr>ct_simple_constructors := 0\<rparr>) (cf_types c)"
    using assms(1,2) by (auto simp: e variant_def list_all2_conv_all_nth intro!: nth_equalityI)
qed


text \<open>A scheme with \<open>int ? = Int\<close>, \<open>user id:Int = User\<close> and a function that returns a user.\<close>

definition user_schema :: xschema where
  "user_schema = \<lparr>xs_types = [\<lparr>xt_id = 1, xt_name = ''Int'', xt_num = 1, xt_flags = 0, xt_arity = 0, xt_params = 0\<rparr>,
       \<lparr>xt_id = 4, xt_name = ''User'', xt_num = 1, xt_flags = 0, xt_arity = 0, xt_params = 0\<rparr>],
     xs_constructors = [\<lparr>xc_id = 5, xc_name = ''int'', xc_type = 1, xc_args = None, xc_result = XType 1 FLAG_NOVAR []\<rparr>,
       \<lparr>xc_id = 6, xc_name = ''user'', xc_type = 4, xc_args = Some [XArg ''id'' FLAG_NOVAR None None (XType 1 FLAG_NOVAR [])],
        xc_result = XType 4 FLAG_NOVAR []\<rparr>],
     xs_functions = [\<lparr>xc_id = 7, xc_name = ''getUser'', xc_type = 4, xc_args = Some [], xc_result = XType 4 FLAG_NOVAR []\<rparr>]\<rparr>"

lemma user_schema_read: "read_tl_config (enc_schema user_schema) = Inr (config_of user_schema)"
proof (rule read_enc_schema)
  show "ok_schema user_schema"
    by (simp add: user_schema_def ok_schema_def ok_ty_def ok_comb_def of_type_def schema_arity_def index_map_def FLAG_NOVAR_def)
  show "length (enc_schema user_schema) < 2 ^ 25"
    by (simp add: user_schema_def enc_schema_def enc_ty_def enc_comb_def enc_args_def string_bytes_def)
qed

lemma user_schema_ready:
  "\<forall>t \<in> set (cf_types (config_of user_schema)). ct_flags t = 0"
  "\<forall>k \<in> combinators (config_of user_schema). args_writable k"
  by code_simp+


end
