(* ===== verification/TL_Runs.thy ===== *)
theory TL_Runs
  imports TL_Files TL_Written
begin

section \<open>Runs of the generators (tdtl: tl_generate.cpp, generate: generate_common.cpp)\<close>

text \<open>
  The generator of the C++ code reads each scheme once and writes three files from it. The configuration is shared by these runs, and
  every run marks its types and changes its counters; the state is the configuration together with the files.
\<close>

unbundle bit_operations_syntax

subsection \<open>Definitions\<close>

definition put_file :: "string \<Rightarrow> string \<Rightarrow> (filesys, bool) comp" where
  "put_file file res = (\<lambda>fs. Inr (put_file_contents file res fs))"

definition write_tl_to_file :: "TL_writer \<Rightarrow> (tl_config \<Rightarrow> generator) \<Rightarrow> bool \<Rightarrow> string \<Rightarrow> (tl_config \<times> filesys, bool) comp" where
  "write_tl_to_file w gen is_documentation_generated file =
     bind (on_fst (write_tl w gen)) (\<lambda>res.
     bind (gets (\<lambda>(c, fs). get_file_contents fs file)) (\<lambda>r.
     bind (lift r) (\<lambda>old.
     bind (lift (if is_documentation_generated then Inr old else remove_documentation old)) (\<lambda>old.
     if old \<noteq> res then on_snd (put_file file res) else ret True))))"

definition read_tl_config_from_file :: "filesys \<Rightarrow> string \<Rightarrow> fault + tl_config" where
  "read_tl_config_from_file fs file =
     (case get_file_contents fs file of Inl e \<Rightarrow> Inl e | Inr s \<Rightarrow> read_tl_config (map of_char s))"

text \<open>The text functions of the three writers, and whether the last one generates documentation.\<close>

record cpp_writers =
  writer_cpp :: "tl_config \<Rightarrow> generator"
  writer_h :: "tl_config \<Rightarrow> generator"
  writer_hpp :: "tl_config \<Rightarrow> generator"
  hpp_documentation :: bool

text \<open>The results of the three calls are ignored.\<close>

definition write_cpp :: "cpp_writers \<Rightarrow> string \<Rightarrow> string \<Rightarrow> (tl_config \<times> filesys, unit) comp" where
  "write_cpp W path nm =
     bind (write_tl_to_file (TD_TL_writer nm) (writer_cpp W) False (path @ ''.cpp'')) (\<lambda>_.
     bind (write_tl_to_file (TD_TL_writer nm) (writer_h W) False (path @ ''.h'')) (\<lambda>_.
     bind (write_tl_to_file (TD_TL_writer nm) (writer_hpp W) (hpp_documentation W) (path @ ''.hpp'')) (\<lambda>_.
     ret ())))"

definition generate_cpp :: "cpp_writers \<Rightarrow> string \<Rightarrow> string \<Rightarrow> (filesys, unit) comp" where
  "generate_cpp W directory nm =
     bind (gets (\<lambda>fs. read_tl_config_from_file fs (''auto/tlo/'' @ nm @ ''.tlo''))) (\<lambda>r.
     bind (lift r) (\<lambda>c.
     (\<lambda>fs. case write_cpp W (directory @ ''/'' @ nm) nm (c, fs) of
        Inl e \<Rightarrow> Inl e
      | Inr (_, (_, fs')) \<Rightarrow> Inr ((), fs'))))"

text \<open>\<open>main\<close>, with the writers for each scheme.\<close>

definition generate_common_main :: "(string \<Rightarrow> cpp_writers) \<Rightarrow> (filesys, unit) comp" where
  "generate_common_main Ws =
     iterate (\<lambda>(directory, nm). generate_cpp (Ws nm) directory nm)
       [(''auto/td/telegram'', ''telegram_api''), (''auto/td/telegram'', ''secret_api''), (''auto/td/mtproto'', ''mtproto_api''),
        (''auto/td/telegram'', ''td_api'')]"

subsection \<open>The counters do not matter\<close>

text \<open>Configurations that are equal up to the counters of supported constructors.\<close>

definition uncounted :: "tl_ctype \<Rightarrow> tl_ctype" where
  "uncounted t = t\<lparr>ct_simple_constructors := 0\<rparr>"

definition recounted :: "tl_config \<Rightarrow> tl_config \<Rightarrow> bool" where
  "recounted c d \<longleftrightarrow> map uncounted (cf_types c) = map uncounted (cf_types d) \<and> c\<lparr>cf_types := []\<rparr> = d\<lparr>cf_types := []\<rparr>"

lemma uncounted_parts:
  assumes "uncounted t = uncounted u"
  shows "ct_id t = ct_id u" "ct_name t = ct_name u" "ct_arity t = ct_arity u" "ct_flags t = ct_flags u"
    "ct_constructors_num t = ct_constructors_num u" "ct_constructors t = ct_constructors u"
  using assms by (cases t; cases u; simp add: uncounted_def)+

lemma map_eq_nth: "map f xs = map f ys \<Longrightarrow> f (xs ! i) = f (ys ! i)"
proof -
  assume m: "map f xs = map f ys"
  then have "length xs = length ys" by (metis length_map)
  then show "f (xs ! i) = f (ys ! i)" using m
    by (induction xs ys arbitrary: i rule: list_induct2) (auto simp: nth_Cons split: nat.split)
qed

lemma recounted_type: "recounted c d \<Longrightarrow> uncounted (cf_types c ! i) = uncounted (cf_types d ! i)"
  unfolding recounted_def by (blast intro: map_eq_nth)

lemmas recounted_parts = uncounted_parts[OF recounted_type]

lemma recounted_rest:
  assumes "recounted c d"
  shows "types_n c = types_n d" and "cf_functions c = cf_functions d" and "is_complex c i = is_complex d i"
proof -
  show "types_n c = types_n d" using assms by (metis recounted_def types_n_def length_map)
  have "c\<lparr>cf_types := []\<rparr> = d\<lparr>cf_types := []\<rparr>" using assms by (simp add: recounted_def)
  then show "cf_functions c = cf_functions d" by (cases c; cases d; simp)
  show "is_complex c i = is_complex d i" by (simp add: is_complex_def recounted_parts(4)[OF assms])
qed

lemma recounted_type_supported:
  "recounted c d \<Longrightarrow> is_type_supported c T = is_type_supported d T"
  "recounted c d \<Longrightarrow> children_supported c xs = children_supported d xs"
proof (induction c T and c xs rule: is_type_supported_children_supported.induct)
  case (1 c T)
  then show ?case by (cases T) (simp_all add: is_type_supported.simps recounted_rest)
next
  case (3 c x xs)
  then show ?case by (auto split: sum.split)
qed simp

lemma recounted_supported:
  assumes "recounted c d"
  shows "combinator_supported (TD_TL_writer nm) c k = combinator_supported (TD_TL_writer nm) d k"
proof -
  have t: "is_type_supported c = is_type_supported d" by (rule ext) (rule recounted_type_supported(1)[OF assms])
  have e: "is_arg_supported c = is_arg_supported d" "is_result_supported c = is_result_supported d"
    by (rule ext; unfold is_arg_supported_def is_type_arg_def is_element_supported_def[abs_def] is_result_supported_def t
        recounted_parts(1)[OF assms]; rule refl)+
  have "is_combinator_supported c k = is_combinator_supported d k" unfolding is_combinator_supported_def e by (rule refl)
  then show ?thesis by (simp add: td_combinator_supported_def)
qed

lemma recounted_dfs_combinator:
  "recounted c d \<Longrightarrow> dfs_combinator (TD_TL_writer nm) c = dfs_combinator (TD_TL_writer nm) d"
  by (intro ext) (simp only: dfs_combinator_def recounted_supported)

lemma recounted_dfs_type:
  assumes "recounted c d"
  shows "dfs_type n (TD_TL_writer nm) c = dfs_type n (TD_TL_writer nm) d"
proof (induction n)
  case 0
  show ?case by (rule ext) (simp only: dfs_type.simps)
next
  case (Suc n)
  show ?case
    by (rule ext) (simp only: dfs_type.simps Let_def is_leaf_type_def recounted_parts[OF assms] recounted_dfs_combinator[OF assms] Suc)
qed

lemma recounted_dfs: "recounted c d \<Longrightarrow> dfs_functions (TD_TL_writer nm) c = dfs_functions (TD_TL_writer nm) d"
  unfolding dfs_functions_def dfs_function_def[abs_def]
  by (simp only: recounted_dfs_combinator recounted_dfs_type recounted_rest)

subsection \<open>Computations in lockstep\<close>

text \<open>From configurations that are equal up to the counters both computations fail in the same way, or return the same result and such configurations.\<close>

definition lockstep :: "'a gen \<Rightarrow> 'a gen \<Rightarrow> bool" where
  "lockstep m n \<longleftrightarrow> (\<forall>c d. recounted c d \<longrightarrow>
     (case m c of Inl e \<Rightarrow> n d = Inl e | Inr (x, c') \<Rightarrow> \<exists>d'. n d = Inr (x, d') \<and> recounted c' d'))"

named_theorems lockstep \<open>computations in lockstep\<close>

lemma lockstep_basic [lockstep]:
  "lockstep (ret x) (ret x)" "lockstep (raise e) (raise e)" "lockstep (check b) (check b)" "lockstep (lift r) (lift r)"
  by (auto simp: lockstep_def split: sum.split)

lemma lockstep_bind:
  assumes "lockstep m m'" and "\<And>x. lockstep (f x) (f' x)"
  shows "lockstep (bind m f) (bind m' f')"
  unfolding lockstep_def
proof (intro allI impI)
  fix c d assume r: "recounted c d"
  show "case bind m f c of Inl e \<Rightarrow> bind m' f' d = Inl e | Inr (x, c') \<Rightarrow> \<exists>d'. bind m' f' d = Inr (x, d') \<and> recounted c' d'"
  proof (cases "m c")
    case (Inl e)
    with assms(1)[unfolded lockstep_def, rule_format, OF r] show ?thesis by (simp add: bind_apply)
  next
    case (Inr y)
    obtain x c1 where y: "y = (x, c1)" by (cases y)
    from assms(1)[unfolded lockstep_def, rule_format, OF r] Inr y obtain d1 where d1: "m' d = Inr (x, d1)" "recounted c1 d1" by auto
    have "bind m f c = f x c1" "bind m' f' d = f' x d1" using Inr y d1(1) by (simp_all add: bind_apply)
    then show ?thesis using assms(2)[of x, unfolded lockstep_def, rule_format, OF d1(2)] by (simp only:)
  qed
qed

lemma lockstep_if [lockstep]: "(b \<Longrightarrow> lockstep m m') \<Longrightarrow> (\<not> b \<Longrightarrow> lockstep n n') \<Longrightarrow> lockstep (if b then m else n) (if b then m' else n')"
  by simp

lemma lockstep_iterate: "(\<And>x. x \<in> set xs \<Longrightarrow> lockstep (f x) (f' x)) \<Longrightarrow> lockstep (iterate f xs) (iterate f' xs)"
  by (induction xs) (auto intro!: lockstep lockstep_bind)

lemma lockstep_gets: "(\<And>c d. recounted c d \<Longrightarrow> f c = f d) \<Longrightarrow> lockstep (gets f) (gets f)"
  by (auto simp: lockstep_def)

text \<open>What is done with a type that was read must not depend on its counter.\<close>

lemma lockstep_type:
  assumes "\<And>t u. uncounted t = uncounted u \<Longrightarrow> lockstep (f t) (f u)"
  shows "lockstep (bind (type_num i) f) (bind (type_num i) f)"
  unfolding lockstep_def
proof (intro allI impI)
  fix c d assume r: "recounted c d"
  have "bind (type_num i) f e = f (cf_types e ! i) e" for e by (simp add: TL_Generate.type_num_def)
  with assms[OF recounted_type[OF r, of i], unfolded lockstep_def, rule_format, OF r]
  show "case bind (type_num i) f c of Inl e \<Rightarrow> bind (type_num i) f d = Inl e
      | Inr (x, c') \<Rightarrow> \<exists>d'. bind (type_num i) f d = Inr (x, d') \<and> recounted c' d'"
    by (simp only:)
qed

lemma lockstep_upd:
  assumes "\<And>t u. uncounted t = uncounted u \<Longrightarrow> uncounted (f t) = uncounted (f u)"
  shows "lockstep (upd_type_num i f) (upd_type_num i f)"
  unfolding lockstep_def
proof (intro allI impI)
  fix c d assume r: "recounted c d"
  then have "recounted (c\<lparr>cf_types := (cf_types c)[i := f (cf_types c ! i)]\<rparr>) (d\<lparr>cf_types := (cf_types d)[i := f (cf_types d ! i)]\<rparr>)"
    using assms[OF recounted_type[OF r, of i]] by (simp add: recounted_def map_update)
  then show "case upd_type_num i f c of Inl e \<Rightarrow> upd_type_num i f d = Inl e
      | Inr (x, c') \<Rightarrow> \<exists>d'. upd_type_num i f d = Inr (x, d') \<and> recounted c' d'"
    by (simp add: upd_type_num_def)
qed

lemma lockstep_set_complex [lockstep]: "lockstep (set_complex i) (set_complex i)"
  unfolding set_complex_def
proof (rule lockstep_upd)
  fix t u assume "uncounted t = uncounted u"
  then show "uncounted (t\<lparr>ct_flags := ct_flags t OR FLAG_COMPLEX\<rparr>) = uncounted (u\<lparr>ct_flags := ct_flags u OR FLAG_COMPLEX\<rparr>)"
    by (cases t; cases u; simp add: uncounted_def)
qed

lemma lockstep_mark_complex [lockstep]: "lockstep (mark_complex w i) (mark_complex w i)"
  unfolding mark_complex_def by (rule lockstep_type) (auto dest: uncounted_parts(2) intro!: lockstep)

lemma lockstep_the_result [lockstep]: "lockstep (the_result k) (the_result k)"
  by (cases "cb_result k") (simp_all add: the_result_def lockstep)

lemma lockstep_check_element [lockstep]: "lockstep (check_element w i b) (check_element w i b)"
  unfolding check_element_def by (intro lockstep lockstep_bind)

lemma lockstep_check_arg [lockstep]: "lockstep (check_arg w i k a) (check_arg w i k a)"
proof -
  have id: "lockstep (bind (type_num j) (\<lambda>t. check (ct_id t = ID_VAR_NUM \<or> ct_id t = ID_VAR_TYPE)))
      (bind (type_num j) (\<lambda>t. check (ct_id t = ID_VAR_NUM \<or> ct_id t = ID_VAR_TYPE)))" for j
    by (rule lockstep_type) (auto dest: uncounted_parts(1) intro!: lockstep)
  show ?thesis unfolding check_arg_def Let_def by (intro lockstep lockstep_bind lockstep_iterate id)
qed

lemma lockstep_check_param: "lockstep (check_param w i t j) (check_param w i t j)"
  unfolding check_param_def param_type_def by (intro lockstep lockstep_bind lockstep_iterate)

lemma check_constructor_uncounted: "uncounted t = uncounted u \<Longrightarrow> check_constructor w i t = check_constructor w i u"
  by (intro ext) (simp only: check_constructor_def uncounted_parts[of t u])

lemma check_param_uncounted: "uncounted t = uncounted u \<Longrightarrow> check_param w i t = check_param w i u"
  by (intro ext) (simp only: check_param_def uncounted_parts[of t u])

lemma lockstep_check_type: "lockstep (check_type w i) (check_type w i)"
  unfolding check_type_def
proof (rule lockstep_type)
  fix t u assume e: "uncounted t = uncounted u"
  note p = uncounted_parts[OF e] check_constructor_uncounted[OF e] check_param_uncounted[OF e]
  show "lockstep (bind (check (ct_constructors_num t = length (ct_constructors t))) (\<lambda>_.
      if ct_constructors_num t = 0 then
        (if ct_name t = ''Type'' then bind (check (ct_id t = ID_VAR_TYPE)) (\<lambda>_. set_complex i) else ret ())
      else bind (iterate (check_constructor w i t) (ct_constructors t)) (\<lambda>_. iterate (check_param w i t) [0..<nat (ct_arity t)])))
     (bind (check (ct_constructors_num u = length (ct_constructors u))) (\<lambda>_.
      if ct_constructors_num u = 0 then
        (if ct_name u = ''Type'' then bind (check (ct_id u = ID_VAR_TYPE)) (\<lambda>_. set_complex i) else ret ())
      else bind (iterate (check_constructor w i u) (ct_constructors u)) (\<lambda>_. iterate (check_param w i u) [0..<nat (ct_arity u)])))"
    unfolding p check_constructor_def by (intro lockstep lockstep_bind lockstep_iterate lockstep_check_param)
qed

lemma lockstep_check_types: "lockstep (check_types w) (check_types w)"
  unfolding check_types_def by (intro lockstep_bind lockstep_gets lockstep_iterate lockstep_check_type recounted_rest(1))

lemma lockstep_count: "lockstep (count_supported (TD_TL_writer nm) ks) (count_supported (TD_TL_writer nm) ks)"
proof (induction ks)
  case Nil
  show ?case unfolding count_supported.simps by (rule lockstep)
next
  case (Cons k ks)
  show ?case unfolding count_supported.simps by (intro lockstep lockstep_bind lockstep_gets recounted_supported Cons)
qed

lemma lockstep_find_complex [lockstep]: "lockstep (find_complex (TD_TL_writer nm) i) (find_complex (TD_TL_writer nm) i)"
  unfolding find_complex_def
proof (rule lockstep_type)
  fix t u assume e: "uncounted t = uncounted u"
  have upd: "lockstep (upd_type_num i (\<lambda>t. t\<lparr>ct_simple_constructors := n\<rparr>)) (upd_type_num i (\<lambda>t. t\<lparr>ct_simple_constructors := n\<rparr>))" for n
  proof (rule lockstep_upd)
    fix t u assume "uncounted t = uncounted u"
    then show "uncounted (t\<lparr>ct_simple_constructors := n\<rparr>) = uncounted (u\<lparr>ct_simple_constructors := n\<rparr>)"
      by (cases t; cases u; simp add: uncounted_def)
  qed
  let ?f = "\<lambda>t. if ct_constructors_num t = 0 \<or> is_built_in_complex_type (TD_TL_writer nm) (ct_name t) then ret False
      else if ct_flags t AND FLAG_COMPLEX \<noteq> 0 then ret False
      else bind (count_supported (TD_TL_writer nm) (ct_constructors t)) (\<lambda>n.
        bind (upd_type_num i (\<lambda>t. t\<lparr>ct_simple_constructors := n\<rparr>)) (\<lambda>_.
        if n = 0 then bind (set_complex i) (\<lambda>_. ret True) else ret False))"
  show "lockstep (?f t) (?f u)"
    unfolding uncounted_parts[OF e] by (intro lockstep lockstep_bind lockstep_count upd)
qed

lemma lockstep_complex_pass: "lockstep (complex_pass (TD_TL_writer nm) is) (complex_pass (TD_TL_writer nm) is)"
  by (induction "is") (simp_all only: complex_pass.simps lockstep lockstep_bind)

lemma lockstep_complex_loop: "lockstep (complex_loop n (TD_TL_writer nm)) (complex_loop n (TD_TL_writer nm))"
proof (induction n)
  case 0
  show ?case unfolding complex_loop.simps by (rule lockstep)
next
  case (Suc n)
  show ?case unfolding complex_loop.simps
    by (intro lockstep lockstep_bind lockstep_gets lockstep_complex_pass recounted_rest(1) Suc)
qed

lemma lockstep_analysis: "lockstep (tl_analysis (TD_TL_writer nm)) (tl_analysis (TD_TL_writer nm))"
  unfolding tl_analysis_def
  by (intro lockstep lockstep_bind lockstep_gets lockstep_check_types lockstep_complex_loop recounted_rest(1) recounted_dfs)

subsection \<open>One run after the other\<close>

text \<open>A configuration that can be written.\<close>

definition writable_config :: "string \<Rightarrow> tl_config \<Rightarrow> bool" where
  "writable_config nm c \<longleftrightarrow> config_ok c \<and> (\<forall>t \<in> set (cf_types c). ct_flags t = 0) \<and> (\<forall>k \<in> combinators c. args_writable k) \<and>
     (\<exists>r. tl_analysis (TD_TL_writer nm) c = Inr r)"

lemma uncounted_same: "uncounted t = uncounted u \<Longrightarrow> same_type t u"
  by (cases t; cases u; simp add: uncounted_def same_type_def)

lemma recounted_variant: "recounted c d \<Longrightarrow> variant c d"
  unfolding recounted_def variant_def list_all2_conv_all_nth
  by (metis length_map map_eq_nth uncounted_same)

lemma writable_config_recounted:
  assumes "writable_config nm c" and "recounted c d"
  shows "writable_config nm d"
proof -
  note v = recounted_variant[OF assms(2)]
  have "ct_flags t = 0" if "t \<in> set (cf_types d)" for t
  proof -
    from that obtain i where i: "i < length (cf_types d)" "t = cf_types d ! i" by (auto simp: in_set_conv_nth)
    then have "cf_types c ! i \<in> set (cf_types c)" using recounted_rest(1)[OF assms(2)] by (simp add: types_n_def)
    then show ?thesis using assms(1) recounted_parts(4)[OF assms(2), of i] i(2) by (simp add: writable_config_def)
  qed
  moreover from assms(1) obtain r where "tl_analysis (TD_TL_writer nm) c = Inr r" by (auto simp: writable_config_def)
  then have "\<exists>r. tl_analysis (TD_TL_writer nm) d = Inr r"
    using lockstep_analysis[of nm, unfolded lockstep_def, rule_format, OF assms(2)] by (auto split: prod.splits)
  ultimately show ?thesis
    using assms(1) config_ok_variant[OF v] combinators_variant[OF v] by (simp add: writable_config_def)
qed

lemma write_tl_run:
  assumes "writable_config nm c"
  obtains res d where "write_tl (TD_TL_writer nm) gen c = Inr (res, d)" and "recounted c d" and "writable_config nm d"
proof -
  have ok: "config_ok c" "\<And>t. t \<in> set (cf_types c) \<Longrightarrow> ct_flags t = 0" "\<And>k. k \<in> combinators c \<Longrightarrow> args_writable k"
    using assms by (auto simp: writable_config_def)
  from assms obtain r e where an: "tl_analysis (TD_TL_writer nm) c = Inr (r, e)" by (auto simp: writable_config_def)
  from write_tl_returns[OF analysis_ready[OF ok(1,3,2) an] an, of gen]
  obtain res d where w: "write_tl (TD_TL_writer nm) gen c = Inr (res, d)" "remove_complex e = Inr ((), d)" by blast
  have "recounted c d" using remove_complex_restores[OF analysis_variant[OF ok(1) an] ok(2) w(2)]
    by (simp add: recounted_def uncounted_def[abs_def])
  with w(1) writable_config_recounted[OF assms] that show thesis by blast
qed

lemma write_tl_to_file_run:
  assumes "writable_config nm c" and "get_file_contents fs file = Inr old"
  shows "\<exists>ok d fs'. write_tl_to_file (TD_TL_writer nm) gen documented file (c, fs) = Inr (ok, (d, fs')) \<and> writable_config nm d \<and>
    (\<forall>other. other \<noteq> file \<longrightarrow> contents fs' other = contents fs other)"
proof -
  from write_tl_run[OF assms(1), of gen] obtain res d where w: "write_tl (TD_TL_writer nm) gen c = Inr (res, d)" "writable_config nm d" .
  show ?thesis
    using w assms(2) by (auto simp: write_tl_to_file_def on_fst_def on_snd_def put_file_def put_file_contents_def bind_apply
        remove_documentation_lines)
qed

subsection \<open>Properties\<close>


text \<open>A generator of an outline.\<close>

definition outline :: generator where
  "outline = \<lparr>get_max_arity = 0,
     is_default_constructor_generated = (\<lambda>_ _ _. False),
     is_full_constructor_generated = (\<lambda>_ _ _. False),
     get_parser_type = (\<lambda>_ _. 0),
     get_storer_type = (\<lambda>_ _. 0),
     get_additional_function_type = (\<lambda>_. 0),
     get_parsers = [],
     get_storers = [],
     get_additional_functions = [],
     gen_base_tl_class_name = [],
     gen_base_type_class_name = (\<lambda>_. ''Object''),
     gen_base_function_class_name = ''Function'',
     gen_class_name = (\<lambda>x. x),
     gen_field_name = (\<lambda>x. x),
     gen_type_name = (\<lambda>_. ''T''),
     gen_array_type_name = (\<lambda>_ _. []),
     gen_var_type_name = [],
     gen_output_begin = (''begin'' @ [NLF]),
     gen_output_end = (''end'' @ [NLF]),
     gen_forward_class_declaration = (\<lambda>_ _. []),
     gen_class_begin = (\<lambda>c b p. ''class '' @ c @ [NLF]),
     gen_class_end = [],
     gen_class_alias = (\<lambda>_ _. []),
     gen_field_definition = (\<lambda>c t f. t @ '' '' @ f @ [NLF]),
     gen_flags_definitions = (\<lambda>_ _. []),
     gen_get_id = (\<lambda>_ _ _. []),
     gen_function_result_type = (\<lambda>_. []),
     gen_constructor_begin = (\<lambda>_ _ _. []),
     gen_constructor_parameter = (\<lambda>_ _ _ _. []),
     gen_constructor_field_init = (\<lambda>_ _ _ _. []),
     gen_constructor_end = (\<lambda>_ _ _. []),
     gen_additional_function = (\<lambda>_ _ _. []),
     gen_additional_proxy_function_begin = (\<lambda>_ _ _ _ _. []),
     gen_additional_proxy_function_case_class = (\<lambda>_ _ _ _. []),
     gen_additional_proxy_function_case = (\<lambda>_ _ _ _ _. []),
     gen_additional_proxy_function_end = (\<lambda>_ _ _. []),
     gen_vars = (\<lambda>_ _ v. ([], v)),
     gen_function_vars = (\<lambda>_ v. ([], v)),
     gen_uni = (\<lambda>_ _ v. ([], v)),
     gen_constructor_id_store = (\<lambda>_ _. []),
     gen_field_fetch = (\<lambda>_ _ _ _ v. ([], v)),
     gen_field_store = (\<lambda>_ _ _ v. ([], v)),
     gen_type_fetch = (\<lambda>_ _ _ _. []),
     gen_var_type_fetch = (\<lambda>_. []),
     gen_fetch_function_begin = (\<lambda>_ _ _ _ _ _ v. ([], v)),
     gen_fetch_function_end = (\<lambda>_ _ _ _. []),
     gen_fetch_function_result_begin = (\<lambda>_ _ _. []),
     gen_fetch_function_result_end = [],
     gen_fetch_function_result_any_begin = (\<lambda>_ _ _. []),
     gen_fetch_function_result_any_end = (\<lambda>_. []),
     gen_store_function_begin = (\<lambda>_ _ _ _ v. ([], v)),
     gen_store_function_end = (\<lambda>_ _. []),
     gen_fetch_switch_begin = [],
     gen_fetch_switch_case = (\<lambda>_ _. []),
     gen_fetch_switch_end = []\<rparr>"

definition empty_outline :: string where
  "empty_outline = concat (map (\<lambda>l. l @ [NLF]) [''begin'', ''class Object'', ''class Function'', ''end''])"



text \<open>The bytes of the scheme of users, as the file of the scheme \<open>telegram_api\<close>.\<close>

definition scheme_file :: filesys where
  "scheme_file = \<lparr>contents = [''auto/tlo/telegram_api.tlo'' \<mapsto> map (char_of \<circ> unat) (enc_schema user_schema)], can_write = (\<lambda>_. True)\<rparr>"


end
