(* ===== verification/TL_Names.thy ===== *)
theory TL_Names
  imports TL_Combinator TL_Written
begin

section \<open>Names in the generated C++ code (generate: tl_writer_td.cpp)\<close>

text \<open>
  The functions of \<open>TD_TL_writer\<close> that name classes, fields and types, with the assertions they make. The name of a type that is not
  built in is the name of its only supported constructor or its own. A parameter of a constructor is passed by value, by reference to a constant or by
  rvalue reference, depending on the text of its type.
\<close>

unbundle bit_operations_syntax

subsection \<open>Names\<close>

definition MAX_ARITY :: int where "MAX_ARITY = 0"

definition is_alnum :: "char \<Rightarrow> bool" where
  "is_alnum c \<longleftrightarrow> is_digit c \<or> is_lletter c \<or> is_uletter c"

definition int_to_string :: "int \<Rightarrow> string" where
  "int_to_string x = int_dec x"

definition mangle :: "string \<Rightarrow> string" where
  "mangle name = map (\<lambda>x. if is_alnum x then x else CHR ''_'') name"

definition td_is_type_bare :: "tl_ctype \<Rightarrow> bool" where
  "td_is_type_bare t \<longleftrightarrow>
     ct_simple_constructors t \<le> 1 \<or> (td_simple_type (ct_name t) \<and> ct_name t \<noteq> ''Bool'') \<or> ct_name t = ''Vector''"

definition td_default_constructor :: "string \<Rightarrow> tl_combinator \<Rightarrow> bool \<Rightarrow> bool \<Rightarrow> bool" where
  "td_default_constructor tl_name k parsed stored \<longleftrightarrow>
     tl_name = ''td_api'' \<or> tl_name = ''TdApi'' \<or> (0 < cb_var_count k \<and> parsed) \<or> cb_name k = ''updates''"

definition td_full_constructor :: "string \<Rightarrow> tl_combinator \<Rightarrow> bool \<Rightarrow> bool \<Rightarrow> bool" where
  "td_full_constructor tl_name k parsed stored \<longleftrightarrow>
     tl_name = ''td_api'' \<or> tl_name = ''TdApi'' \<or> stored \<or>
     cb_name k \<in> {''phone.groupParticipants'', ''user'', ''userProfilePhoto'', ''channelForbidden'', ''photoSizeEmpty'', ''photoSize'',
       ''photoCachedSize'', ''document'', ''updateDeleteMessages'', ''updateEditChannelMessage'', ''encryptedChatWaiting'',
       ''encryptedChatRequested'', ''encryptedChat'', ''langPackString'', ''langPackStringPluralized'', ''langPackStringDeleted'',
       ''peerUser'', ''peerChat'', ''updateServiceNotification'', ''updateNewMessage'', ''message'', ''updateChannelTooLong''}"

definition td_storer_type :: "string \<Rightarrow> int" where
  "td_storer_type storer_name = of_bool (storer_name = ''TlStorerToString'')"

definition td_parsers :: "string \<Rightarrow> string list" where
  "td_parsers tl_name =
     (if tl_name = ''telegram_api'' then [''TlBufferParser'']
      else if tl_name = ''mtproto_api'' \<or> tl_name = ''secret_api'' then [''TlParser''] else [])"

definition td_storers :: "string \<Rightarrow> string list" where
  "td_storers tl_name =
     (if tl_name = ''telegram_api'' \<or> tl_name = ''mtproto_api'' \<or> tl_name = ''secret_api''
      then [''TlStorerCalcLength'', ''TlStorerUnsafe''] else []) @ [''TlStorerToString'']"

definition td_base_type_class_name :: "int \<Rightarrow> fault + string" where
  "td_base_type_class_name arity = (if arity = 0 then Inr ''Object'' else Inl Assertion)"

definition td_base_tl_class_name :: string where
  "td_base_tl_class_name = ''TlObject''"

definition td_base_function_class_name :: string where
  "td_base_function_class_name = ''Function''"

definition td_class_name :: "string \<Rightarrow> fault + string" where
  "td_class_name name =
     (if name = ''Object'' then Inl Assertion else if name = ''#'' then Inr ''int32'' else Inr (mangle name))"

definition td_field_name :: "string \<Rightarrow> fault + string" where
  "td_field_name name =
     (let name = mangle name in
      if name = [] then Inl Assertion else if last name = CHR ''_'' then Inl Assertion else Inr (name @ ''_''))"

definition td_var_name :: "var_description \<Rightarrow> fault + string" where
  "td_var_name desc =
     (if vd_is_type desc then Inl Assertion else if vd_parameter_num desc \<noteq> -1 then Inl Assertion
      else Inr (''var'' @ int_to_string (vd_index desc)))"

definition td_parameter_name :: "int \<Rightarrow> fault + string" where
  "td_parameter_name index = Inl Assertion"

definition td_int_const :: "tl_tree \<Rightarrow> vars \<Rightarrow> fault + string" where
  "td_int_const T v = Inl Assertion"

text \<open>\<open>TL_writer::gen_main_class_name\<close>\<close>

fun first_supported :: "tl_config \<Rightarrow> tl_combinator list \<Rightarrow> fault + tl_combinator option" where
  "first_supported c [] = Inr None"
| "first_supported c (k # ks) =
     (case td_combinator_supported c k of
        Inl e \<Rightarrow> Inl e
      | Inr b \<Rightarrow> if b then Inr (Some k) else first_supported c ks)"

definition td_main_class_name :: "tl_config \<Rightarrow> tl_ctype \<Rightarrow> fault + string" where
  "td_main_class_name c t =
     (if ct_simple_constructors t = 1 then
        (case first_supported c (ct_constructors t) of
           Inl e \<Rightarrow> Inl e
         | Inr (Some k) \<Rightarrow> td_class_name (cb_name k)
         | Inr None \<Rightarrow> td_class_name (ct_name t))
      else td_class_name (ct_name t))"

subsection \<open>Types\<close>

definition simple_names :: "(string \<times> string) list" where
  "simple_names =
     [(''#'', ''int32''), (''True'', ''bool''), (''Bool'', ''bool''), (''Int'', ''int32''), (''Int32'', ''int32''), (''Int53'', ''int53''),
      (''Long'', ''int64''), (''Int64'', ''int64''), (''Double'', ''double''), (''String'', ''string''), (''Int128'', ''UInt128''),
      (''Int256'', ''UInt256''), (''Bytes'', ''bytes'')]"

fun td_type_name :: "tl_config \<Rightarrow> tl_tree \<Rightarrow> fault + string" where
  "td_type_name c (tl_tree_type f t cs) =
     (let ty = cf_types c ! t; name = ct_name ty in
      case map_of simple_names name of
        Some x \<Rightarrow> Inr x
      | None \<Rightarrow>
          if name = ''Vector'' then
            (if ct_arity ty \<noteq> 1 then Inl Assertion
             else
               (case cs of
                  [x] \<Rightarrow>
                    if node_type x \<noteq> NODE_TYPE_TYPE then Inl Assertion
                    else (case td_type_name c x of Inl e \<Rightarrow> Inl e | Inr s \<Rightarrow> Inr (''array<'' @ s @ ''>''))
                | _ \<Rightarrow> Inl Assertion))
          else if td_simple_type name then Inl Assertion
          else if list_all (\<lambda>x. node_type x = NODE_TYPE_NAT_CONST) cs then
            (case td_main_class_name c ty of Inl e \<Rightarrow> Inl e | Inr s \<Rightarrow> Inr (''object_ptr<'' @ s @ ''>''))
          else Inl Assertion)"
| "td_type_name c _ = Inl OutOfBounds"

definition td_array_type_name :: "tl_tree \<Rightarrow> string \<Rightarrow> fault + string" where
  "td_array_type_name arr w = Inl Assertion"

definition td_var_type_name :: string where
  "td_var_type_name = ''object_ptr<'' @ td_base_function_class_name @ ''>''"

definition td_field_type :: "tl_config \<Rightarrow> tl_arg \<Rightarrow> fault + string" where
  "td_field_type c = field_type_by c td_var_type_name (td_type_name c) td_array_type_name"

text \<open>How a parameter of a type is passed; the parameter \<open>same_types\<close> is \<open>string_type == bytes_type\<close>.\<close>

definition passed_as :: "bool \<Rightarrow> string \<Rightarrow> fault + string" where
  "passed_as same_types ft =
     (if ft \<in> {''bool '', ''int32 '', ''int53 '', ''int64 '', ''double ''} then Inr ft
      else if ft \<in> {''UInt128 '', ''UInt256 '', ''string ''} \<or> (same_types \<and> ft = ''bytes '') then Inr (ft @ ''const &'')
      else if take 5 ft = ''array'' \<or> ft = ''bytes '' \<or> take 10 ft = ''object_ptr'' then Inr (ft @ ''&&'')
      else Inl Assertion)"

definition td_constructor_parameter :: "bool \<Rightarrow> tl_config \<Rightarrow> int \<Rightarrow> tl_arg \<Rightarrow> bool \<Rightarrow> fault + string" where
  "td_constructor_parameter same_types c field_num a is_default =
     (if is_default then Inr []
      else
        (case td_field_type c a of
           Inl e \<Rightarrow> Inl e
         | Inr ft \<Rightarrow>
             if ft = [] then Inr []
             else
               (case passed_as same_types (if last ft \<noteq> CHR '' '' then ft @ '' '' else ft) of
                  Inl e \<Rightarrow> Inl e
                | Inr p \<Rightarrow>
                    (case td_field_name (a_name a) of
                       Inl e \<Rightarrow> Inl e
                     | Inr fn \<Rightarrow> Inr ((if field_num = 0 then [] else '', '') @ p @ fn)))))"

subsection \<open>Schemes whose types have names\<close>

text \<open>
  In a plain configuration no type and no constructor is called \<open>Object\<close>, vectors have one parameter and other types that are not built in have none, and
  all constructors can be judged. A plain type expression consists of type nodes that have as many children as the arity says.
\<close>

definition plain_type :: "tl_config \<Rightarrow> tl_ctype \<Rightarrow> bool" where
  "plain_type c t \<longleftrightarrow> ct_name t \<noteq> ''Object'' \<and>
     list_all (\<lambda>k. cb_name k \<noteq> ''Object'' \<and> (case td_combinator_supported c k of Inl _ \<Rightarrow> False | Inr _ \<Rightarrow> True)) (ct_constructors t) \<and>
     (if ct_name t = ''Vector'' then ct_arity t = 1 else ct_arity t = 0)"

fun plain_tree :: "tl_config \<Rightarrow> tl_tree \<Rightarrow> bool" where
  "plain_tree c (tl_tree_type f t cs) \<longleftrightarrow> t < types_n c \<and> plain_type c (cf_types c ! t) \<and>
     int (length cs) = ct_arity (cf_types c ! t) \<and> (\<forall>x \<in> set cs. plain_tree c x)"
| "plain_tree c _ \<longleftrightarrow> False"

lemma plain_tree_node: "plain_tree c T \<Longrightarrow> node_type T = NODE_TYPE_TYPE"
  by (cases T) simp_all

lemma first_supported_member:
  assumes "list_all (\<lambda>k. P k \<and> (case td_combinator_supported c k of Inl _ \<Rightarrow> False | Inr _ \<Rightarrow> True)) ks"
  shows "\<exists>r. first_supported c ks = Inr r \<and> (\<forall>k. r = Some k \<longrightarrow> P k)"
  using assms by (induction ks) (auto split: sum.splits)

lemma main_class_name_returns:
  assumes "plain_type c t"
  shows "\<exists>s. td_main_class_name c t = Inr s"
proof -
  from assms have "list_all (\<lambda>k. cb_name k \<noteq> ''Object'' \<and> (case td_combinator_supported c k of Inl _ \<Rightarrow> False | Inr _ \<Rightarrow> True)) (ct_constructors t)"
    by (simp add: plain_type_def)
  from first_supported_member[OF this] obtain r where "first_supported c (ct_constructors t) = Inr r" "\<forall>k. r = Some k \<longrightarrow> cb_name k \<noteq> ''Object''"
    by blast
  with assms show ?thesis by (cases r) (auto simp: td_main_class_name_def td_class_name_def plain_type_def)
qed

text \<open>The texts of types: a fixed name, an array or a pointer.\<close>

definition type_text :: "string \<Rightarrow> bool" where
  "type_text s \<longleftrightarrow> s \<in> snd ` set simple_names \<or> (\<exists>x. s = ''array<'' @ x @ ''>'') \<or> (\<exists>x. s = ''object_ptr<'' @ x @ ''>'')"

lemma simple_type_names: "td_simple_type name \<Longrightarrow> map_of simple_names name \<noteq> None"
  by (auto simp: td_simple_type_def simple_names_def)

lemma type_name_returns: "plain_tree c T \<Longrightarrow> \<exists>s. td_type_name c T = Inr s \<and> type_text s"
proof (induction c T rule: td_type_name.induct)
  case (1 c f t cs)
  let ?t = "cf_types c ! t"
  show ?case
  proof (cases "map_of simple_names (ct_name ?t)")
    case (Some x)
    then have "x \<in> snd ` set simple_names" by (force dest: map_of_SomeD)
    with Some show ?thesis by (simp add: type_text_def)
  next
    case None
    then have nonsimple: "\<not> td_simple_type (ct_name ?t)" using simple_type_names by blast
    show ?thesis
    proof (cases "ct_name ?t = ''Vector''")
      case True
      with 1(2) obtain x where x: "cs = [x]" "plain_tree c x" "ct_arity ?t = 1"
        by (cases cs) (auto simp: plain_type_def split: if_splits)
      have "\<exists>s. td_type_name c x = Inr s \<and> type_text s"
        by (rule 1(1)[OF refl refl None True _ x(1)]) (use x plain_tree_node[OF x(2)] in simp_all)
      with None True x plain_tree_node[OF x(2)] show ?thesis by (auto simp: type_text_def)
    next
      case False
      with 1(2) have cs: "cs = []" "plain_type c ?t" by (auto simp: plain_type_def)
      from main_class_name_returns[OF cs(2)] obtain s where "td_main_class_name c ?t = Inr s" by blast
      with None False nonsimple cs(1) have "td_type_name c (tl_tree_type f t cs) = Inr (''object_ptr<'' @ s @ ''>'')" by (simp add: Let_def)
      then show ?thesis unfolding type_text_def by blast
    qed
  qed
qed simp_all

definition passed :: "bool \<Rightarrow> string \<Rightarrow> bool" where
  "passed same s \<longleftrightarrow> s \<noteq> [] \<and> last s \<noteq> CHR '' '' \<and>
     list_ex (\<lambda>q. passed_as same (s @ '' '') = Inr (s @ '' '' @ q)) [[], ''const &'', ''&&'']"

lemma passed_simple: "list_all (\<lambda>p. \<forall>same. passed same (snd p)) simple_names"
  by code_simp

lemma passed_compound: "passed same (''array<'' @ x @ ''>'')" "passed same (''object_ptr<'' @ x @ ''>'')"
  by (simp_all add: passed_def passed_as_def)

lemma passed_as_returns:
  assumes "type_text s"
  shows "s \<noteq> [] \<and> last s \<noteq> CHR '' '' \<and> (\<exists>q \<in> {[], ''const &'', ''&&''}. passed_as same (s @ '' '') = Inr (s @ '' '' @ q))"
proof -
  have "passed same s" using assms passed_simple passed_compound by (auto simp: type_text_def list_all_iff)
  then show ?thesis by (simp add: passed_def)
qed

lemma field_name_returns: "name \<noteq> [] \<Longrightarrow> is_alnum (last name) \<Longrightarrow> td_field_name name = Inr (mangle name @ ''_'')"
proof -
  assume n: "name \<noteq> []" "is_alnum (last name)"
  have "\<not> is_alnum (CHR ''_'')" by code_simp
  with n show ?thesis by (auto simp: td_field_name_def mangle_def last_map)
qed

subsection \<open>Properties\<close>

text \<open>
  C30: The assertion marked unreachable in \<open>TD_TL_writer::gen_constructor_parameter\<close> is unreachable, and the function does not abort elsewhere: for an argument
  whose flags the generator knows, whose type is a plain expression and whose name ends with a letter or digit, the parameter is the separator, the name of the type, how it is passed, and the name of the
  field; the parameter of a type variable is omitted.
\<close>

theorem constructor_parameter_returns:
  assumes "plain_tree c (a_type a)" and "arg_flags_ok a" and "a_name a \<noteq> []" and "is_alnum (last (a_name a))"
  shows "\<exists>ft. td_field_type c a = Inr ft \<and>
    (if ft = [] then td_constructor_parameter same c n a False = Inr []
     else \<exists>q \<in> {[], ''const &'', ''&&''}. td_constructor_parameter same c n a False =
       Inr ((if n = 0 then [] else '', '') @ ft @ '' '' @ q @ mangle (a_name a) @ ''_''))"
proof -
  obtain f t cs where T: "a_type a = tl_tree_type f t cs" using assms(1) by (cases "a_type a") simp_all
  have fl: "a_flags a AND FLAG_EXCL_core = 0" "a_flags a = FLAG_NOVAR \<or> a_flags a = 0 \<or> a_flags a = FLAG_OPT_VAR_core OR FLAG_NOVAR OR FLAG_BARE"
    using assms(2) by (auto simp: arg_flags_ok_def T node_types split: if_splits)
  have ar: "int (length cs) = ct_arity (cf_types c ! t)" using assms(1) T by simp
  have ft: "td_field_type c a = (if ct_id (cf_types c ! t) = ID_VAR_TYPE then Inr [] else td_type_name c (a_type a))"
    using fl ar by (simp add: td_field_type_def field_type_by_def Let_def T del: td_type_name.simps)
  show ?thesis
  proof (cases "ct_id (cf_types c ! t) = ID_VAR_TYPE")
    case True
    with ft show ?thesis by (simp add: td_constructor_parameter_def)
  next
    case False
    from type_name_returns[OF assms(1)] obtain s where s: "td_type_name c (a_type a) = Inr s" "type_text s" by blast
    from passed_as_returns[OF s(2), of same] obtain q where "s \<noteq> []" "last s \<noteq> CHR '' ''" "q \<in> {[], ''const &'', ''&&''}"
        "passed_as same (s @ '' '') = Inr (s @ '' '' @ q)" by blast
    with ft False s(1) field_name_returns[OF assms(3,4)] show ?thesis
      by (intro exI[of _ s]) (auto simp: td_constructor_parameter_def)
  qed
qed

theorem constructor_parameter_returns_witness:
  "plain_tree (sample_config 0 3) (ty_tree 3) \<and>
   td_constructor_parameter True (sample_config 0 3) 1 (Arg ''from_user'' FLAG_NOVAR (-1) (-1) 0 (ty_tree 3)) False = Inr '', object_ptr<User> &&from_user_''"
proof -
  let ?c = "sample_config 0 3" and ?a = "Arg ''from_user'' FLAG_NOVAR (-1) (-1) 0 (ty_tree 3)"
  have p: "plain_tree ?c (a_type ?a)" "arg_flags_ok ?a" "a_name ?a \<noteq> []" "is_alnum (last (a_name ?a))" by code_simp+
  have "td_field_type ?c ?a = Inr ''object_ptr<User>''" by code_simp
  with constructor_parameter_returns[OF p, of True 1] have "\<exists>q \<in> {[], ''const &'', ''&&''}. td_constructor_parameter True ?c 1 ?a False =
       Inr ('', '' @ ''object_ptr<User>'' @ '' '' @ q @ mangle ''from_user'' @ ''_'')" by simp
  moreover have "td_constructor_parameter True ?c 1 ?a False = Inr '', object_ptr<User> &&from_user_''" by code_simp
  ultimately show ?thesis using p(1) by simp
qed

end
