(* ===== verification/Spec2Isabelle.thy ===== *)
theory Spec2Isabelle
  imports TL_Main TL_Crc32 TL_Grammar TL_NameTrees TL_Exchange TL_Runs TL_Names
begin

text \<open>
  Verification of the TL schema compiler of TDLib, the C program under src/td/generate/tl-parser (the program \<open>tlc\<close>), and of the C++ library
  under src/tdtl/td/tl that reads its output and drives the code generators.

  \<^bold>\<open>The compiler.\<close> \<open>main\<close> (tlc.c) reads its options with its own copy of getopt (wgetopt.c), loads one
  file, runs a hand-written lexer and a recursive-descent parser with backtracking over it
  (tl-parser.c, lines 67-942), turns the parse tree into types, constructors and functions (lines 944-2785), and writes
  the result in the binary TLO format (lines 2787-3085). The semantic pass keeps its tables in treaps that a macro generates
  (tl-parser-tree.h) and names every combinator without an explicit tag by the CRC-32 of its text form (crc32.c).

  \<^bold>\<open>The generators.\<close> Each generator program reads a TLO file (\<open>read_tl_config_from_file\<close>, tl_config.cpp over the byte parser of
  tl_simple_parser.h) into a \<open>tl_config\<close> of shared types and combinators and calls \<open>write_tl_to_file\<close> (tl_generate.cpp) with a writer, a subclass of \<open>TL_writer\<close>.
  \<open>write_tl\<close> checks the configuration, marks the types it cannot generate, searches for the types that are sent and received, asks the writer for
  the pieces of text of all classes, and removes the marks. The file is rewritten only if it differs from the text up to documentation
  (tl_file_utils.cpp), which a program of its own removes, too (remove_documentation.cpp).

  \<^bold>\<open>Conventions\<close> (TL_Prelude). A C function over global state is a computation \<open>'s \<Rightarrow> fault + 'a \<times> 's\<close>. The
  faults are a failed \<open>assert\<close>, a null dereference, an access out of bounds, and fuel that ran out. Machine integers whose width matters are words
  (\<open>u8\<close>, \<open>u32\<close>, \<open>u64\<close>); counters and indices that the code keeps in range are \<open>int\<close> or \<open>nat\<close>. Pointers into shared structures are addresses of an explicit
  store, pointers into the text are positions. The macros with control flow (\<open>PARSE_*\<close>, \<open>TL_TRY\<close>) take the rest of the function as a
  continuation. The collection \<open>keeps\<close> carries invariants through the code, \<open>post\<close> postconditions with a set of permitted faults.

  \<^bold>\<open>Theories.\<close>
  \<^item> TL_Crc32 (crc32.c): the four tables, the slicing loop, \<open>compute_crc32\<close>; equal to the bit-by-bit CRC on every input.
  \<^item> TL_Treap (tl-parser-tree.h): every generated operation over an arbitrary comparison; the locale \<open>tree_order\<close> is the contract on the comparison and
    gives the trees their meaning as finite maps.
  \<^item> TL_Lexer (tl-parser.c, 110-416): \<open>parse_lex\<close> and its helpers on the state \<open>lexst\<close>; the invariant of positions, lines, columns and the error place; the
    token classes; what white space and comments are by a reference function; what goes wrong at the end of a text without newline.
  \<^item> TL_Parser (419-942): all \<open>parse_*\<close> functions; one contract for them, from which follow termination, absence of faults, the place of errors and exact backtracking.
  \<^item> TL_Grammar: the shapes of parse trees, and that the parser returns no other trees.
  \<^item> TL_Registry (944-1299): the state \<open>tlst\<close> of the semantic pass and the operations on types, constructors, functions, variables, fields and bindings;
    interpretations of \<open>tree_order\<close> for all its trees; the invariant \<open>reg_ok\<close>; the additions as lookup-or-insert on maps.
  \<^item> TL_NameTrees: the treap operations on trees of names, and that their traversal does not depend on the random priorities.
  \<^item> TL_Scopes: variables as a stack of scopes (locale \<open>scope_stack\<close>), bindings as finite maps, fields as sets, and \<open>prog_ok\<close>, the invariant of
    the whole state.
  \<^item> TL_Combinator (1300-1592): copying, text form, naming, arity and union of combinator trees; copies are fresh and faithful, unions follow the table of kinds, tags
    survive printing and reading.
  \<^item> TL_Unify (2119-2284, 2577-2716): substitution and unification.
  \<^item> TL_Semantic (1594-2057) and TL_Declare (2059-2117, 2286-2575, 2719-2785):
    terms, arguments, result types, declarations and \<open>tl_parse\<close>, with \<open>prog_ok\<close> carried through all of them.
  \<^item> TL_Writer (2787-3085): the serialisation and the shape of the file.
  \<^item> TL_Getopt (wgetopt.c): permutation of the arguments, short, long and \<open>-W\<close> options; the locale \<open>option_scanner\<close> is what a client's option loop relies on.
  \<^item> TL_Main (tlc.c): options, \<open>compile\<close> and \<open>main\<close>; \<open>option_scanner\<close> is interpreted on the call \<open>main\<close> makes.
  \<^item> TL_Config (tl_simple_parser.h, tl_core, tl_config): the byte parser, the data of a configuration and \<open>read_tl_config\<close>; reading ends on every file.
  \<^item> TL_Format: the TLO format as a datatype of schemes with its encoding \<open>enc_schema\<close> and meaning \<open>config_of\<close>; the reader decodes every encoding (locale
    \<open>tlo_reader\<close>).
  \<^item> TL_Exchange: the scheme of a program of the compiler (\<open>abs_schema\<close>); the compiler writes its encoding, so the generators read back what was compiled.
  \<^item> TL_Generate (tl_writer.cpp, tl_writer_td.cpp, tl_generate.cpp 27-51, 455-612, 832-837): the support tests, the writer \<open>TD_TL_writer\<close>, the checks, the marking loop
    and the search.
  \<^item> TL_Complex: the marking loop ends and marks the least closed set of types, for every writer with the contract \<open>writer_contract\<close>, interpreted for the
    support tests of \<open>TL_writer\<close> and \<open>TD_TL_writer\<close>.
  \<^item> TL_Reach: the search ends and finds exactly the reachable names, none of them the name of a type that is not generated.
  \<^item> TL_Analysis: what the reader guarantees of a configuration (\<open>config_ok\<close>), and that the analysis of such a configuration ends with a result or a failed assertion.
  \<^item> TL_Files (tl_file_utils.cpp, remove_documentation.cpp): files and the removal of documentation, equal to a reference function on lines.
  \<^item> TL_Emit (tl_generate.cpp 53-453, 614-838, tl_writer.cpp 178-205): the writing of classes and of the whole file.
  \<^item> TL_Written: after the analysis no assertion of the writing phase fails, and the marks are removed.
  \<^item> TL_Runs (tl_generate.cpp 840-871, generate_common.cpp): \<open>write_tl_to_file\<close> and the generator of the C++ code, which writes three files from one configuration; by computations in
    lockstep the counters that a run leaves do not matter to the next one.
  \<^item> TL_Names (tl_writer_td.cpp, tl_writer.cpp 17-33, 146-156): names of classes, fields and types in the C++ code.
  \<^item> This theory: the properties that span components, from the file to the bytes written.

  \<^bold>\<open>Parameters.\<close> The values of \<open>lrand48\<close>, the contents of freshly allocated memory and the bytes behind a string literal are functions in the state; the theorems
  hold for all of them. The readable files, the writable paths and \<open>POSIXLY_CORRECT\<close> are the record \<open>world\<close>.
  The text functions of a writer (\<open>gen_*\<close>, \<open>get_parsers\<close> and so on) are the record \<open>generator\<close>, given as a function of the configuration they may read: they return
  strings and, where the code passes the variables by reference, the new variables. The theorems on \<open>write_tl\<close> hold for every such record. The files of the
  generators are the record \<open>filesys\<close>; reading and writing an opened file succeeds.

  \<^bold>\<open>Fuel.\<close> The parser takes one unit of fuel for a call or an iteration; three times the length of the text plus six is proved to be enough when the text ends with a
  newline. (On some texts without it the C program does not end, and a property shows how.) The lexer's loops take the length of
  the text. The option loop of \<open>main\<close> takes one unit per character and element of the command line, which is proved to be enough. Functions that follow pointers
  of combinator trees take \<open>nat (brk s)\<close>, more than the number of nodes ever allocated and so more than the depth of a tree without cycles; a
  cyclic tree would run out of fuel in the model and run forever in C. The recursion of the semantic pass follows the parse tree.
  The reader takes as fuel the number of bytes left, since every level of an expression reads at least four. The marking loop and the search take one more than the number of types: each iteration but the last
  marks a type, each level of the search enters a new name. All three are proved to be enough.

  \<^bold>\<open>Not modelled.\<close> Output for people (\<open>logprintf\<close>, \<open>hexdump\<close>, \<open>print_backtrace\<close>, \<open>tl_print_parse_error\<close>, the texts of \<open>usage\<close> and of getopt's
  messages) beyond which message is given; the signal handlers apart from the status they exit with; \<open>portable_endian.h\<close>, which selects platform
  functions (the writer's words are little endian); code under \<open>TEST\<close>, \<open>_LIBC\<close> and \<open>TL_PARSER_NEED_TIME\<close>, which is not compiled. \<open>malloc\<close> does not fail. Of the generators:
  the text functions of the concrete writers (tl_writer_cpp, tl_writer_h, tl_writer_hpp, tl_writer_jni_cpp, tl_writer_jni_h, tl_writer_java, tl_writer_c, tl_writer_dotnet), which are long lists of string literals, and with them aborts inside these
  functions; the variant with \<open>TD_ENABLE_JNI\<close>; generate_json.cpp, tl_json_converter.cpp and tl_simple.h, which do not use \<open>write_tl\<close>; the PHP scripts. Overflow of \<open>var_num + 1\<close> at \<open>INT_MAX\<close> and
  running out of memory for a huge count of variables are not modelled. The rest of the repository - SQLite, the C++ client library, the examples - is not part of these programs.

  \<^bold>\<open>Open.\<close> Soundness of unification (\<open>uniformize\<close>, \<open>check_constructors_equal\<close>); that \<open>abs_schema\<close> is defined for every accepted program, which
  \<open>compile_read_back\<close> has as a condition; the text functions of the concrete writers.
\<close>

subsection \<open>A sample run\<close>

definition sample_world :: world where
  "sample_world = \<lparr>files = [''f'' \<mapsto> [NL]], writable = (\<lambda>_. True), posix_env = False, random_seq = (\<lambda>_. 0),
     heap_junk = (\<lambda>_. 0), after_literal = (\<lambda>_ _. NUL)\<rparr>"

definition sample_opts :: main_opts where
  "sample_opts = \<lparr>out_expr = 0, verbosity = 0, vkext_file = Some ''o''\<rparr>"

lemma empty_run:
  "\<exists>p. tl_parse empty_program (initial_tlst rs js rd oe) = Inr (1, p) \<and> log p = [] \<and>
     (\<exists>t. write_types \<lparr>prog = p, out = []\<rparr> = Inr ((), t))"
  by (simp add: tl_parse_def empty_program_def tl_add_type_def tl_get_type_def new_type_def lrand48_def bind_apply
      initial_tlst_def new_tree_node_def type_key_def probe_def tl_parse_constr_declarations_def
      tl_type_check_def upd_type_def deref_def write_types_def wint_def wdata_def wstr_def wll_def write_type_def
      write_type_constructors_def in_prog_def)

subsection \<open>From the file to the output\<close>

text \<open>
  C2: The invariant of the whole state - registry, scopes, tables of fields, nodes - holds whenever the
  semantic pass returns, for every parse tree and whether or not it accepts the program.
\<close>

theorem tl_parse_invariant:
  assumes "tl_parse T (initial_tlst rs js rd oe) = Inr (r, p)"
  shows "prog_ok p"
  using keepsD[OF keeps_tl_parse prog_ok_initial assms] .

theorem tl_parse_invariant_witness:
  "\<exists>p. tl_parse empty_program (initial_tlst (\<lambda>_. 0) (\<lambda>_. 0) (\<lambda>_ _. NUL) 0) = Inr (1, p) \<and> prog_ok p"
  using empty_run[of "\<lambda>_. 0" "\<lambda>_. 0" "\<lambda>_ _. NUL" 0] tl_parse_invariant by blast

lemma compile_wrote:
  assumes "compile n W o1 f = Inr oc" and "written oc = Some (g, bs)"
  obtains P T ls r p t where "tl_init_parse_file (files W f) = Some P"
    and "tl_parse_lex n P (initial_lexst P) = Inr (Some T, ls)"
    and "tl_parse T (initial_tlst (random_seq W) (heap_junk W) (after_literal W) (out_expr o1)) = Inr (r, p)" and "r \<noteq> 0"
    and "status oc = 0" and "vkext_file o1 = Some g" and "writable W g"
    and "write_types \<lparr>prog = p, out = []\<rparr> = Inr ((), t)" and "out t = bs"
  using assms
  by (auto simp: compile_def vkext_write_def Let_def split: sum.splits prod.splits option.splits if_splits)


text \<open>
  C5: The compiler and the code generators: when the compiler has written a file from an accepted program, and the combinator trees of this
  program are well formed and its types have distinct ids, then the file holds the scheme of the program and the code generators read it
  without error as the configuration of this scheme.
\<close>

theorem compile_read_back:
  assumes "compile n W o1 f = Inr oc" and "written oc = Some (g, bs)"
  shows "\<exists>P T ls r p. tl_init_parse_file (files W f) = Some P \<and> tl_parse_lex n P (initial_lexst P) = Inr (Some T, ls) \<and>
     tl_parse T (initial_tlst (random_seq W) (heap_junk W) (after_literal W) (out_expr o1)) = Inr (r, p) \<and> r \<noteq> 0 \<and>
     (\<forall>X. abs_schema p = Some X \<and> distinct (map xt_id (xs_types X)) \<and> brk p \<le> 2 ^ 31 \<and> length bs < 2 ^ 25 \<longrightarrow>
        bs = enc_schema X \<and> read_tl_config bs = Inr (config_of X))"
proof -
  from compile_wrote[OF assms] obtain P T ls r p t where c: "tl_init_parse_file (files W f) = Some P"
      "tl_parse_lex n P (initial_lexst P) = Inr (Some T, ls)"
      "tl_parse T (initial_tlst (random_seq W) (heap_junk W) (after_literal W) (out_expr o1)) = Inr (r, p)" "r \<noteq> 0"
      "status oc = 0" "vkext_file o1 = Some g" "writable W g"
      "write_types \<lparr>prog = p, out = []\<rparr> = Inr ((), t)" "out t = bs" .
  have p: "reg_ok p" "store_ok p" using keepsD[OF keeps_tl_parse prog_ok_initial c(3)] by (simp_all add: prog_ok_def)
  have "bs = enc_schema X \<and> read_tl_config bs = Inr (config_of X)"
    if X: "abs_schema p = Some X" "distinct (map xt_id (xs_types X))" "brk p \<le> 2 ^ 31" "length bs < 2 ^ 25" for X
  proof -
    have "bs = enc_schema X" using write_types_abs[OF p X(3,1,2)] c(8,9) by auto
    with read_enc_schema[OF ok_schema_abs[OF p X(3,1,2)]] X(4) show ?thesis by simp
  qed
  with c(1-4) show ?thesis by blast
qed

lemma sample_compile:
  "\<exists>oc bs. compile 9 sample_world sample_opts ''f'' = Inr oc \<and> written oc = Some (''o'', bs)"
proof -
  obtain ls where ls: "tl_parse_lex 9 nl_parse (initial_lexst nl_parse) = Inr (Some empty_program, ls)"
    using nl_run[of 7] by (auto simp: eval_nat_numeral)
  obtain p t where p: "tl_parse empty_program (initial_tlst (\<lambda>_. 0) (\<lambda>_. 0) (\<lambda>_ _. NUL) 0) = Inr (1, p)"
      "write_types \<lparr>prog = p, out = []\<rparr> = Inr ((), t)"
    using empty_run[of "\<lambda>_. 0" "\<lambda>_. 0" "\<lambda>_ _. NUL" 0] by auto
  show ?thesis
    by (simp add: compile_def sample_world_def sample_opts_def nl_init ls p vkext_write_def Let_def)
qed


lemma empty_schema:
  "\<exists>p X. tl_parse empty_program (initial_tlst (\<lambda>_. 0) js rd oe) = Inr (1, p) \<and> abs_schema p = Some X \<and>
    distinct (map xt_id (xs_types X)) \<and> brk p \<le> 2 ^ 31 \<and> length (enc_schema X) < 2 ^ 25 \<and> map xt_name (xs_types X) = [''#'', ''Type'']"
  by (simp add: tl_parse_def empty_program_def tl_add_type_def tl_get_type_def new_type_def lrand48_def bind_apply
      initial_tlst_def new_tree_node_def type_key_def probe_def tl_parse_constr_declarations_def
      tl_type_check_def upd_type_def deref_def abs_schema_def Let_def abs_ty_def constructors_of_def enc_schema_def enc_ty_def string_bytes_def)

theorem compile_read_back_witness:
  "\<exists>oc bs c. compile 9 sample_world sample_opts ''f'' = Inr oc \<and> written oc = Some (''o'', bs) \<and> read_tl_config bs = Inr c \<and>
     map ct_name (cf_types c) = [''#'', ''Type'']"
proof -
  obtain oc bs where oc: "compile 9 sample_world sample_opts ''f'' = Inr oc" "written oc = Some (''o'', bs)"
    using sample_compile by blast
  obtain ls where ls: "tl_parse_lex 9 nl_parse (initial_lexst nl_parse) = Inr (Some empty_program, ls)"
    using nl_run[of 7] by (auto simp: eval_nat_numeral)
  obtain p X where X: "tl_parse empty_program (initial_tlst (\<lambda>_. 0) (\<lambda>_. 0) (\<lambda>_ _. NUL) 0) = Inr (1, p)" "abs_schema p = Some X"
      "distinct (map xt_id (xs_types X))" "brk p \<le> 2 ^ 31" "length (enc_schema X) < 2 ^ 25" "map xt_name (xs_types X) = [''#'', ''Type'']"
    using empty_schema[of "\<lambda>_. 0" "\<lambda>_ _. NUL" 0] by (elim exE conjE) (rule that)
  have p: "reg_ok p" "store_ok p" using keepsD[OF keeps_tl_parse prog_ok_initial X(1)] by (simp_all add: prog_ok_def)
  from compile_wrote[OF oc] obtain P T ls' r p' t where c: "tl_init_parse_file (files sample_world ''f'') = Some P"
      "tl_parse_lex 9 P (initial_lexst P) = Inr (Some T, ls')"
      "tl_parse T (initial_tlst (random_seq sample_world) (heap_junk sample_world) (after_literal sample_world) (out_expr sample_opts)) = Inr (r, p')"
      "write_types \<lparr>prog = p', out = []\<rparr> = Inr ((), t)" "out t = bs" by metis
  have "P = nl_parse" using c(1) by (simp add: sample_world_def nl_init)
  then have "T = empty_program" using c(2) ls by simp
  then have "p' = p" using c(3) X(1) by (simp add: sample_world_def sample_opts_def)
  then have bs: "bs = enc_schema X" using write_types_abs[OF p X(4,2,3)] c(4,5) by auto
  from compile_read_back[OF oc] obtain P T ls' r q where d: "tl_init_parse_file (files sample_world ''f'') = Some P"
      "tl_parse_lex 9 P (initial_lexst P) = Inr (Some T, ls')"
      "tl_parse T (initial_tlst (random_seq sample_world) (heap_junk sample_world) (after_literal sample_world) (out_expr sample_opts)) = Inr (r, q)"
      "\<forall>X. abs_schema q = Some X \<and> distinct (map xt_id (xs_types X)) \<and> brk q \<le> 2 ^ 31 \<and> length bs < 2 ^ 25 \<longrightarrow>
        bs = enc_schema X \<and> read_tl_config bs = Inr (config_of X)" by metis
  have "P = nl_parse" using d(1) by (simp add: sample_world_def nl_init)
  then have "T = empty_program" using d(2) ls by simp
  then have "q = p" using d(3) X(1) by (simp add: sample_world_def sample_opts_def)
  with d(4) X(2-5) bs have "read_tl_config bs = Inr (config_of X)" by blast
  moreover have "map ct_name (cf_types (config_of X)) = [''#'', ''Type'']"
    using X(6) by (simp add: config_of_def Let_def val_ty_def comp_def)
  ultimately show ?thesis using oc by (intro exI[of _ oc] exI[of _ bs] exI[of _ "config_of X"]) simp
qed


text \<open>A run that ends in a fault: the output file cannot be opened.\<close>

lemma sample_fault:
  "main 9 (sample_world\<lparr>writable := \<lambda>_. False\<rparr>) [''tlc'', ''-e'', ''o'', ''f''] = Inl Assertion"
proof -
  obtain ls where ls: "tl_parse_lex 9 nl_parse (initial_lexst nl_parse) = Inr (Some empty_program, ls)"
    using nl_run[of 7] by (auto simp: eval_nat_numeral)
  obtain p where p: "tl_parse empty_program (initial_tlst (\<lambda>_. 0) (\<lambda>_. 0) (\<lambda>_ _. NUL) 0) = Inr (1, p)"
    using empty_run[of "\<lambda>_. 0" "\<lambda>_. 0" "\<lambda>_ _. NUL" 0] by auto
  have "nonoption ''f''" by (simp add: nonoption_def)
  from main_e_first[OF this] show ?thesis
    by (simp add: compile_def sample_world_def nl_init ls p vkext_write_def Let_def)
qed


end
